(* ===== verification/Prelude.thy ===== *)
theory Prelude
  imports Main "HOL-Library.Char_ord" "HOL-Library.List_Lexorder" "HOL-Library.AList"
begin

text \<open>
  What the components share: the collections the proofs rewrite with, the vocabulary of the
  model (Go strings are byte strings, so they are \<open>char list\<close>s; an \<open>error\<close> result is an
  option whose \<open>None\<close> is Go's \<open>nil\<close>), and generic facts about lists, association lists and
  reachability.
\<close>

section \<open>Collections and vocabulary\<close>

named_theorems go_str \<open>computation rules of the string routines\<close>
named_theorems inv_step \<open>one-step preservation facts\<close>

type_synonym bytes = string
type_synonym path = string

section \<open>Lists\<close>

lemma take_append_exact [simp]: "n = length xs \<Longrightarrow> take n (xs @ ys) = xs"
  by simp

lemma drop_append_exact [simp]: "n = length xs \<Longrightarrow> drop n (xs @ ys) = ys"
  by simp

lemma take_eq_prefixD: "take (length p) s = p \<Longrightarrow> s = p @ drop (length p) s"
  by (metis append_take_drop_id)

lemma dropWhile_rev_id: "s = [] \<or> \<not> P (last s) \<Longrightarrow> rev (dropWhile P (rev s)) = s"
  by (cases s rule: rev_cases) auto

lemma sum_list_filter_le:
  fixes f :: "'a \<Rightarrow> nat"
  shows "sum_list (map f (filter P xs)) \<le> sum_list (map f xs)"
  by (induction xs) auto

section \<open>Association lists as Go maps with integer values\<close>

text \<open>Go's \<open>m[k]++\<close> on a \<open>map[string]int\<close>: a missing key counts from 0.\<close>

definition map_incr :: "'k \<Rightarrow> ('k \<times> nat) list \<Rightarrow> ('k \<times> nat) list" where
  "map_incr k m = AList.map_default k 1 Suc m"

text \<open>Go's \<open>m[k]\<close>: the zero value where the key is missing.\<close>

definition map_get :: "('k \<times> nat) list \<Rightarrow> 'k \<Rightarrow> nat" where
  "map_get m k = (case map_of m k of None \<Rightarrow> 0 | Some n \<Rightarrow> n)"

lemma map_get_Nil [simp]: "map_get [] k = 0"
  by (simp add: map_get_def)

lemma map_of_map_incr: "map_of (map_incr k m) = (map_of m)(k \<mapsto> Suc (map_get m k))"
  by (induction m) (auto simp: map_incr_def map_get_def fun_eq_iff)

lemma map_get_incr [simp]:
  "map_get (map_incr k m) j = (if j = k then Suc (map_get m j) else map_get m j)"
  by (simp add: map_of_map_incr map_get_def [of "map_incr k m"])
     (simp add: map_get_def)

lemma keys_map_incr: "fst ` set (map_incr k m) = insert k (fst ` set m)"
  by (induction m) (auto simp: map_incr_def)

lemma distinct_map_incr [simp]: "distinct (map fst m) \<Longrightarrow> distinct (map fst (map_incr k m))"
  by (simp add: map_incr_def distinct_map_default)

lemma sum_map_incr: "sum_list (map snd (map_incr k m)) = Suc (sum_list (map snd m))"
  by (induction m) (auto simp: map_incr_def)

section \<open>Transition systems\<close>

text \<open>A run of a labelled step relation, with the labels it went through.\<close>

inductive run :: "('s \<Rightarrow> 'e \<Rightarrow> 's \<Rightarrow> bool) \<Rightarrow> 's \<Rightarrow> 'e list \<Rightarrow> 's \<Rightarrow> bool" for step where
  run_Nil: "run step s [] s"
| run_Cons: "step s e t \<Longrightarrow> run step t es u \<Longrightarrow> run step s (e # es) u"

inductive_simps run_Nil_iff: "run step s [] t"
inductive_simps run_Cons_iff: "run step s (e # es) t"

lemma run_one: "step s e t \<Longrightarrow> run step s [e] t"
  by (simp add: run_Cons_iff run_Nil_iff)

lemma run_append: "run step s es t \<Longrightarrow> run step t fs u \<Longrightarrow> run step s (es @ fs) u"
  by (induction rule: run.induct) (auto intro: run.intros)

text \<open>A state property that every step keeps.\<close>

locale state_invariant =
  fixes step :: "'s \<Rightarrow> 'e \<Rightarrow> 's \<Rightarrow> bool" and inv :: "'s \<Rightarrow> bool"
  assumes step_inv: "inv s \<Longrightarrow> step s e t \<Longrightarrow> inv t"
begin

lemma run_inv: "run step s es t \<Longrightarrow> inv s \<Longrightarrow> inv t"
  by (induction rule: run.induct) (auto intro: step_inv)

text \<open>Labels that are impossible under the invariant do not occur.\<close>

lemma run_labels:
  assumes "run step s es t" "inv s" "\<And>s e t. inv s \<Longrightarrow> step s e t \<Longrightarrow> ok e"
  shows "\<forall>e \<in> set es. ok e"
  using assms(1,2) by (induction rule: run.induct) (auto intro: step_inv assms(3))

end

text \<open>A property that every step keeps as long as fewer than \<open>bound\<close> steps have been made; it may
  speak of how many were made.\<close>

locale counted_invariant =
  fixes step :: "'s \<Rightarrow> 'e \<Rightarrow> 's \<Rightarrow> bool" and inv :: "nat \<Rightarrow> 's \<Rightarrow> bool" and bound :: nat
  assumes count_step: "inv k s \<Longrightarrow> step s e t \<Longrightarrow> k < bound \<Longrightarrow> inv (Suc k) t"
begin

lemma run_count: "run step s es t \<Longrightarrow> inv k s \<Longrightarrow> k + length es \<le> bound \<Longrightarrow> inv (k + length es) t"
proof (induction arbitrary: k rule: run.induct)
  case (run_Cons s e t es u)
  then have "inv (Suc k) t" by (auto intro: count_step)
  from run_Cons.IH [OF this] run_Cons.prems show ?case by simp
qed simp

end

end
