(* ===== verification/GoStrings.thy ===== *)
theory GoStrings
  imports Prelude
begin

text \<open>
  The routines of Go's \<open>strings\<close> package that the program calls, on byte strings.
  \<open>ToLower\<close> has Go's two paths: a string of ASCII bytes is lowered byte by byte; any other
  string goes through \<open>strings.Map(unicode.ToLower, s)\<close>, whose Unicode table is the
  parameter \<open>uni\<close>.
\<close>

section \<open>Character classes\<close>

definition in_range :: "char \<Rightarrow> char \<Rightarrow> char \<Rightarrow> bool" where
  "in_range lo hi c \<longleftrightarrow> lo \<le> c \<and> c \<le> hi"

definition is_upper :: "char \<Rightarrow> bool" where
  "is_upper c \<longleftrightarrow> in_range (CHR ''A'') (CHR ''Z'') c"

definition is_lower :: "char \<Rightarrow> bool" where
  "is_lower c \<longleftrightarrow> in_range (CHR ''a'') (CHR ''z'') c"

definition is_digit :: "char \<Rightarrow> bool" where
  "is_digit c \<longleftrightarrow> in_range (CHR ''0'') (CHR ''9'') c"

definition is_ascii :: "char \<Rightarrow> bool" where
  "is_ascii c \<longleftrightarrow> of_char c < (128 :: nat)"

definition ascii_lower :: "char \<Rightarrow> char" where
  "ascii_lower c = (if is_upper c then char_of (of_char c + 32 :: nat) else c)"

section \<open>Prefixes, search and cutting\<close>

definition HasPrefix :: "string \<Rightarrow> string \<Rightarrow> bool" where
  "HasPrefix s p \<longleftrightarrow> take (length p) s = p"

fun find_sub :: "string \<Rightarrow> string \<Rightarrow> nat option" where
  "find_sub s sub =
     (if HasPrefix s sub then Some 0
      else case s of [] \<Rightarrow> None | _ # t \<Rightarrow> map_option Suc (find_sub t sub))"

declare find_sub.simps [simp del]

text \<open>\<open>strings.Index\<close>: the first byte index, or -1.\<close>

definition Index :: "string \<Rightarrow> string \<Rightarrow> int" where
  "Index s sub = (case find_sub s sub of None \<Rightarrow> -1 | Some n \<Rightarrow> int n)"

definition Contains :: "string \<Rightarrow> string \<Rightarrow> bool" where
  "Contains s sub \<longleftrightarrow> Index s sub \<ge> 0"

text \<open>\<open>strings.Cut\<close>: the text before and after the first separator, and whether there is one.\<close>

definition Cut :: "string \<Rightarrow> string \<Rightarrow> string \<times> string \<times> bool" where
  "Cut s sep = (case find_sub s sep of
     None \<Rightarrow> (s, [], False)
   | Some n \<Rightarrow> (take n s, drop (n + length sep) s, True))"

text \<open>\<open>strings.TrimRight(s, cutset)\<close> for a one-byte cutset.\<close>

definition TrimRight :: "char \<Rightarrow> string \<Rightarrow> string" where
  "TrimRight c s = rev (dropWhile (\<lambda>x. x = c) (rev s))"

definition ToLower :: "(string \<Rightarrow> string) \<Rightarrow> string \<Rightarrow> string" where
  "ToLower uni s = (if list_all is_ascii s then map ascii_lower s else uni s)"

text \<open>\<open>strings.TrimSpace\<close>: the UTF-8 encodings of the characters that \<open>unicode.IsSpace\<close> accepts,
  taken off both ends.\<close>

definition space_seqs :: "string list" where
  "space_seqs = [[CHR '' ''], [CHR 0x09], [CHR 0x0A], [CHR 0x0B], [CHR 0x0C], [CHR 0x0D],
     [CHR 0xC2, CHR 0x85], [CHR 0xC2, CHR 0xA0], [CHR 0xE1, CHR 0x9A, CHR 0x80]]
   @ map (\<lambda>n. [CHR 0xE2, CHR 0x80, char_of n]) ([0x80..<0x8B] @ [0xA8, 0xA9, 0xAF])
   @ [[CHR 0xE2, CHR 0x81, CHR 0x9F], [CHR 0xE3, CHR 0x80, CHR 0x80]]"

fun trim_seqs :: "string list \<Rightarrow> string \<Rightarrow> string" where
  "trim_seqs seqs [] = []"
| "trim_seqs seqs (c # s) =
     (case List.find (HasPrefix (c # s)) seqs of
        None \<Rightarrow> c # s
      | Some p \<Rightarrow> trim_seqs seqs (drop (length p - 1) s))"

definition TrimSpace :: "string \<Rightarrow> string" where
  "TrimSpace s = rev (trim_seqs (map rev space_seqs) (rev (trim_seqs space_seqs s)))"

section \<open>Facts\<close>

lemma HasPrefix_iff: "HasPrefix s p \<longleftrightarrow> (\<exists>t. s = p @ t)"
  by (auto simp: HasPrefix_def dest: take_eq_prefixD)

lemma HasPrefix_append [simp, go_str]: "HasPrefix (p @ t) p"
  by (simp add: HasPrefix_def)

lemma HasPrefix_Nil [simp]: "HasPrefix s []"
  by (simp add: HasPrefix_def)

lemma HasPrefix_single: "HasPrefix s [c] \<longleftrightarrow> (\<exists>t. s = c # t)"
  by (simp add: HasPrefix_iff)

lemma find_sub_Some:
  "find_sub s sub = Some n \<Longrightarrow> s = take n s @ sub @ drop (n + length sub) s \<and> n \<le> length s"
proof (induction s arbitrary: n)
  case Nil
  then show ?case by (auto simp: find_sub.simps [of "[]"] HasPrefix_def split: if_splits)
next
  case (Cons c s)
  show ?case
  proof (cases "HasPrefix (c # s) sub")
    case True
    with Cons.prems have "n = 0" by (simp add: find_sub.simps [of "c # s"])
    with True show ?thesis by (auto simp: HasPrefix_iff)
  next
    case False
    with Cons.prems obtain m where "find_sub s sub = Some m" and n: "n = Suc m"
      by (auto simp: find_sub.simps [of "c # s"])
    with Cons.IH show ?thesis by simp
  qed
qed

lemma find_sub_None: "find_sub s sub = None \<longleftrightarrow> (\<forall>p t. s \<noteq> p @ sub @ t)"
proof (induction s)
  case Nil
  show ?case by (cases sub) (auto simp: find_sub.simps [of "[]"] HasPrefix_def)
next
  case (Cons c s)
  have "(\<exists>p t. c # s = p @ sub @ t)
        \<longleftrightarrow> HasPrefix (c # s) sub \<or> (\<exists>p t. s = p @ sub @ t)" (is "?L = ?R")
  proof
    assume ?L
    then obtain p t where e: "c # s = p @ sub @ t" by blast
    show ?R
    proof (cases p)
      case Nil
      with e show ?thesis by (simp add: HasPrefix_iff)
    next
      case (Cons d q)
      with e show ?thesis by auto
    qed
  next
    assume ?R
    then show ?L by (auto simp: HasPrefix_iff) (metis append_Nil, metis append_Cons)
  qed
  with Cons show ?case
    by (auto simp: find_sub.simps [of "c # s"])
qed

lemma find_sub_first:
  "find_sub s [c] = (if c \<in> set s then Some (length (takeWhile (\<lambda>x. x \<noteq> c) s)) else None)"
  by (induction s) (auto simp: find_sub.simps HasPrefix_def)

lemma Cut_single:
  "Cut s [c] = (if c \<in> set s
     then (takeWhile (\<lambda>x. x \<noteq> c) s, tl (dropWhile (\<lambda>x. x \<noteq> c) s), True)
     else (s, [], False))"
proof (cases "c \<in> set s")
  case True
  let ?P = "\<lambda>x. x \<noteq> c"
  have "take (length (takeWhile ?P s)) s = takeWhile ?P s"
    by (simp flip: takeWhile_eq_take)
  moreover have "drop (Suc (length (takeWhile ?P s))) s = tl (dropWhile ?P s)"
    by (simp add: drop_Suc dropWhile_eq_drop tl_drop)
  ultimately show ?thesis using True by (simp add: Cut_def find_sub_first)
qed (simp add: Cut_def find_sub_first)

lemma TrimRight_id: "s = [] \<or> last s \<noteq> c \<Longrightarrow> TrimRight c s = s"
  unfolding TrimRight_def by (rule dropWhile_rev_id) auto

lemma ascii_lower_idem [simp]: "ascii_lower (ascii_lower c) = ascii_lower c"
proof (cases "is_upper c")
  case True
  then have b: "65 \<le> (of_char c :: nat)" "(of_char c :: nat) \<le> 90"
    by (auto simp: is_upper_def in_range_def less_eq_char_def)
  then have "\<not> is_upper (char_of (of_char c + 32 :: nat))"
    by (auto simp: is_upper_def in_range_def less_eq_char_def)
  with True show ?thesis by (simp add: ascii_lower_def)
qed (simp add: ascii_lower_def)

lemma takeWhile_component: "x \<notin> set c \<Longrightarrow> rest = [] \<or> HasPrefix rest [x] \<Longrightarrow> takeWhile (\<lambda>c. c \<noteq> x) (c @ rest) = c"
  by (induction c) (auto simp: HasPrefix_single)

lemma dropWhile_component: "x \<notin> set c \<Longrightarrow> rest = [] \<or> HasPrefix rest [x] \<Longrightarrow> dropWhile (\<lambda>c. c \<noteq> x) (c @ rest) = rest"
  by (induction c) (auto simp: HasPrefix_single)

end
