(* ===== verification/Cid.thy ===== *)
theory Cid
  imports GoStrings
begin

text \<open>
  The CID shape check of \<open>pinner.go\<close>: the regular expression \<open>cidRegex\<close> as an executable
  predicate, \<open>ValidateCID\<close> over it, and what an accepted string can contain. Every other
  component gates on \<open>ValidateCID\<close>, so the facts here are collected in \<open>cid_facts\<close>.
\<close>

section \<open>The validator\<close>

text \<open>\<open>[1-9A-HJ-NP-Za-km-z]\<close> and \<open>[A-Za-z2-7]\<close>.\<close>

definition base58_char :: "char \<Rightarrow> bool" where
  "base58_char c \<longleftrightarrow>
     in_range (CHR ''1'') (CHR ''9'') c \<or> in_range (CHR ''A'') (CHR ''H'') c
   \<or> in_range (CHR ''J'') (CHR ''N'') c \<or> in_range (CHR ''P'') (CHR ''Z'') c
   \<or> in_range (CHR ''a'') (CHR ''k'') c \<or> in_range (CHR ''m'') (CHR ''z'') c"

definition base32_char :: "char \<Rightarrow> bool" where
  "base32_char c \<longleftrightarrow> is_upper c \<or> is_lower c \<or> in_range (CHR ''2'') (CHR ''7'') c"

text \<open>The two alternatives of the expression, each anchored at both ends.\<close>

definition cid_v0 :: "string \<Rightarrow> bool" where
  "cid_v0 s \<longleftrightarrow> HasPrefix s ''Qm'' \<and> length s = 46 \<and> list_all base58_char (drop 2 s)"

definition cid_v1 :: "string \<Rightarrow> bool" where
  "cid_v1 s \<longleftrightarrow> HasPrefix s ''b'' \<and> length s = 59 \<and> list_all base32_char (drop 1 s)"

definition cidRegex :: "string \<Rightarrow> bool" where
  "cidRegex s \<longleftrightarrow> cid_v0 s \<or> cid_v1 s"

datatype cid_err = InvalidCID string

definition ValidateCID :: "string \<Rightarrow> cid_err option" where
  "ValidateCID cid = (if \<not> cidRegex cid then Some (InvalidCID cid) else None)"

section \<open>The language it accepts\<close>

definition is_alnum :: "char \<Rightarrow> bool" where
  "is_alnum c \<longleftrightarrow> is_upper c \<or> is_lower c \<or> is_digit c"

definition cid_language :: "string set" where
  "cid_language =
     {''Qm'' @ w | w. length w = 44 \<and> (\<forall>c \<in> set w. base58_char c)}
   \<union> {''b'' @ w | w. length w = 58 \<and> (\<forall>c \<in> set w. base32_char c)}"

lemma cid_v0_iff: "cid_v0 s \<longleftrightarrow> (\<exists>w. s = ''Qm'' @ w \<and> length w = 44 \<and> (\<forall>c \<in> set w. base58_char c))"
  by (auto simp: cid_v0_def HasPrefix_iff list_all_iff)

lemma cid_v1_iff: "cid_v1 s \<longleftrightarrow> (\<exists>w. s = ''b'' @ w \<and> length w = 58 \<and> (\<forall>c \<in> set w. base32_char c))"
  by (auto simp: cid_v1_def HasPrefix_iff list_all_iff)

lemma cidRegex_language: "cidRegex s \<longleftrightarrow> s \<in> cid_language"
  by (auto simp: cidRegex_def cid_language_def cid_v0_iff cid_v1_iff)

lemma ValidateCID_None [simp]: "ValidateCID s = None \<longleftrightarrow> cidRegex s"
  by (simp add: ValidateCID_def)

lemma ValidateCID_Some [simp]: "ValidateCID s = Some e \<longleftrightarrow> \<not> cidRegex s \<and> e = InvalidCID s"
  by (auto simp: ValidateCID_def)

lemma base58_alnum: "base58_char c \<Longrightarrow> is_alnum c"
  by (auto simp: base58_char_def is_alnum_def is_upper_def is_lower_def is_digit_def in_range_def less_eq_char_def)

lemma base32_alnum: "base32_char c \<Longrightarrow> is_alnum c"
  by (auto simp: base32_char_def is_alnum_def is_upper_def is_lower_def is_digit_def in_range_def less_eq_char_def)

lemma is_alnum_Q: "is_alnum (CHR ''Q'')" and is_alnum_m: "is_alnum (CHR ''m'')"
  and is_alnum_b: "is_alnum (CHR ''b'')"
  by (simp_all add: is_alnum_def is_upper_def is_lower_def in_range_def less_eq_char_def)

lemma cidRegex_alnum: "cidRegex s \<Longrightarrow> \<forall>c \<in> set s. is_alnum c"
  unfolding cidRegex_def cid_v0_iff cid_v1_iff
  by (elim disjE exE conjE) (simp_all add: is_alnum_Q is_alnum_m is_alnum_b base58_alnum base32_alnum)

lemma cidRegex_length: "cidRegex s \<Longrightarrow> length s = 46 \<or> length s = 59"
  by (auto simp: cidRegex_def cid_v0_def cid_v1_def)

lemma cidRegex_nonempty: "cidRegex s \<Longrightarrow> s \<noteq> []"
  using cidRegex_length by fastforce

lemma not_alnum_special:
  "\<not> is_alnum (CHR ''/'')" "\<not> is_alnum (CHR ''.'')" "\<not> is_alnum (CHR 0x22)"
  "\<not> is_alnum (CHR 0x5C)" "\<not> is_alnum (CHR ''%'')" "\<not> is_alnum (CHR ''?'')" "\<not> is_alnum (CHR ''&'')"
  by (simp_all add: is_alnum_def is_upper_def is_lower_def is_digit_def in_range_def less_eq_char_def)

lemma cidRegex_no_special:
  assumes "cidRegex s"
  shows "CHR ''/'' \<notin> set s" "CHR ''.'' \<notin> set s" "CHR 0x22 \<notin> set s" "CHR 0x5C \<notin> set s" "CHR ''%'' \<notin> set s"
  using cidRegex_alnum [OF assms] not_alnum_special by auto

lemma cidRegex_Nil [simp]: "\<not> cidRegex []"
  using cidRegex_nonempty by blast

lemmas cid_facts = cidRegex_alnum cidRegex_length cidRegex_nonempty cidRegex_no_special

text \<open>A published CID of each version, for the concrete instances of the development.\<close>

definition sample_v0 :: string where
  "sample_v0 = ''QmYwAPJzv5CZsnAzt8auVZRn5RnAvTPnG3vMr1pUgQy9k7''"

definition sample_v1 :: string where
  "sample_v1 = ''bafybeigdyrzt5sfp7udm7hu76uh7y26nf3efuylqabf3oclgtqy55fbzdi''"

lemma sample_v0_valid [simp]: "cidRegex sample_v0"
  by code_simp

lemma sample_v1_valid [simp]: "cidRegex sample_v1"
  by code_simp

lemma samples_distinct [simp]: "sample_v0 \<noteq> sample_v1" "sample_v1 \<noteq> sample_v0"
  by (simp_all add: sample_v0_def sample_v1_def)

section \<open>Properties\<close>

text \<open>
  \<open>ValidateCID\<close> accepts exactly the language of the published expression.
\<close>

theorem ValidateCID_exact:
  "ValidateCID s = (if s \<in> cid_language then None else Some (InvalidCID s))"
  by (simp add: ValidateCID_def cidRegex_language)

end
