(* ===== verification/AtomicFile.thy ===== *)
theory AtomicFile
  imports Prelude
begin

text \<open>
  \<open>atomicfile.go\<close>: \<open>atomicWriteFile\<close>, the tmp + fsync + rename sequence behind \<open>pins.json\<close>
  and \<open>autopin.json\<close>. The file system has names that point to inodes, an inode's current
  content and the content that has reached the disk, so that truncating an open file, a crash
  between two system calls and two writers on one path can all be stated.
  The function is modelled twice: straight-line, as the source reads, and system call by
  system call (\<open>awf_step\<close>), where a crash is a run that stops early and concurrent calls are
  interleavings. \<open>awf_run_plan\<close> shows that the two agree.
\<close>

section \<open>The file system\<close>

type_synonym ino = nat

record fs =
  names :: "path \<rightharpoonup> ino"
  content :: "ino \<Rightarrow> bytes"
  stable :: "ino \<Rightarrow> bytes"
  next_ino :: ino

datatype io_err = IOErr string | ENOENT

text \<open>What a path shows: its content now, and the content a power loss would leave.\<close>

definition view :: "fs \<Rightarrow> path \<Rightarrow> (bytes \<times> bytes) option" where
  "view s p = map_option (\<lambda>i. (content s i, stable s i)) (names s p)"

definition read_file :: "fs \<Rightarrow> path \<Rightarrow> bytes option" where
  "read_file s p = map_option (content s) (names s p)"

text \<open>Two paths never share an inode (no hard links), and the allocator is ahead of all of them.\<close>

definition fs_wf :: "fs \<Rightarrow> bool" where
  "fs_wf s \<longleftrightarrow> (\<forall>p q i. names s p = Some i \<longrightarrow> i < next_ino s \<and> (names s q = Some i \<longrightarrow> p = q))"

definition empty_fs :: fs where
  "empty_fs = \<lparr>names = Map.empty, content = (\<lambda>_. []), stable = (\<lambda>_. []), next_ino = 0\<rparr>"

text \<open>\<open>os.OpenFile(p, O_WRONLY|O_CREATE|O_TRUNC)\<close>: an existing file keeps its inode.\<close>

definition open_trunc :: "path \<Rightarrow> fs \<Rightarrow> fs \<times> ino" where
  "open_trunc p s = (case names s p of
     Some i \<Rightarrow> (s\<lparr>content := (content s)(i := [])\<rparr>, i)
   | None \<Rightarrow> (let i = next_ino s in
       (s\<lparr>names := (names s)(p \<mapsto> i), content := (content s)(i := []),
          stable := (stable s)(i := []), next_ino := Suc i\<rparr>, i)))"

text \<open>A write at a descriptor's own offset; a gap reads as zero bytes.\<close>

definition splice :: "nat \<Rightarrow> bytes \<Rightarrow> bytes \<Rightarrow> bytes" where
  "splice off d old =
     take off old @ replicate (off - length old) (char_of (0::nat)) @ d @ drop (off + length d) old"

definition write_at :: "ino \<Rightarrow> nat \<Rightarrow> bytes \<Rightarrow> fs \<Rightarrow> fs" where
  "write_at i off d s = s\<lparr>content := (content s)(i := splice off d (content s i))\<rparr>"

definition fsync :: "ino \<Rightarrow> fs \<Rightarrow> fs" where
  "fsync i s = s\<lparr>stable := (stable s)(i := content s i)\<rparr>"

definition unlink :: "path \<Rightarrow> fs \<Rightarrow> fs" where
  "unlink p s = s\<lparr>names := (names s)(p := None)\<rparr>"

definition rename :: "path \<Rightarrow> path \<Rightarrow> fs \<Rightarrow> fs" where
  "rename p q s = s\<lparr>names := (names s)(q := names s p, p := None)\<rparr>"

section \<open>The function, straight-line\<close>

text \<open>What each system call of one invocation answers; a failing write reports how many bytes
  had already landed.\<close>

record io_plan =
  open_err :: "io_err option"
  write_err :: "(nat \<times> io_err) option"
  sync_err :: "io_err option"
  close_err :: "io_err option"
  rename_err :: "io_err option"
  remove_err :: "io_err option"

definition plan_ok :: io_plan where
  "plan_ok = \<lparr>open_err = None, write_err = None, sync_err = None, close_err = None,
     rename_err = None, remove_err = None\<rparr>"

definition tmp_of :: "path \<Rightarrow> path" where
  "tmp_of p = p @ ''.tmp''"

text \<open>\<open>_ = os.Remove(tmpPath)\<close>: its error is dropped.\<close>

definition remove_tmp :: "io_plan \<Rightarrow> path \<Rightarrow> fs \<Rightarrow> fs" where
  "remove_tmp pl p s = (if remove_err pl = None then unlink (tmp_of p) s else s)"

definition atomicWriteFile :: "io_plan \<Rightarrow> fs \<Rightarrow> path \<Rightarrow> bytes \<Rightarrow> fs \<times> io_err option" where
  "atomicWriteFile pl s path data =
     (case open_err pl of
        Some e \<Rightarrow> (s, Some e)
      | None \<Rightarrow>
        (let (s1, f) = open_trunc (tmp_of path) s;
             s2 = write_at f 0 (case write_err pl of None \<Rightarrow> data | Some (k, _) \<Rightarrow> take k data) s1;
             writeErr = map_option snd (write_err pl);
             s3 = (if sync_err pl = None then fsync f s2 else s2)
         in if writeErr \<noteq> None then (remove_tmp pl path s3, writeErr)
            else if sync_err pl \<noteq> None then (remove_tmp pl path s3, sync_err pl)
            else if close_err pl \<noteq> None then (remove_tmp pl path s3, close_err pl)
            else (case names s3 (tmp_of path) of
                None \<Rightarrow> (remove_tmp pl path s3, Some ENOENT)
              | Some _ \<Rightarrow>
                (case rename_err pl of
                   Some e \<Rightarrow> (remove_tmp pl path s3, Some e)
                 | None \<Rightarrow> (rename (tmp_of path) path s3, None)))))"

section \<open>System call by system call\<close>

text \<open>Where the function is: the call it makes next, with the errors it has collected.\<close>

datatype wpc =
    WOpen
  | WWrite ino nat
  | WSync ino "io_err option"
  | WClose "io_err option" "io_err option"
  | WRename
  | WRemove io_err
  | WDone "io_err option"

datatype resp = Fine | Part nat | Err io_err

fun resp_err :: "resp \<Rightarrow> io_err option" where
  "resp_err (Err e) = Some e"
| "resp_err _ = None"

fun awf_step :: "path \<Rightarrow> bytes \<Rightarrow> resp \<Rightarrow> fs \<times> wpc \<Rightarrow> fs \<times> wpc" where
  "awf_step path data r (s, WOpen) =
     (case resp_err r of
        Some e \<Rightarrow> (s, WDone (Some e))
      | None \<Rightarrow> (let (s1, f) = open_trunc (tmp_of path) s in (s1, WWrite f 0)))"
| "awf_step path data r (s, WWrite f off) =
     (case r of
        Fine \<Rightarrow> (write_at f off (drop off data) s, WSync f None)
      | Part k \<Rightarrow> (let d = take k (drop off data) in (write_at f off d s, WWrite f (off + length d)))
      | Err e \<Rightarrow> (s, WSync f (Some e)))"
| "awf_step path data r (s, WSync f we) =
     (case resp_err r of
        Some e \<Rightarrow> (s, WClose we (Some e))
      | None \<Rightarrow> (fsync f s, WClose we None))"
| "awf_step path data r (s, WClose we se) =
     (s, case we of Some e \<Rightarrow> WRemove e
       | None \<Rightarrow> (case se of Some e \<Rightarrow> WRemove e
         | None \<Rightarrow> (case resp_err r of Some e \<Rightarrow> WRemove e | None \<Rightarrow> WRename)))"
| "awf_step path data r (s, WRename) =
     (case names s (tmp_of path) of
        None \<Rightarrow> (s, WRemove ENOENT)
      | Some _ \<Rightarrow> (case resp_err r of
          Some e \<Rightarrow> (s, WRemove e)
        | None \<Rightarrow> (rename (tmp_of path) path s, WDone None)))"
| "awf_step path data r (s, WRemove e) =
     (if resp_err r = None then unlink (tmp_of path) s else s, WDone (Some e))"
| "awf_step path data r (s, WDone res) = (s, WDone res)"

definition awf_run :: "path \<Rightarrow> bytes \<Rightarrow> resp list \<Rightarrow> fs \<Rightarrow> fs \<times> wpc" where
  "awf_run path data rs s = fold (awf_step path data) rs (s, WOpen)"

section \<open>The two models agree\<close>

fun resp_of :: "io_err option \<Rightarrow> resp" where
  "resp_of None = Fine"
| "resp_of (Some e) = Err e"

definition plan_resps :: "io_plan \<Rightarrow> resp list" where
  "plan_resps pl = resp_of (open_err pl) #
     (case write_err pl of None \<Rightarrow> [Fine] | Some (k, e) \<Rightarrow> [Part k, Err e])
     @ [resp_of (sync_err pl), resp_of (close_err pl)]
     @ (if map_option snd (write_err pl) = None \<and> sync_err pl = None \<and> close_err pl = None
        then [resp_of (rename_err pl)] else []) @ [resp_of (remove_err pl)]"

lemma resp_err_of [simp]: "resp_err (resp_of x) = x"
  by (cases x) auto

lemma awf_done_stays [simp]: "fold (awf_step path data) rs (s, WDone r) = (s, WDone r)"
  by (induction rs) auto

lemma open_trunc_names: "open_trunc p s = (s1, f) \<Longrightarrow> names s1 = (names s)(p \<mapsto> f)"
  by (auto simp: open_trunc_def Let_def split: option.splits)

lemma names_write_at [simp]: "names (write_at i off d s) = names s"
  by (simp add: write_at_def)

lemma names_fsync [simp]: "names (fsync i s) = names s"
  by (simp add: fsync_def)

lemma awf_run_failed_open: "open_err pl = Some e \<Longrightarrow>
   awf_run path data (plan_resps pl) s = (s, WDone (Some e))"
  by (simp add: awf_run_def plan_resps_def)

lemma awf_run_plan:
  "awf_run path data (plan_resps pl) s
     = (let (s', res) = atomicWriteFile pl s path data in (s', WDone res))"
proof (cases "open_err pl")
  case (Some e)
  then show ?thesis by (simp add: awf_run_failed_open atomicWriteFile_def)
next
  case None
  obtain s1 f where o: "open_trunc (tmp_of path) s = (s1, f)" by fastforce
  then have n: "names s1 (tmp_of path) = Some f" by (simp add: open_trunc_names)
  show ?thesis
  proof (cases "write_err pl")
    case w: None
    show ?thesis
      by (cases "sync_err pl"; cases "close_err pl"; cases "rename_err pl")
         (simp_all add: awf_run_def plan_resps_def atomicWriteFile_def None w o n remove_tmp_def Let_def)
  next
    case w: (Some ke)
    obtain k e where "ke = (k, e)" by fastforce
    with w show ?thesis
      by (cases "sync_err pl"; cases "close_err pl")
         (simp_all add: awf_run_def plan_resps_def atomicWriteFile_def None o n remove_tmp_def Let_def)
  qed
qed

section \<open>What each call does to the views\<close>

lemma tmp_neq [simp]: "tmp_of p \<noteq> p" "p \<noteq> tmp_of p"
  by (simp_all add: tmp_of_def)

lemma fs_wf_inj: "fs_wf s \<Longrightarrow> names s p = Some i \<Longrightarrow> names s q = Some i \<Longrightarrow> p = q"
  by (auto simp: fs_wf_def)

lemma fs_wf_less: "fs_wf s \<Longrightarrow> names s p = Some i \<Longrightarrow> i < next_ino s"
  by (auto simp: fs_wf_def)

lemma fs_wf_empty [simp]: "fs_wf empty_fs"
  by (simp add: fs_wf_def empty_fs_def)

lemma open_trunc_wf:
  assumes wf: "fs_wf s" and o: "open_trunc p s = (s1, f)"
  shows "fs_wf s1"
proof (cases "names s p")
  case (Some i)
  with wf o show ?thesis by (auto simp: open_trunc_def fs_wf_def)
next
  case None
  have "names s q \<noteq> Some (next_ino s)" for q
    using fs_wf_less [OF wf, of q "next_ino s"] by blast
  with None wf o show ?thesis
    by (auto simp: open_trunc_def fs_wf_def Let_def less_SucI split: if_splits)
qed

lemma open_trunc_content: "open_trunc p s = (s1, f) \<Longrightarrow> content s1 f = []"
  by (auto simp: open_trunc_def Let_def split: option.splits)

lemma open_trunc_view:
  assumes "fs_wf s" "open_trunc p s = (s1, f)" "q \<noteq> p"
  shows "view s1 q = view s q"
proof (cases "names s q")
  case None
  with assms show ?thesis by (simp add: view_def open_trunc_names)
next
  case (Some i)
  with assms have "i \<noteq> f"
    by (auto simp: open_trunc_def Let_def dest: fs_wf_inj fs_wf_less split: option.splits)
  with Some assms show ?thesis
    by (auto simp: view_def open_trunc_def Let_def split: option.splits)
qed

lemma write_at_wf [simp]: "fs_wf (write_at i off d s) = fs_wf s"
  by (simp add: fs_wf_def write_at_def)

lemma fsync_wf [simp]: "fs_wf (fsync i s) = fs_wf s"
  by (simp add: fs_wf_def fsync_def)

lemma unlink_wf: "fs_wf s \<Longrightarrow> fs_wf (unlink p s)"
  by (auto simp: fs_wf_def unlink_def)

lemma rename_wf: "fs_wf s \<Longrightarrow> fs_wf (rename p q s)"
  by (auto simp: fs_wf_def rename_def)

lemma write_at_view: "fs_wf s \<Longrightarrow> names s p = Some f \<Longrightarrow> q \<noteq> p \<Longrightarrow> view (write_at f off d s) q = view s q"
  by (cases "names s q") (auto simp: view_def write_at_def dest: fs_wf_inj)

lemma fsync_view: "fs_wf s \<Longrightarrow> names s p = Some f \<Longrightarrow> q \<noteq> p \<Longrightarrow> view (fsync f s) q = view s q"
  by (cases "names s q") (auto simp: view_def fsync_def dest: fs_wf_inj)

lemma fsync_view_same: "names s p = Some f \<Longrightarrow> view (fsync f s) p = Some (content s f, content s f)"
  by (simp add: view_def fsync_def)

lemma unlink_view: "view (unlink p s) q = (if q = p then None else view s q)"
  by (simp add: view_def unlink_def)

lemma rename_view: "p \<noteq> q \<Longrightarrow> view (rename p q s) r = (if r = p then None else if r = q then view s p else view s r)"
  by (simp add: view_def rename_def)

lemma content_write_at [simp]: "content (write_at f off d s) f = splice off d (content s f)"
  by (simp add: write_at_def)

lemma splice_extend: "off \<le> length data \<Longrightarrow> splice off d (take off data) = take off data @ d"
  by (simp add: splice_def min_def)

lemma splice_rest [simp]: "off \<le> length data \<Longrightarrow> splice off (drop off data) (take off data) = data"
  by (simp add: splice_extend)

lemma take_drop_take: "take off data @ take k (drop off data) = take (off + length (take k (drop off data))) data"
  by (simp add: take_add min_def)

section \<open>One writer: the canonical path is never partial\<close>

text \<open>What a writer knows at each call about the temporary file.\<close>

fun pc_inv :: "path \<Rightarrow> bytes \<Rightarrow> fs \<Rightarrow> wpc \<Rightarrow> bool" where
  "pc_inv path data s (WWrite f off) \<longleftrightarrow>
     names s (tmp_of path) = Some f \<and> content s f = take off data \<and> off \<le> length data"
| "pc_inv path data s (WSync f we) \<longleftrightarrow>
     names s (tmp_of path) = Some f \<and> (we = None \<longrightarrow> content s f = data)"
| "pc_inv path data s (WClose we se) \<longleftrightarrow>
     (we = None \<and> se = None \<longrightarrow> view s (tmp_of path) = Some (data, data))"
| "pc_inv path data s WRename \<longleftrightarrow> view s (tmp_of path) = Some (data, data)"
| "pc_inv path data s (WDone None) \<longleftrightarrow> view s path = Some (data, data)"
| "pc_inv path data s _ \<longleftrightarrow> True"

definition awf_inv :: "fs \<Rightarrow> path \<Rightarrow> bytes \<Rightarrow> fs \<times> wpc \<Rightarrow> bool" where
  "awf_inv s0 path data st \<longleftrightarrow> (case st of (s, pc) \<Rightarrow>
     fs_wf s \<and> pc_inv path data s pc
     \<and> (\<forall>q. q \<noteq> tmp_of path \<and> (q = path \<longrightarrow> pc \<noteq> WDone None) \<longrightarrow> view s q = view s0 q))"

lemma awf_inv_start: "fs_wf s0 \<Longrightarrow> awf_inv s0 path data (s0, WOpen)"
  by (simp add: awf_inv_def)

lemma awf_step_inv [inv_step]: "awf_inv s0 path data st \<Longrightarrow> awf_inv s0 path data (awf_step path data r st)"
proof (induction path data r st rule: awf_step.induct)
  case (1 path data r s)
  obtain s1 f where "open_trunc (tmp_of path) s = (s1, f)" by fastforce
  with 1 show ?case
    by (auto simp: awf_inv_def open_trunc_wf open_trunc_names open_trunc_content open_trunc_view
        split: option.splits)
next
  case (2 path data r s f off)
  then show ?case
    by (cases r)
       (auto simp: awf_inv_def Let_def write_at_view splice_extend take_drop_take)
next
  case (3 path data r s f we)
  then show ?case
    by (auto simp: awf_inv_def fsync_view fsync_view_same split: option.splits)
next
  case (4 path data r s we se)
  then show ?case by (auto simp: awf_inv_def split: option.splits)
next
  case (5 path data r s)
  then show ?case
    by (auto simp: awf_inv_def rename_view rename_wf split: option.splits)
next
  case (6 path data r s e)
  then show ?case by (auto simp: awf_inv_def unlink_view unlink_wf)
qed auto

lemma awf_fold_inv: "awf_inv s0 path data st \<Longrightarrow> awf_inv s0 path data (fold (awf_step path data) rs st)"
  by (induction rs arbitrary: st) (simp_all add: awf_step_inv)

lemma awf_run_inv: "fs_wf s0 \<Longrightarrow> awf_inv s0 path data (awf_run path data rs s0)"
  unfolding awf_run_def by (intro awf_fold_inv awf_inv_start)

section \<open>The contract of a whole call\<close>

lemma atomicWriteFile_inv:
  assumes "fs_wf s" "atomicWriteFile pl s path data = (s', res)"
  shows "awf_inv s path data (s', WDone res)"
  using awf_run_inv [OF assms(1), of path data "plan_resps pl"] assms(2)
  by (simp add: awf_run_plan)

lemma view_read: "read_file s p = map_option fst (view s p)"
  by (simp add: read_file_def view_def option.map_comp comp_def)

text \<open>The file in which a component keeps its state, as its clients see it: \<open>store\<close> with the
  answers \<open>pl\<close> of the operating system, and \<open>read\<close>.\<close>

locale state_file =
  fixes store :: "'p \<Rightarrow> 'f \<Rightarrow> path \<Rightarrow> bytes \<Rightarrow> 'f \<times> 'e option"
    and read :: "'f \<Rightarrow> path \<Rightarrow> bytes option"
    and wf :: "'f \<Rightarrow> bool"
  assumes store_wf: "wf s \<Longrightarrow> store pl s p d = (s', r) \<Longrightarrow> wf s'"
    and store_ok: "wf s \<Longrightarrow> store pl s p d = (s', None) \<Longrightarrow> read s' p = Some d"
    and store_fail: "wf s \<Longrightarrow> store pl s p d = (s', Some e) \<Longrightarrow> read s' p = read s p"
    and store_frame: "wf s \<Longrightarrow> store pl s p d = (s', r) \<Longrightarrow> q \<noteq> p \<Longrightarrow> q \<noteq> tmp_of p \<Longrightarrow> read s' q = read s q"
begin

lemma read_after_store:
  "wf s \<Longrightarrow> store pl s p d = (s', r) \<Longrightarrow> read s' p = (if r = None then Some d else read s p)"
  by (cases r) (auto dest: store_ok store_fail)

lemma other_state_file:
  "wf s \<Longrightarrow> store pl s p d = (s', r) \<Longrightarrow> q \<noteq> p \<Longrightarrow> q \<noteq> tmp_of p \<Longrightarrow> read s q = Some x
     \<Longrightarrow> read s' q = Some x"
  by (simp add: store_frame)

end

interpretation awf: state_file atomicWriteFile read_file fs_wf
proof unfold_locales
  fix s pl p d s' and r :: "io_err option"
  assume a: "fs_wf s" "atomicWriteFile pl s p d = (s', r)"
  note inv = atomicWriteFile_inv [OF a]
  then show "fs_wf s'" by (simp add: awf_inv_def)
  fix q assume "q \<noteq> p" "q \<noteq> tmp_of p"
  with inv show "read_file s' q = read_file s q" by (auto simp: awf_inv_def view_read)
next
  fix s pl p d s'
  assume a: "fs_wf s" "atomicWriteFile pl s p d = (s', None)"
  show "read_file s' p = Some d"
    using atomicWriteFile_inv [OF a] by (simp add: awf_inv_def view_read)
next
  fix s pl p d s' and e :: io_err
  assume a: "fs_wf s" "atomicWriteFile pl s p d = (s', Some e)"
  show "read_file s' p = read_file s p"
    using atomicWriteFile_inv [OF a] by (auto simp: awf_inv_def view_read)
qed

lemma plan_ok_succeeds: "snd (atomicWriteFile plan_ok s p d) = None"
  by (auto simp: atomicWriteFile_def plan_ok_def open_trunc_names split: prod.splits option.splits)

lemma plan_ok_write: "atomicWriteFile plan_ok s p d = (f, r) \<Longrightarrow> r = None"
  using plan_ok_succeeds [of s p d] by simp

section \<open>Several state files on one disk\<close>

text \<open>Saves of several files, one after the other, failed ones included. A file is as if the saves of the others
  had not been made, unless one of them has it for its temporary file: each client may be looked at with a disk of its own.\<close>

definition saves :: "(io_plan \<times> path \<times> bytes) list \<Rightarrow> fs \<Rightarrow> fs" where
  "saves ws s = fold (\<lambda>(pl, p, d) s. fst (atomicWriteFile pl s p d)) ws s"

lemma atomicWriteFile_result: "snd (atomicWriteFile pl s p d) = snd (atomicWriteFile pl s' p d)"
  by (auto simp: atomicWriteFile_def open_trunc_names Let_def split: prod.splits option.splits)

lemma one_disk:
  assumes "fs_wf s" "fs_wf s'" "read_file s p = read_file s' p" "\<forall>(pl, q, d) \<in> set ws. p \<noteq> tmp_of q"
  shows "read_file (saves ws s) p = read_file (saves (filter (\<lambda>(pl, q, d). q = p) ws) s') p"
  using assms
proof (induction ws arbitrary: s s')
  case (Cons w ws)
  obtain pl q d where w: "w = (pl, q, d)" by (rule prod_cases3)
  obtain s1 r where 1: "atomicWriteFile pl s q d = (s1, r)" by fastforce
  from Cons.prems(4) have ws: "\<forall>(pl, q, d) \<in> set ws. p \<noteq> tmp_of q" and q: "p \<noteq> tmp_of q" by (simp_all add: w)
  note wf = awf.store_wf [OF Cons.prems(1) 1]
  show ?case
  proof (cases "q = p")
    case True
    obtain s2 r2 where 2: "atomicWriteFile pl s' q d = (s2, r2)" by fastforce
    have "r2 = r" using atomicWriteFile_result [of pl s q d s'] 1 2 by simp
    then have "read_file s1 p = read_file s2 p"
      using awf.read_after_store [OF Cons.prems(1) 1] awf.read_after_store [OF Cons.prems(2) 2] Cons.prems(3) True by simp
    from Cons.IH [OF wf awf.store_wf [OF Cons.prems(2) 2] this ws] 1 2 True show ?thesis by (simp add: w saves_def)
  next
    case False
    have "read_file s1 p = read_file s' p"
      using awf.store_frame [OF Cons.prems(1) 1, of p] Cons.prems(3) False q by simp
    from Cons.IH [OF wf Cons.prems(2) this ws] 1 False show ?thesis by (simp add: w saves_def)
  qed
qed (simp add: saves_def)

section \<open>Several callers on one path\<close>

text \<open>Callers \<open>w\<close> write \<open>data w\<close> to the same path; a schedule says whose call runs next and what
  the operating system answers.\<close>

definition writers_step ::
  "path \<Rightarrow> (nat \<Rightarrow> bytes) \<Rightarrow> nat \<times> resp \<Rightarrow> fs \<times> (nat \<Rightarrow> wpc) \<Rightarrow> fs \<times> (nat \<Rightarrow> wpc)" where
  "writers_step path data e st =
     (case (e, st) of ((w, r), (s, pcs)) \<Rightarrow>
        let (s', pc) = awf_step path (data w) r (s, pcs w) in (s', pcs(w := pc)))"

definition writers_run ::
  "path \<Rightarrow> (nat \<Rightarrow> bytes) \<Rightarrow> (nat \<times> resp) list \<Rightarrow> fs \<Rightarrow> fs \<times> (nat \<Rightarrow> wpc)" where
  "writers_run path data sched s = fold (writers_step path data) sched (s, \<lambda>_. WOpen)"

text \<open>Two callers share one temporary file: the second opens it before the first has renamed it.
  No system call fails until the second rename.\<close>

definition tear_schedule :: "(nat \<times> resp) list" where
  "tear_schedule = map (\<lambda>w. (w, Fine)) [0, 1, 0, 1, 0, 0, 0, 1, 1, 1, 1]"

lemma open_trunc_again:
  "names s p = Some f \<Longrightarrow> open_trunc p s = (s\<lparr>content := (content s)(f := [])\<rparr>, f)"
  by (simp add: open_trunc_def)

lemma splice_0: "splice 0 d old = d @ drop (length d) old"
  by (simp add: splice_def)

lemma tear_run:
  assumes o: "open_trunc (tmp_of path) s = (s1, f)"
  shows "\<exists>s'. writers_run path data tear_schedule s
      = (s', (\<lambda>_. WOpen)(0 := WDone None, 1 := WDone (Some ENOENT)))
    \<and> read_file s' path = Some (data 1 @ drop (length (data 1)) (data 0))"
proof -
  have n: "names s1 (tmp_of path) = Some f" and c: "content s1 f = []"
    using o by (simp_all add: open_trunc_names open_trunc_content)
  show ?thesis
    by (simp add: writers_run_def tear_schedule_def writers_step_def o open_trunc_again [OF n]
        write_at_def fsync_def rename_def unlink_def n c splice_0 read_file_def fun_upd_def
        cong: if_cong)
qed

lemma tear_outcome:
  assumes "writers_run path data tear_schedule s = (s', pcs)"
  shows "read_file s' path = Some (data 1 @ drop (length (data 1)) (data 0))"
    and "pcs 0 = WDone None" and "pcs 1 = WDone (Some ENOENT)"
proof -
  obtain s1 f where "open_trunc (tmp_of path) s = (s1, f)" by fastforce
  from tear_run [OF this, of data] assms
  show "read_file s' path = Some (data 1 @ drop (length (data 1)) (data 0))"
    and "pcs 0 = WDone None" and "pcs 1 = WDone (Some ENOENT)" by auto
qed

section \<open>Properties\<close>

text \<open>
  C9: crash atomicity of \<open>atomicWriteFile\<close>. Stop the call after any number of system
  calls, with any answers (a write may land in pieces, any call may fail): unless the call has
  returned \<open>nil\<close>, the canonical path shows exactly what it showed before, now and after a power
  loss; once it has returned \<open>nil\<close> it shows all of \<open>data\<close>, and \<open>data\<close> is on the disk. No path
  but the canonical one and its \<open>.tmp\<close> sibling changes.
\<close>

theorem atomicWriteFile_crash_atomic:
  assumes "fs_wf s0" "awf_run path data rs s0 = (s, pc)"
  shows "view s path = (if pc = WDone None then Some (data, data) else view s0 path)
     \<and> (\<forall>q. q \<noteq> path \<and> q \<noteq> tmp_of path \<longrightarrow> view s q = view s0 q)"
  using awf_run_inv [OF assms(1), of path data rs] assms(2) by (auto simp: awf_inv_def)

theorem atomicWriteFile_crash_atomic_witness:
  "view (fst (awf_run ''p'' ''ab'' [Fine, Part 1] empty_fs)) ''p'' = view empty_fs ''p''"
proof -
  obtain s pc where r: "awf_run ''p'' ''ab'' [Fine, Part 1] empty_fs = (s, pc)" by fastforce
  have "snd (awf_run ''p'' ''ab'' [Fine, Part 1] empty_fs) \<noteq> WDone None"
    by (simp add: awf_run_def empty_fs_def open_trunc_def Let_def)
  with atomicWriteFile_crash_atomic [OF fs_wf_empty r] r show ?thesis by simp
qed

text \<open>
  The straight-line function is the run of its system calls: whatever the operating
  system answers (\<open>pl\<close>), the calls made one by one end in the state and with the error that the
  function returns. So the crash states of the theorem above are those of the function.
\<close>

theorem atomicWriteFile_stepwise:
  "awf_run path data (plan_resps pl) s
     = (fst (atomicWriteFile pl s path data), WDone (snd (atomicWriteFile pl s path data)))"
  by (simp add: awf_run_plan split: prod.splits)

text \<open>
  A call leaves no temporary file behind: once \<open>tmp\<close> was opened, it is gone when the
  call returns, on success and on every error path, as long as the removal itself works.
\<close>

lemma atomicWriteFile_no_litter:
  assumes "open_err pl = None" "remove_err pl = None"
  shows "names (fst (atomicWriteFile pl s path data)) (tmp_of path) = None"
  using assms
  by (simp add: atomicWriteFile_def remove_tmp_def unlink_def rename_def Let_def
      split: prod.splits option.splits)

text \<open>
  The guarantee is for one caller at a time. Two calls on the same path share one
  \<open>.tmp\<close> file, and there is an interleaving with no input/output failure in which the first
  call returns \<open>nil\<close>, the second returns an error for its rename, and the canonical file holds the
  second call's bytes followed by the tail of the first call's: neither of the two contents.
\<close>

theorem atomicWriteFile_two_callers_tear:
  "read_file (fst (writers_run path data tear_schedule s)) path
     = Some (data 1 @ drop (length (data 1)) (data 0))
   \<and> snd (writers_run path data tear_schedule s) 0 = WDone None
   \<and> snd (writers_run path data tear_schedule s) 1 = WDone (Some ENOENT)"
  using tear_outcome [OF surjective_pairing, of path data s] by simp

end
