(* ===== verification/Json.thy ===== *)
theory Json
  imports GoStrings
begin

text \<open>
  The part of Go's \<open>encoding/json\<close> that the program uses: a parser for JSON texts with the
  escapes, the UTF-8 repair and the nesting limit of the package, and the writer behind
  \<open>json.MarshalIndent(v, "", "  ")\<close>. Texts and strings are byte strings. \<open>parse_render\<close> is the
  round trip the state files rest on.
\<close>

datatype json =
    JNull
  | JBool bool
  | JNum string
  | JStr string
  | JArr "json list"
  | JObj "(string \<times> json) list"

section \<open>Lexical level\<close>

definition is_ws :: "char \<Rightarrow> bool" where
  "is_ws c \<longleftrightarrow> c = CHR '' '' \<or> c = CHR 0x09 \<or> c = CHR 0x0A \<or> c = CHR 0x0D"

definition skip_ws :: "string \<Rightarrow> string" where
  "skip_ws s = dropWhile is_ws s"

definition byte :: "char \<Rightarrow> nat" where
  "byte c = of_char c"

definition chr :: "nat \<Rightarrow> char" where
  "chr n = char_of n"

text \<open>Length of the well-formed multi-byte UTF-8 sequence at the head, 0 where there is none.\<close>

definition cont :: "nat \<Rightarrow> nat \<Rightarrow> char \<Rightarrow> bool" where
  "cont lo hi c \<longleftrightarrow> lo \<le> byte c \<and> byte c \<le> hi"

definition utf8_lead :: "nat \<Rightarrow> nat \<times> nat \<times> nat" where
  "utf8_lead b =
     (if 0xC2 \<le> b \<and> b \<le> 0xDF then (0x80, 0xBF, 2)
      else if b = 0xE0 then (0xA0, 0xBF, 3) else if b = 0xED then (0x80, 0x9F, 3)
      else if 0xE1 \<le> b \<and> b \<le> 0xEF then (0x80, 0xBF, 3)
      else if b = 0xF0 then (0x90, 0xBF, 4) else if b = 0xF4 then (0x80, 0x8F, 4)
      else if 0xF1 \<le> b \<and> b \<le> 0xF3 then (0x80, 0xBF, 4) else (0, 0, 0))"

definition utf8_len :: "string \<Rightarrow> nat" where
  "utf8_len s = (case s of [] \<Rightarrow> 0 | c # t \<Rightarrow>
     (case utf8_lead (byte c) of (lo, hi, n) \<Rightarrow>
        if n = 0 \<or> length t < n - 1 then 0
        else if cont lo hi (hd t) \<and> list_all (cont 0x80 0xBF) (take (n - 2) (tl t)) then n else 0))"

definition utf8_enc :: "nat \<Rightarrow> string" where
  "utf8_enc r =
     (if r < 0x80 then [chr r]
      else if r < 0x800 then [chr (0xC0 + r div 64), chr (0x80 + r mod 64)]
      else if r < 0x10000 then
        [chr (0xE0 + r div 4096), chr (0x80 + r div 64 mod 64), chr (0x80 + r mod 64)]
      else [chr (0xF0 + r div 262144), chr (0x80 + r div 4096 mod 64),
            chr (0x80 + r div 64 mod 64), chr (0x80 + r mod 64)])"

text \<open>The replacement character U+FFFD.\<close>

definition repl :: string where
  "repl = [CHR 0xEF, CHR 0xBF, CHR 0xBD]"

definition hex_val :: "char \<Rightarrow> nat option" where
  "hex_val c =
     (if is_digit c then Some (byte c - 48)
      else if in_range (CHR ''a'') (CHR ''f'') c then Some (byte c - 87)
      else if in_range (CHR ''A'') (CHR ''F'') c then Some (byte c - 55) else None)"

fun hex4 :: "string \<Rightarrow> (nat \<times> string) option" where
  "hex4 (a # b # c # d # t) =
     (case (hex_val a, hex_val b, hex_val c, hex_val d) of
        (Some w, Some x, Some y, Some z) \<Rightarrow> Some (((w * 16 + x) * 16 + y) * 16 + z, t)
      | _ \<Rightarrow> None)"
| "hex4 _ = None"

definition simple_escape :: "char \<Rightarrow> char option" where
  "simple_escape e =
     (if e = CHR 0x22 \<or> e = CHR 0x5C \<or> e = CHR ''/'' then Some e
      else if e = CHR ''b'' then Some (CHR 0x08) else if e = CHR ''f'' then Some (CHR 0x0C)
      else if e = CHR ''n'' then Some (CHR 0x0A) else if e = CHR ''r'' then Some (CHR 0x0D)
      else if e = CHR ''t'' then Some (CHR 0x09) else None)"

definition low_surrogate :: "nat \<Rightarrow> bool" where
  "low_surrogate u \<longleftrightarrow> 0xDC00 \<le> u \<and> u < 0xE000"

text \<open>The code unit pair starting at an escape \<open>\uXXXX\<close> already read: the bytes it stands for and the
  text after it. An unpaired surrogate is replaced and only itself consumed.\<close>

definition unit_bytes :: "nat \<Rightarrow> string \<Rightarrow> string \<times> string" where
  "unit_bytes u t =
     (if 0xD800 \<le> u \<and> u < 0xE000 then
        (if u < 0xDC00 \<and> HasPrefix t [CHR 0x5C, CHR ''u''] then
           (case hex4 (drop 2 t) of
              Some (u2, t') \<Rightarrow>
                (if low_surrogate u2
                 then (utf8_enc (0x10000 + (u - 0xD800) * 1024 + (u2 - 0xDC00)), t')
                 else (repl, t))
            | None \<Rightarrow> (repl, t))
         else (repl, t))
      else (utf8_enc u, t))"

lemma hex4_length: "hex4 s = Some (u, t) \<Longrightarrow> length t < length s"
  by (induction s rule: hex4.induct) (auto split: option.splits)

lemma unit_bytes_length: "unit_bytes u t = (bs, t') \<Longrightarrow> length t' \<le> length t"
  by (auto simp: unit_bytes_def dest!: hex4_length split: if_splits option.splits)

lemma utf8_len_bounds: "utf8_len s \<le> length s"
  by (auto simp: utf8_len_def Suc_le_eq split: list.splits if_splits prod.splits)

definition emit :: "string \<Rightarrow> (string \<times> string) option \<Rightarrow> (string \<times> string) option" where
  "emit bs r = map_option (\<lambda>(v, t). (bs @ v, t)) r"

text \<open>The inside of a string literal, after the opening quote.\<close>

function parse_str :: "string \<Rightarrow> (string \<times> string) option" where
  "parse_str [] = None"
| "parse_str (c # s) =
     (if c = CHR 0x22 then Some ([], s)
      else if c = CHR 0x5C then
        (case s of
           [] \<Rightarrow> None
         | e # s' \<Rightarrow>
             if e = CHR ''u'' then
               (case hex4 s' of
                  None \<Rightarrow> None
                | Some (u, t) \<Rightarrow> emit (fst (unit_bytes u t)) (parse_str (snd (unit_bytes u t))))
             else (case simple_escape e of None \<Rightarrow> None | Some x \<Rightarrow> emit [x] (parse_str s')))
      else if byte c < 32 then None
      else if byte c < 128 then emit [c] (parse_str s)
      else if utf8_len (c # s) = 0 then emit repl (parse_str s)
      else emit (take (utf8_len (c # s)) (c # s)) (parse_str (drop (utf8_len (c # s)) (c # s))))"
  by pat_completeness auto
termination
  by (relation "measure length")
     (auto simp: less_Suc_eq_le dest!: hex4_length intro: le_trans [OF unit_bytes_length [OF surjective_pairing]])

declare parse_str.simps [simp del]

lemma emit_Some: "emit bs r = Some (v, t) \<longleftrightarrow> (\<exists>w. r = Some (w, t) \<and> v = bs @ w)"
  by (auto simp: emit_def)

lemma unit_snd_length: "length (snd (unit_bytes u t)) \<le> length t"
  by (cases "unit_bytes u t") (simp add: unit_bytes_length)

lemma parse_str_length: "parse_str s = Some (v, t) \<Longrightarrow> length t < length s"
proof (induction s arbitrary: v t rule: parse_str.induct)
  case (2 c s)
  note eq = parse_str.simps(2) and prem = "2.prems"
  show ?case
  proof (cases "c = CHR 0x5C")
    case False
    let ?n = "utf8_len (c # s)"
    have one: "length t < length s" if "parse_str s = Some (w, t)" "c \<noteq> CHR 0x22" "\<not> byte c < 32"
      "byte c < 128 \<or> ?n = 0" for w
      using "2.IH"(3,4) that False by blast
    have seq: "length t < Suc (length s)" if "parse_str (drop ?n (c # s)) = Some (w, t)"
      "c \<noteq> CHR 0x22" "\<not> byte c < 32" "\<not> byte c < 128" "?n \<noteq> 0" for w
      using "2.IH"(5) that False by fastforce
    show ?thesis
    proof (rule ccontr)
      assume "\<not> length t < length (c # s)"
      with prem False show False
        by (auto simp: eq emit_Some split: if_splits dest!: one seq simp del: length_drop)
    qed
  next
    case bs: True
    with prem obtain e s' where s: "s = e # s'" by (auto simp: eq split: list.splits)
    have q: "c \<noteq> CHR 0x22" using bs by simp
    note esc = q bs s
    show ?thesis
    proof (cases "e = CHR ''u''")
      case True
      with esc "2.prems" obtain u t0 w where h: "hex4 s' = Some (u, t0)"
        and p: "parse_str (snd (unit_bytes u t0)) = Some (w, t)"
        by (auto simp: parse_str.simps(2) emit_Some split: option.splits)
      have "length t < length (snd (unit_bytes u t0))"
        using "2.IH"(1) [OF esc True h refl p] .
      with hex4_length [OF h] unit_snd_length [of u t0] esc show ?thesis by simp
    next
      case False
      with esc "2.prems" obtain x w where h: "simple_escape e = Some x" and p: "parse_str s' = Some (w, t)"
        by (auto simp: parse_str.simps(2) emit_Some split: option.splits)
      show ?thesis using "2.IH"(2) [OF esc False h p] esc by simp
    qed
  qed
qed (simp add: parse_str.simps)

section \<open>Values\<close>

text \<open>The number grammar: sign, integer part without a leading zero, fraction, exponent.\<close>

definition digits1 :: "string \<Rightarrow> (string \<times> string) option" where
  "digits1 s = (let d = takeWhile is_digit s in if d = [] then None else Some (d, drop (length d) s))"

definition num_int :: "string \<Rightarrow> (string \<times> string) option" where
  "num_int s = (case s of [] \<Rightarrow> None | c # t \<Rightarrow> if c = CHR ''0'' then Some (''0'', t) else digits1 s)"

definition num_frac :: "string \<Rightarrow> (string \<times> string) option" where
  "num_frac s = (case s of [] \<Rightarrow> Some ([], []) | c # t \<Rightarrow>
     if c = CHR ''.'' then map_option (\<lambda>(d, r). (c # d, r)) (digits1 t) else Some ([], s))"

definition num_exp :: "string \<Rightarrow> (string \<times> string) option" where
  "num_exp s = (case s of [] \<Rightarrow> Some ([], []) | c # t \<Rightarrow>
     if c = CHR ''e'' \<or> c = CHR ''E'' then
       (case t of x # t' \<Rightarrow>
          if x = CHR ''+'' \<or> x = CHR ''-'' then map_option (\<lambda>(d, r). (c # x # d, r)) (digits1 t')
          else map_option (\<lambda>(d, r). (c # d, r)) (digits1 t)
        | [] \<Rightarrow> None)
     else Some ([], s))"

definition parse_num :: "string \<Rightarrow> (string \<times> string) option" where
  "parse_num s =
     (let (sg, s0) = (if HasPrefix s ''-'' then (''-'', drop 1 s) else ([], s))
      in case num_int s0 of None \<Rightarrow> None | Some (i, s1) \<Rightarrow>
        (case num_frac s1 of None \<Rightarrow> None | Some (f, s2) \<Rightarrow>
          (case num_exp s2 of None \<Rightarrow> None | Some (e, s3) \<Rightarrow> Some (sg @ i @ f @ e, s3))))"

definition max_depth :: int where
  "max_depth = 10000"

text \<open>A value, the elements of an array after its \<open>[\<close>, the members of an object after its opening brace.
  \<open>d\<close> is how many more levels the package lets open. Each call goes on only if the one before it
  has consumed input; \<open>parse_shorter\<close> shows that this is always so.\<close>

function (sequential)
  parse_value :: "int \<Rightarrow> string \<Rightarrow> (json \<times> string) option"
and parse_elems :: "int \<Rightarrow> string \<Rightarrow> (json list \<times> string) option"
and parse_members :: "int \<Rightarrow> string \<Rightarrow> ((string \<times> json) list \<times> string) option" where
  "parse_value d s =
     (case skip_ws s of
        [] \<Rightarrow> None
      | c # t \<Rightarrow>
          if c = CHR ''['' then
            (if d \<le> 0 then None
             else if HasPrefix (skip_ws t) '']'' then Some (JArr [], drop 1 (skip_ws t))
             else if length t < length s
               then map_option (\<lambda>(vs, r). (JArr vs, r)) (parse_elems (d - 1) t) else None)
          else if c = CHR 0x7B then
            (if d \<le> 0 then None
             else if HasPrefix (skip_ws t) [CHR 0x7D] then Some (JObj [], drop 1 (skip_ws t))
             else if length t < length s
               then map_option (\<lambda>(ms, r). (JObj ms, r)) (parse_members (d - 1) t) else None)
          else if c = CHR 0x22 then map_option (\<lambda>(v, r). (JStr v, r)) (parse_str t)
          else if HasPrefix (c # t) ''true'' then Some (JBool True, drop 3 t)
          else if HasPrefix (c # t) ''false'' then Some (JBool False, drop 4 t)
          else if HasPrefix (c # t) ''null'' then Some (JNull, drop 3 t)
          else map_option (\<lambda>(v, r). (JNum v, r)) (parse_num (c # t)))"
| "parse_elems d s =
     (case parse_value d s of
        None \<Rightarrow> None
      | Some (v, r) \<Rightarrow>
          (case skip_ws r of
             [] \<Rightarrow> None
           | c # t \<Rightarrow>
               if c = CHR '']'' then Some ([v], t)
               else if c = CHR '','' \<and> length t < length s
                 then map_option (\<lambda>(vs, q). (v # vs, q)) (parse_elems d t)
               else None))"
| "parse_members d s =
     (case skip_ws s of
        [] \<Rightarrow> None
      | c # t \<Rightarrow>
          if c \<noteq> CHR 0x22 then None
          else (case parse_str t of
             None \<Rightarrow> None
           | Some (k, r) \<Rightarrow>
               (case skip_ws r of
                  [] \<Rightarrow> None
                | c' # u \<Rightarrow>
                    if c' \<noteq> CHR '':'' \<or> length s \<le> length u then None
                    else (case parse_value d u of
                       None \<Rightarrow> None
                     | Some (v, x) \<Rightarrow>
                         (case skip_ws x of
                            [] \<Rightarrow> None
                          | c'' # w \<Rightarrow>
                              if c'' = CHR 0x7D then Some ([(k, v)], w)
                              else if c'' = CHR '','' \<and> length w < length s
                                then map_option (\<lambda>(ms, q). ((k, v) # ms, q)) (parse_members d w)
                              else None)))))"
  by pat_completeness auto
termination
  by (relation "measure (\<lambda>x. case x of
        Inl (d, s) \<Rightarrow> 2 * length s
      | Inr (Inl (d, s)) \<Rightarrow> 2 * length s + 1
      | Inr (Inr (d, s)) \<Rightarrow> 2 * length s + 1)") auto

declare parse_value.simps [simp del] parse_elems.simps [simp del] parse_members.simps [simp del]

text \<open>\<open>json.Unmarshal\<close> into an untyped tree: one value and nothing but space after it.\<close>

definition parse_json :: "string \<Rightarrow> json option" where
  "parse_json s = (case parse_value max_depth s of
     Some (v, r) \<Rightarrow> if skip_ws r = [] then Some v else None
   | None \<Rightarrow> None)"

section \<open>The parser always consumes input\<close>

lemma skip_ws_length: "length (skip_ws s) \<le> length s"
  by (simp add: skip_ws_def length_dropWhile_le)

lemma skip_ws_Cons: "skip_ws s = c # t \<Longrightarrow> length t < length s"
  using skip_ws_length [of s] by simp

lemma digits1_length: "digits1 s = Some (d, r) \<Longrightarrow> length r < length s"
  by (auto simp: digits1_def Let_def split: if_splits)
     (metis diff_less length_greater_0_conv takeWhile.simps(1))

lemma num_int_length: "num_int s = Some (d, r) \<Longrightarrow> length r < length s"
  by (auto simp: num_int_def split: list.splits if_splits dest: digits1_length)

lemma num_frac_length: "num_frac s = Some (d, r) \<Longrightarrow> length r \<le> length s"
  by (auto simp: num_frac_def split: list.splits if_splits dest: digits1_length)

lemma num_exp_length: "num_exp s = Some (d, r) \<Longrightarrow> length r \<le> length s"
  by (fastforce simp: num_exp_def split: list.splits if_splits dest: digits1_length)

lemma parse_num_length: "parse_num s = Some (v, r) \<Longrightarrow> length r < length s"
  by (fastforce simp: parse_num_def split: option.splits if_splits
      dest: num_int_length num_frac_length num_exp_length)

lemma parse_shorter:
  "parse_value d s = Some (v, r) \<Longrightarrow> length r < length s"
  "parse_elems d s = Some (vs, r) \<Longrightarrow> length r < length s"
  "parse_members d s = Some (ms, r) \<Longrightarrow> length r < length s"
proof (induction d s and d s and d s arbitrary: v r and vs r and ms r
    rule: parse_value_parse_elems_parse_members.induct)
  case (1 d s)
  obtain c t where ct: "skip_ws s = c # t"
    using "1.prems" by (auto simp: parse_value.simps split: list.splits)
  note lt = skip_ws_Cons [OF ct] and le = skip_ws_length [of t]
  have el: "length r < length t" if "parse_elems (d - 1) t = Some (vs, r)" "c = CHR ''[''" "\<not> d \<le> 0"
      "\<not> HasPrefix (skip_ws t) '']''" for vs
    using "1.IH"(1) [OF ct] that lt by blast
  have me: "length r < length t" if "parse_members (d - 1) t = Some (ms, r)" "c = CHR 0x7B" "\<not> d \<le> 0"
      "\<not> HasPrefix (skip_ws t) [CHR 0x7D]" for ms
    using "1.IH"(2) [OF ct] that lt by fastforce
  show ?case
    using "1.prems" ct lt le
    by (auto simp: parse_value.simps split: if_splits
        dest!: el me parse_str_length parse_num_length)
next
  case (2 d s)
  obtain v' r' c t where v: "parse_value d s = Some (v', r')" and ct: "skip_ws r' = c # t"
    using "2.prems" by (auto simp: parse_elems.simps split: option.splits list.splits)
  show ?case
    using "2.prems" v ct "2.IH"(1) [OF v] skip_ws_Cons [OF ct]
    by (auto simp: parse_elems.simps split: if_splits dest!: "2.IH"(2))
next
  case (3 d s)
  obtain t k r' u v' x c w where a: "skip_ws s = CHR 0x22 # t" "parse_str t = Some (k, r')"
      "skip_ws r' = CHR '':'' # u" "parse_value d u = Some (v', x)" "skip_ws x = c # w"
    using "3.prems" by (auto simp: parse_members.simps split: option.splits list.splits if_splits)
  note l = skip_ws_Cons [OF a(1)] parse_str_length [OF a(2)] skip_ws_Cons [OF a(3)] skip_ws_Cons [OF a(5)]
  have x: "length x < length u" using "3.IH"(1) [OF a(1) _ a(2) refl a(3)] a(4) l by simp
  have "length r < length w" if "parse_members d w = Some (ms', r)" "c = CHR '',''" for ms'
    using "3.IH"(2) [OF a(1) _ a(2) refl a(3) _ a(4) refl a(5)] that l x by simp
  with "3.prems" a l x show ?case
    by (fastforce simp: parse_members.simps split: if_splits)
qed

text \<open>The equations without the guards.\<close>

definition value_at :: "int \<Rightarrow> string \<Rightarrow> (json \<times> string) option" where
  "value_at d s = (case s of
        [] \<Rightarrow> None
      | c # t \<Rightarrow>
          if c = CHR ''['' then
            (if d \<le> 0 then None
             else if HasPrefix (skip_ws t) '']'' then Some (JArr [], drop 1 (skip_ws t))
             else map_option (\<lambda>(vs, r). (JArr vs, r)) (parse_elems (d - 1) t))
          else if c = CHR 0x7B then
            (if d \<le> 0 then None
             else if HasPrefix (skip_ws t) [CHR 0x7D] then Some (JObj [], drop 1 (skip_ws t))
             else map_option (\<lambda>(ms, r). (JObj ms, r)) (parse_members (d - 1) t))
          else if c = CHR 0x22 then map_option (\<lambda>(v, r). (JStr v, r)) (parse_str t)
          else if HasPrefix (c # t) ''true'' then Some (JBool True, drop 3 t)
          else if HasPrefix (c # t) ''false'' then Some (JBool False, drop 4 t)
          else if HasPrefix (c # t) ''null'' then Some (JNull, drop 3 t)
          else map_option (\<lambda>(v, r). (JNum v, r)) (parse_num (c # t)))"

lemma parse_value_unguarded: "parse_value d s = value_at d (skip_ws s)"
  by (auto simp: parse_value.simps value_at_def split: list.splits dest: skip_ws_Cons)

lemma parse_elems_unguarded:
  "parse_elems d s =
     (case parse_value d s of
        None \<Rightarrow> None
      | Some (v, r) \<Rightarrow>
          (case skip_ws r of
             [] \<Rightarrow> None
           | c # t \<Rightarrow>
               if c = CHR '']'' then Some ([v], t)
               else if c = CHR '','' then map_option (\<lambda>(vs, q). (v # vs, q)) (parse_elems d t)
               else None))"
  by (auto simp: parse_elems.simps [of d s] split: option.splits list.splits
      dest!: parse_shorter(1) skip_ws_Cons)

lemma parse_members_unguarded:
  assumes "skip_ws s = CHR 0x22 # t" "parse_str t = Some (k, r)" "skip_ws r = CHR '':'' # u"
    "parse_value d u = Some (v, x)" "skip_ws x = c # w"
  shows "parse_members d s =
    (if c = CHR 0x7D then Some ([(k, v)], w)
     else if c = CHR '','' then map_option (\<lambda>(ms, q). ((k, v) # ms, q)) (parse_members d w) else None)"
proof -
  note l = skip_ws_Cons [OF assms(1)] parse_str_length [OF assms(2)] skip_ws_Cons [OF assms(3)]
    parse_shorter(1) [OF assms(4)] skip_ws_Cons [OF assms(5)]
  then have "length u < length s" "length w < length s" by simp_all
  with assms show ?thesis by (simp add: parse_members.simps [of d s])
qed

section \<open>Writing\<close>

definition hexd :: "nat \<Rightarrow> char" where
  "hexd n = (if n < 10 then chr (48 + n) else chr (87 + n))"

definition u_escape :: "nat \<Rightarrow> string" where
  "u_escape r = [CHR 0x5C, CHR ''u'', hexd (r div 4096 mod 16), hexd (r div 256 mod 16),
     hexd (r div 16 mod 16), hexd (r mod 16)]"

text \<open>One ASCII byte of a string, with \<open>json.Marshal\<close>'s HTML escaping.\<close>

definition enc_ascii :: "char \<Rightarrow> string" where
  "enc_ascii c =
     (if c = CHR 0x22 \<or> c = CHR 0x5C then [CHR 0x5C, c]
      else if c = CHR 0x08 then [CHR 0x5C, CHR ''b''] else if c = CHR 0x0C then [CHR 0x5C, CHR ''f'']
      else if c = CHR 0x0A then [CHR 0x5C, CHR ''n''] else if c = CHR 0x0D then [CHR 0x5C, CHR ''r'']
      else if c = CHR 0x09 then [CHR 0x5C, CHR ''t'']
      else if byte c < 32 \<or> c = CHR ''<'' \<or> c = CHR ''>'' \<or> c = CHR ''&'' then u_escape (byte c)
      else [c])"

text \<open>The rest of a string: U+2028 and U+2029 are escaped, malformed bytes replaced.\<close>

function enc_str :: "string \<Rightarrow> string" where
  "enc_str [] = []"
| "enc_str (c # s) =
     (if byte c < 128 then enc_ascii c @ enc_str s
      else if utf8_len (c # s) = 0 then u_escape 0xFFFD @ enc_str s
      else if take 3 (c # s) = utf8_enc 0x2028 then u_escape 0x2028 @ enc_str (drop (utf8_len (c # s)) (c # s))
      else if take 3 (c # s) = utf8_enc 0x2029 then u_escape 0x2029 @ enc_str (drop (utf8_len (c # s)) (c # s))
      else take (utf8_len (c # s)) (c # s) @ enc_str (drop (utf8_len (c # s)) (c # s)))"
  by pat_completeness auto
termination
  by (relation "measure length") auto

declare enc_str.simps [simp del]

definition quote :: "string \<Rightarrow> string" where
  "quote s = CHR 0x22 # enc_str s @ [CHR 0x22]"

text \<open>A new line at indentation level \<open>l\<close>.\<close>

definition nl :: "nat \<Rightarrow> string" where
  "nl l = CHR 0x0A # replicate (2 * l) (CHR '' '')"

fun render :: "nat \<Rightarrow> json \<Rightarrow> string"
and render_elems :: "nat \<Rightarrow> json list \<Rightarrow> string"
and render_members :: "nat \<Rightarrow> (string \<times> json) list \<Rightarrow> string" where
  "render l JNull = ''null''"
| "render l (JBool b) = (if b then ''true'' else ''false'')"
| "render l (JNum n) = n"
| "render l (JStr s) = quote s"
| "render l (JArr vs) = (if vs = [] then ''[]'' else ''['' @ render_elems (Suc l) vs @ nl l @ '']'')"
| "render l (JObj ms) = (if ms = [] then [CHR 0x7B, CHR 0x7D]
     else [CHR 0x7B] @ render_members (Suc l) ms @ nl l @ [CHR 0x7D])"
| "render_elems l [] = []"
| "render_elems l (v # vs) =
     nl l @ render l v @ (if vs = [] then [] else '','' @ render_elems l vs)"
| "render_members l [] = []"
| "render_members l ((k, v) # ms) =
     nl l @ quote k @ '': '' @ render l v @ (if ms = [] then [] else '','' @ render_members l ms)"

text \<open>\<open>json.MarshalIndent(v, "", "  ")\<close>.\<close>

definition MarshalIndent :: "json \<Rightarrow> bytes" where
  "MarshalIndent v = render 0 v"
section \<open>Reading back what was written\<close>

lemma chr_eq: "chr n = c \<longleftrightarrow> n mod 256 = byte c"
  by (metis byte_def chr_def char_of_char of_char_of)

lemma utf8_enc_seps:
  "utf8_enc 0x2028 = [CHR 0xE2, CHR 0x80, CHR 0xA8]" "utf8_enc 0x2029 = [CHR 0xE2, CHR 0x80, CHR 0xA9]"
  by (simp_all add: utf8_enc_def chr_eq byte_def)

function valid_utf8 :: "string \<Rightarrow> bool" where
  "valid_utf8 [] = True"
| "valid_utf8 (c # s) = (if byte c < 128 then valid_utf8 s
     else if utf8_len (c # s) = 0 then False else valid_utf8 (drop (utf8_len (c # s)) (c # s)))"
  by pat_completeness auto
termination
  by (relation "measure length") auto

declare valid_utf8.simps [simp del]

lemma utf8_lead_range: "utf8_lead b = (lo, hi, n) \<Longrightarrow> n = 0 \<or> (2 \<le> n \<and> 128 \<le> lo)"
  by (auto simp: utf8_lead_def split: if_splits)

lemma utf8_len_append:
  assumes "utf8_len s \<noteq> 0"
  shows "utf8_len (take (utf8_len s) s @ r) = utf8_len s"
proof -
  obtain c t where s: "s = c # t" using assms by (cases s) (auto simp: utf8_len_def)
  obtain lo hi n where l: "utf8_lead (byte c) = (lo, hi, n)" using prod_cases3 by blast
  have n: "utf8_len s = n" "2 \<le> n" "n - 1 \<le> length t" "cont lo hi (hd t)"
      "list_all (cont 0x80 0xBF) (take (n - 2) (tl t))"
    using assms l utf8_lead_range [OF l] by (auto simp: utf8_len_def s split: if_splits)
  then obtain d u where t: "t = d # u" by (cases t) auto
  obtain m where m: "n = Suc (Suc m)" using n(2) by (metis add_2_eq_Suc le_Suc_ex)
  show ?thesis using n l by (simp add: s t m utf8_len_def min_def)
qed

lemma hex_val_hexd: "n < 16 \<Longrightarrow> hex_val (hexd n) = Some n"
proof -
  have "list_all (\<lambda>n. hex_val (hexd n) = Some n) [0..<16]" by code_simp
  then show "n < 16 \<Longrightarrow> hex_val (hexd n) = Some n" by (simp add: list_all_iff)
qed

lemma hex_digits: "r < 65536 \<Longrightarrow>
   ((r div 4096 mod 16 * 16 + r div 256 mod 16) * 16 + r div 16 mod 16) * 16 + r mod 16 = (r :: nat)"
proof -
  assume r: "r < 65536"
  have a: "r div 4096 mod 16 = r div 16 div 16 div 16" using r by (simp flip: div_mult2_eq)
  have b: "r div 256 mod 16 = r div 16 div 16 mod 16" by (simp flip: div_mult2_eq)
  show ?thesis unfolding a b by (simp add: div_mult_mod_eq)
qed

lemma hex4_hexd:
  assumes "a < 16" "b < 16" "c < 16" "d < 16"
  shows "hex4 (hexd a # hexd b # hexd c # hexd d # t) = Some (((a * 16 + b) * 16 + c) * 16 + d, t)"
  using assms by (simp add: hex_val_hexd)

lemma hex4_u_escape:
  assumes "r < 65536"
  shows "hex4 (drop 2 (u_escape r) @ t) = Some (r, t)"
proof -
  have "hex4 (drop 2 (u_escape r) @ t)
      = Some (((r div 4096 mod 16 * 16 + r div 256 mod 16) * 16 + r div 16 mod 16) * 16 + r mod 16, t)"
    unfolding u_escape_def drop_Suc_Cons numeral_2_eq_2 drop_0 append_Cons append_Nil
    by (rule hex4_hexd) simp_all
  then show ?thesis unfolding hex_digits [OF assms] .
qed

lemma line_sep_len:
  assumes "take 3 x = utf8_enc r" "r = 0x2028 \<or> r = 0x2029"
  shows "utf8_len x = 3"
proof -
  from assms utf8_enc_seps have "x = CHR 0xE2 # CHR 0x80 # CHR 0xA8 # drop 3 x \<or> x = CHR 0xE2 # CHR 0x80 # CHR 0xA9 # drop 3 x"
    by (metis append_take_drop_id append_Cons append_Nil)
  moreover have "utf8_len (CHR 0xE2 # CHR 0x80 # CHR 0xA8 # y) = 3" "utf8_len (CHR 0xE2 # CHR 0x80 # CHR 0xA9 # y) = 3" for y
    by (simp_all add: utf8_len_def utf8_lead_def cont_def byte_def)
  ultimately show ?thesis by metis
qed

lemma parse_u_escape:
  assumes "r < 65536" "r < 0xD800 \<or> 0xE000 \<le> r"
  shows "parse_str (u_escape r @ t) = emit (utf8_enc r) (parse_str t)"
proof -
  have u: "u_escape r = CHR 0x5C # CHR ''u'' # drop 2 (u_escape r)" by (simp add: u_escape_def)
  from assms(2) have b: "unit_bytes r t = (utf8_enc r, t)" by (auto simp: unit_bytes_def)
  show ?thesis
    by (subst u) (simp add: parse_str.simps hex4_u_escape [OF assms(1)] b)
qed

lemma parse_enc_ascii:
  assumes "byte c < 128"
  shows "parse_str (enc_ascii c @ t) = emit [c] (parse_str t)"
proof -
  have u: "utf8_enc (byte c) = [c]" using assms by (simp add: utf8_enc_def chr_def byte_def)
  show ?thesis
    using assms parse_u_escape [of "byte c" t] u
    by (auto simp: enc_ascii_def parse_str.simps simple_escape_def)
qed

lemma emit_emit: "emit a (emit b r) = emit (a @ b) r"
  by (cases r) (auto simp: emit_def)

lemma emit_pair: "emit bs (Some (v, t)) = Some (bs @ v, t)"
  by (simp add: emit_def)

lemma parse_utf8_seq:
  assumes "utf8_len s \<noteq> 0" "\<not> byte (hd s) < 128"
  shows "parse_str (take (utf8_len s) s @ t) = emit (take (utf8_len s) s) (parse_str t)"
proof -
  obtain c u where s: "s = c # u" using assms by (cases s) (auto simp: utf8_len_def)
  let ?n = "utf8_len s"
  obtain m where m: "?n = Suc m" using assms(1) not0_implies_Suc by blast
  have e: "take ?n s @ t = c # (take m u @ t)" using m by (simp add: s)
  have n: "utf8_len (c # (take m u @ t)) = ?n" using utf8_len_append [OF assms(1), of t] by (simp add: e)
  have l: "?n \<le> length s" by (rule utf8_len_bounds)
  have q: "take ?n (c # (take m u @ t)) = take ?n s" "drop ?n (c # (take m u @ t)) = t"
    using l by (simp_all flip: e)
  have "c \<noteq> CHR 0x22" "c \<noteq> CHR 0x5C" "\<not> byte c < 32" "\<not> byte c < 128"
    using assms(2) by (auto simp: s byte_def)
  then show ?thesis unfolding e parse_str.simps(2) n q using assms(1) by simp
qed

lemma parse_enc_str: "valid_utf8 s \<Longrightarrow> parse_str (enc_str s @ CHR 0x22 # t) = Some (s, t)"
proof (induction s rule: enc_str.induct)
  case 1
  show ?case by (simp add: enc_str.simps parse_str.simps)
next
  case (2 c s)
  let ?n = "utf8_len (c # s)"
  show ?case
  proof (cases "byte c < 128")
    case True
    with 2 show ?thesis by (simp add: enc_str.simps valid_utf8.simps parse_enc_ascii emit_pair)
  next
    case False
    with "2.prems" have n: "?n \<noteq> 0" and v: "valid_utf8 (drop ?n (c # s))"
      by (auto simp: valid_utf8.simps split: if_splits)
    have ih: "parse_str (enc_str (drop ?n (c # s)) @ CHR 0x22 # t) = Some (drop ?n (c # s), t)"
      using "2.IH" False n v by blast
    have sep: "take ?n (c # s) = utf8_enc r" if "take 3 (c # s) = utf8_enc r" "r = 0x2028 \<or> r = 0x2029" for r
      using line_sep_len [OF that] that(1) by simp
    have whole: "take ?n (c # s) @ drop ?n (c # s) = c # s" by (rule append_take_drop_id)
    have e: "enc_str (c # s) =
       (if take 3 (c # s) = utf8_enc 0x2028 then u_escape 0x2028 @ enc_str (drop ?n (c # s))
        else if take 3 (c # s) = utf8_enc 0x2029 then u_escape 0x2029 @ enc_str (drop ?n (c # s))
        else take ?n (c # s) @ enc_str (drop ?n (c # s)))"
      by (simp only: enc_str.simps(2) False n if_False)
    consider (a) r where "take 3 (c # s) = utf8_enc r" "r = 0x2028 \<or> r = 0x2029"
        "enc_str (c # s) = u_escape r @ enc_str (drop ?n (c # s))"
      | (b) "enc_str (c # s) = take ?n (c # s) @ enc_str (drop ?n (c # s))"
      using e by metis
    then show ?thesis
    proof cases
      case a
      then have "r < 65536" "r < 0xD800 \<or> 0xE000 \<le> r" by auto
      with a sep [OF a(1,2)] whole ih show ?thesis
        by (simp add: parse_u_escape emit_pair del: take_Suc_Cons drop_Suc_Cons)
    next
      case b
      have "\<not> byte (hd (c # s)) < 128" using False by simp
      with b whole ih parse_utf8_seq [OF n] show ?thesis
        by (simp add: emit_pair del: take_Suc_Cons drop_Suc_Cons)
    qed
  qed
qed
text \<open>What the program stores: no numbers, strings that are UTF-8, nesting within the limit.\<close>

fun storable :: "int \<Rightarrow> json \<Rightarrow> bool" where
  "storable d JNull = True"
| "storable d (JBool b) = True"
| "storable d (JNum n) = False"
| "storable d (JStr s) = valid_utf8 s"
| "storable d (JArr vs) = (0 < d \<and> list_all (storable (d - 1)) vs)"
| "storable d (JObj ms) = (0 < d \<and> list_all (\<lambda>(k, v). valid_utf8 k \<and> storable (d - 1) v) ms)"

lemma skip_ws_nl [simp]: "skip_ws (nl l @ s) = skip_ws s"
  by (induction l) (simp_all add: skip_ws_def nl_def is_ws_def)

lemma skip_ws_start [simp]: "\<not> is_ws c \<Longrightarrow> skip_ws (c # s) = c # s"
  by (simp add: skip_ws_def)

lemma not_ws [simp]:
  "\<not> is_ws (CHR ''['')" "\<not> is_ws (CHR '']'')" "\<not> is_ws (CHR 0x7B)" "\<not> is_ws (CHR 0x7D)"
  "\<not> is_ws (CHR 0x22)" "\<not> is_ws (CHR '','')" "\<not> is_ws (CHR '':'')" "\<not> is_ws (CHR ''t'')"
  "\<not> is_ws (CHR ''f'')" "\<not> is_ws (CHR ''n'')"
  by (simp_all add: is_ws_def)

lemma render_start: "storable d v \<Longrightarrow> \<exists>c t. render l v = c # t \<and> \<not> is_ws c \<and> c \<noteq> CHR '']''"
  by (cases v) (auto simp: quote_def)

lemma skip_ws_render: "storable d v \<Longrightarrow> skip_ws (render l v @ s) = render l v @ s"
  by (auto dest!: render_start [of d v l])

lemma parse_value_nl [simp]: "parse_value d (nl l @ s) = parse_value d s"
  by (simp add: parse_value_unguarded)

lemma parse_value_space [simp]: "parse_value d (CHR '' '' # s) = parse_value d s"
  by (simp add: parse_value_unguarded skip_ws_def is_ws_def)

lemma elems_not_closed: "vs \<noteq> [] \<Longrightarrow> list_all (storable d) vs \<Longrightarrow>
   \<not> HasPrefix (skip_ws (render_elems l vs @ s)) '']''"
proof (cases vs)
  case (Cons v ws)
  assume "list_all (storable d) vs"
  with Cons obtain c t where "render l v = c # t" "\<not> is_ws c" "c \<noteq> CHR '']''"
    using render_start [of d v l] by auto
  with Cons show ?thesis by (simp add: HasPrefix_single)
qed simp

lemma members_not_closed: "ms \<noteq> [] \<Longrightarrow> \<not> HasPrefix (skip_ws (render_members l ms @ s)) [CHR 0x7D]"
  by (cases "(l, ms)" rule: render_members.cases) (auto simp: HasPrefix_single quote_def)

lemma quote_append: "quote s @ t = CHR 0x22 # enc_str s @ CHR 0x22 # t"
  by (simp add: quote_def)

lemma parse_value_quote: "valid_utf8 s \<Longrightarrow> parse_value d (quote s @ t) = Some (JStr s, t)"
  by (simp add: parse_value_unguarded quote_append skip_ws_start is_ws_def value_at_def parse_enc_str)

lemma parse_render:
  "storable d v \<Longrightarrow> parse_value d (render l v @ r) = Some (v, r)"
  "vs \<noteq> [] \<Longrightarrow> list_all (storable d) vs \<Longrightarrow> parse_elems d (render_elems l vs @ nl k @ CHR '']'' # r) = Some (vs, r)"
  "ms \<noteq> [] \<Longrightarrow> list_all (\<lambda>(k, v). valid_utf8 k \<and> storable d v) ms
     \<Longrightarrow> parse_members d (render_members l ms @ nl k @ CHR 0x7D # r) = Some (ms, r)"
proof (induction l v and l vs and l ms arbitrary: d r and d r k and d r k
    rule: render_render_elems_render_members.induct)
  case (4 l s)
  then show ?case by (simp add: parse_value_quote)
next
  case (5 l vs)
  then have "vs \<noteq> [] \<Longrightarrow> \<not> HasPrefix (skip_ws (render_elems (Suc l) vs @ nl l @ CHR '']'' # r)) '']''"
    using elems_not_closed [of vs "d - 1" "Suc l"] by simp
  with 5 show ?case
    by (simp add: parse_value_unguarded value_at_def HasPrefix_def [of "'']'' @ _"] HasPrefix_def [of "CHR '']'' # _"])
next
  case (6 l ms)
  then show ?case
    by (simp add: parse_value_unguarded value_at_def members_not_closed HasPrefix_def [of "CHR 0x7D # _"])
next
  case (8 l v vs)
  then show ?case
    by (cases "vs = []") (simp_all add: parse_elems_unguarded [of d "nl l @ s" for s])
next
  case (10 l key v ms)
  let ?x = "(if ms = [] then [] else '','' @ render_members l ms) @ nl k @ CHR 0x7D # r"
  have v: "valid_utf8 key" "storable d v" and ms: "list_all (\<lambda>(k, v). valid_utf8 k \<and> storable d v) ms"
    using "10.prems"(2) by simp_all
  obtain c w where x: "skip_ws ?x = c # w" "ms = [] \<Longrightarrow> c = CHR 0x7D \<and> w = r"
      "ms \<noteq> [] \<Longrightarrow> c = CHR '','' \<and> w = render_members l ms @ nl k @ CHR 0x7D # r"
    by (cases "ms = []") simp_all
  have "parse_members d (nl l @ quote key @ '': '' @ render l v @ ?x) =
    (if c = CHR 0x7D then Some ([(key, v)], w)
     else if c = CHR '','' then map_option (\<lambda>(ms, q). ((key, v) # ms, q)) (parse_members d w) else None)"
  proof (rule parse_members_unguarded [OF _ parse_enc_str [OF v(1)] skip_ws_start [OF not_ws(7)] _ x(1)])
    show "parse_value d (CHR '' '' # render l v @ ?x) = Some (v, ?x)"
      by (simp only: parse_value_space "10.IH"(1) [OF v(2)])
  qed (simp add: quote_append)
  with x ms "10.IH"(2) show ?case by (cases "ms = []") simp_all
qed (auto simp: parse_value_unguarded value_at_def HasPrefix_def)

text \<open>\<open>json.Unmarshal\<close> of what \<open>json.MarshalIndent\<close> wrote.\<close>

lemma parse_json_marshal: "storable max_depth v \<Longrightarrow> parse_json (MarshalIndent v) = Some v"
  using parse_render(1) [of max_depth v 0 "[]"]
  by (simp add: parse_json_def MarshalIndent_def skip_ws_def)


section \<open>A slice of strings\<close>

text \<open>Decoding a tree into \<open>[]string\<close>: \<open>null\<close> leaves a value alone (an empty slice, an empty element),
  any other kind of value is a type error.\<close>

fun decode_string :: "json \<Rightarrow> string option" where
  "decode_string (JStr s) = Some s"
| "decode_string JNull = Some []"
| "decode_string _ = None"

fun decode_all :: "('a \<Rightarrow> 'b option) \<Rightarrow> 'a list \<Rightarrow> 'b list option" where
  "decode_all f [] = Some []"
| "decode_all f (x # xs) =
     (case f x of None \<Rightarrow> None | Some y \<Rightarrow> map_option (\<lambda>ys. y # ys) (decode_all f xs))"

fun decode_strings :: "json \<Rightarrow> string list option" where
  "decode_strings JNull = Some []"
| "decode_strings (JArr vs) = decode_all decode_string vs"
| "decode_strings _ = None"

definition marshal_strings :: "string list \<Rightarrow> bytes" where
  "marshal_strings xs = MarshalIndent (JArr (map JStr xs))"

definition unmarshal_strings :: "bytes \<Rightarrow> string list option" where
  "unmarshal_strings d = (case parse_json d of None \<Rightarrow> None | Some v \<Rightarrow> decode_strings v)"

lemma decode_all_map [simp]: "(\<And>x. x \<in> set xs \<Longrightarrow> f (g x) = Some (h x)) \<Longrightarrow> decode_all f (map g xs) = Some (map h xs)"
  by (induction xs) auto

lemma unmarshal_marshal_strings:
  assumes "list_all valid_utf8 xs"
  shows "unmarshal_strings (marshal_strings xs) = Some xs"
proof -
  have "storable max_depth (JArr (map JStr xs))"
    using assms by (simp add: max_depth_def list_all_length)
  then show ?thesis
    by (simp add: unmarshal_strings_def marshal_strings_def parse_json_marshal)
qed

lemma ascii_valid_utf8: "\<forall>c \<in> set s. byte c < 128 \<Longrightarrow> valid_utf8 s"
  by (induction s) (simp_all add: valid_utf8.simps)

section \<open>Decoding JSON objects into structs\<close>

text \<open>\<open>encoding/json\<close> matches a key to a field by its exact name, and else by folded names: ASCII
  letters compare without case, and the only other characters that fold to an ASCII letter are
  U+017F (long s) and U+212A (Kelvin sign). Folding is on the UTF-8 bytes of the key.\<close>

fun fold_name :: "string \<Rightarrow> string" where
  "fold_name [] = []"
| "fold_name (a # s) =
     (if HasPrefix (a # s) [CHR 0xC5, CHR 0xBF] then CHR ''s'' # fold_name (drop 1 s)
      else if HasPrefix (a # s) [CHR 0xE2, CHR 0x84, CHR 0xAA] then CHR ''k'' # fold_name (drop 2 s)
      else ascii_lower a # fold_name s)"

declare fold_name.simps [simp del]

definition names_field :: "string \<Rightarrow> string \<Rightarrow> bool" where
  "names_field key name \<longleftrightarrow> fold_name key = fold_name name"

text \<open>A string field: \<open>null\<close> leaves it alone, any other kind than a string is an error, which makes
  \<open>Unmarshal\<close> as a whole fail.\<close>

fun into_string :: "json \<Rightarrow> string \<Rightarrow> string option" where
  "into_string (JStr s) old = Some s"
| "into_string JNull old = Some old"
| "into_string _ old = None"

fun fold_members :: "('m \<Rightarrow> 'a \<Rightarrow> 'a option) \<Rightarrow> 'm list \<Rightarrow> 'a \<Rightarrow> 'a option" where
  "fold_members f [] x = Some x"
| "fold_members f (m # ms) x = (case f m x of None \<Rightarrow> None | Some y \<Rightarrow> fold_members f ms y)"

end
