(* ===== verification/Backend.thy ===== *)
theory Backend
  imports Cid
begin

text \<open>
  \<open>pinner.go\<close>: the \<open>IPFSBackend\<close> interface that the autopin runner and the HTTP server call.
  \<open>ipfs_backend\<close> is what both implementations promise (the CID shape is checked before anything
  happens), \<open>pin_set_backend\<close> what a backend promises that keeps its own pin set.
  \<open>'env\<close> is what the outside world answers during one call, \<open>'s\<close> the backend's state; an error
  result is \<open>Some e\<close>, Go's \<open>nil\<close> is \<open>None\<close>.
\<close>

locale ipfs_backend =
  fixes Pin :: "'env \<Rightarrow> 's \<Rightarrow> string \<Rightarrow> 's \<times> 'err option"
    and Unpin :: "'env \<Rightarrow> 's \<Rightarrow> string \<Rightarrow> 's \<times> 'err option"
    and IsPinned :: "'env \<Rightarrow> 's \<Rightarrow> string \<Rightarrow> 'err + bool"
  assumes pin_invalid: "\<not> cidRegex c \<Longrightarrow> \<exists>e. Pin env s c = (s, Some e)"
    and unpin_invalid: "\<not> cidRegex c \<Longrightarrow> \<exists>e. Unpin env s c = (s, Some e)"
    and is_pinned_invalid: "\<not> cidRegex c \<Longrightarrow> \<exists>e. IsPinned env s c = Inl e"
begin

lemma pin_ok_valid: "Pin env s c = (s', None) \<Longrightarrow> cidRegex c"
  by (rule ccontr) (use pin_invalid [of c env s] in auto)

lemma unpin_ok_valid: "Unpin env s c = (s', None) \<Longrightarrow> cidRegex c"
  by (rule ccontr) (use unpin_invalid [of c env s] in auto)

lemma is_pinned_ok_valid: "IsPinned env s c = Inr b \<Longrightarrow> cidRegex c"
  by (rule ccontr) (use is_pinned_invalid [of c env s] in auto)

text \<open>A malformed CID is refused by every operation, and none of them changes the backend.\<close>

lemma malformed_refused:
  assumes "\<not> cidRegex c"
  shows "fst (Pin env s c) = s \<and> snd (Pin env s c) \<noteq> None
       \<and> fst (Unpin env s c) = s \<and> snd (Unpin env s c) \<noteq> None \<and> isl (IsPinned env s c)"
proof -
  obtain e1 e2 e3 where "Pin env s c = (s, Some e1)" "Unpin env s c = (s, Some e2)" "IsPinned env s c = Inl e3"
    using pin_invalid [OF assms] unpin_invalid [OF assms] is_pinned_invalid [OF assms] by blast
  then show ?thesis by simp
qed

end

datatype backend_op = OpPin string | OpUnpin string

locale pin_set_backend = ipfs_backend Pin Unpin IsPinned
  for Pin :: "'env \<Rightarrow> 's \<Rightarrow> string \<Rightarrow> 's \<times> 'err option"
    and Unpin :: "'env \<Rightarrow> 's \<Rightarrow> string \<Rightarrow> 's \<times> 'err option"
    and IsPinned :: "'env \<Rightarrow> 's \<Rightarrow> string \<Rightarrow> 'err + bool" +
  fixes pinned :: "'s \<Rightarrow> string set"
  assumes pin_ok: "Pin env s c = (s', None) \<Longrightarrow> pinned s' = insert c (pinned s)"
    and pin_err: "Pin env s c = (s', Some e) \<Longrightarrow> pinned s' = pinned s"
    and unpin_ok: "Unpin env s c = (s', None) \<Longrightarrow> pinned s' = pinned s - {c}"
    and unpin_err: "Unpin env s c = (s', Some e) \<Longrightarrow> pinned s' = pinned s"
    and is_pinned_valid: "cidRegex c \<Longrightarrow> IsPinned env s c = Inr (c \<in> pinned s)"
begin

lemma pin_then_pinned: "Pin env s c = (s', None) \<Longrightarrow> IsPinned env' s' c = Inr True"
  by (simp add: pin_ok pin_ok_valid is_pinned_valid)

lemma unpin_then_not_pinned: "Unpin env s c = (s', None) \<Longrightarrow> IsPinned env' s' c = Inr False"
  using unpin_ok_valid [of env s c s'] by (simp add: unpin_ok is_pinned_valid)

text \<open>Other CIDs are not touched.\<close>

lemma pin_frame: "Pin env s c = (s', r) \<Longrightarrow> d \<noteq> c \<Longrightarrow> d \<in> pinned s' \<longleftrightarrow> d \<in> pinned s"
  by (cases r) (auto dest: pin_ok pin_err)

lemma unpin_frame: "Unpin env s c = (s', r) \<Longrightarrow> d \<noteq> c \<Longrightarrow> d \<in> pinned s' \<longleftrightarrow> d \<in> pinned s"
  by (cases r) (auto dest: unpin_ok unpin_err)

text \<open>Whatever is called, only well-formed CIDs enter the pin set.\<close>

lemma ops_keep_valid:
  assumes "pinned s \<subseteq> Collect cidRegex"
  shows "pinned (fold (\<lambda>(env, op) s. case op of OpPin c \<Rightarrow> fst (Pin env s c) | OpUnpin c \<Rightarrow> fst (Unpin env s c)) ops s)
     \<subseteq> Collect cidRegex"
  using assms
proof (induction ops arbitrary: s)
  case (Cons x ops)
  obtain env op where x: "x = (env, op)" by fastforce
  let ?s = "case op of OpPin c \<Rightarrow> fst (Pin env s c) | OpUnpin c \<Rightarrow> fst (Unpin env s c)"
  have "pinned ?s \<subseteq> Collect cidRegex"
  proof (cases op)
    case (OpPin c)
    obtain s' r where p: "Pin env s c = (s', r)" by fastforce
    with Cons.prems OpPin show ?thesis
      using pin_ok_valid [of env s c s'] pin_ok [of env s c s'] by (cases r) (auto dest: pin_err)
  next
    case (OpUnpin c)
    obtain s' r where p: "Unpin env s c = (s', r)" by fastforce
    with Cons.prems OpUnpin show ?thesis
      by (cases r) (auto dest: unpin_ok unpin_err)
  qed
  from Cons.IH [OF this] show ?case by (simp add: x)
qed simp

end

end
