(* ===== verification/JsonUtf8.thy ===== *)
theory JsonUtf8
  imports Json
begin

text \<open>
  What the parser of \<open>Json\<close> returns is UTF-8, whatever bytes it is given: escapes stand for scalar
  values, unpaired surrogates and malformed bytes are replaced. A value that was read can therefore always be
  written and read again.
\<close>

section \<open>Pieces of a string\<close>

text \<open>Bytes that can stand before any text without changing whether it is UTF-8.\<close>

definition utf8_piece :: "string \<Rightarrow> bool" where
  "utf8_piece bs \<longleftrightarrow> (\<forall>s. valid_utf8 (bs @ s) \<longleftrightarrow> valid_utf8 s)"

lemma byte_chr [simp]: "byte (chr n) = n mod 256"
  by (simp add: byte_def chr_def)

lemma piece_ascii: "byte c < 128 \<Longrightarrow> utf8_piece [c]"
  by (simp add: utf8_piece_def valid_utf8.simps)

lemma piece_seq:
  assumes "\<And>s. utf8_len (bs @ s) = length bs" "bs \<noteq> []" "\<not> byte (hd bs) < 128"
  shows "utf8_piece bs"
  unfolding utf8_piece_def
proof
  fix s
  obtain c t where bs: "bs = c # t" using assms(2) by (cases bs) auto
  with assms(1) [of s] assms(3) show "valid_utf8 (bs @ s) \<longleftrightarrow> valid_utf8 s" by (simp add: valid_utf8.simps(2))
qed

lemma lead2: "0xC2 \<le> b \<Longrightarrow> b \<le> 0xDF \<Longrightarrow> utf8_len (chr b # c # s) = (if cont 0x80 0xBF c then 2 else 0)"
  by (simp add: utf8_len_def utf8_lead_def)

lemma lead3:
  assumes "0xE0 \<le> b" "b \<le> 0xEF"
  shows "utf8_len (chr b # c # d # s)
    = (if cont (if b = 0xE0 then 0xA0 else 0x80) (if b = 0xED then 0x9F else 0xBF) c \<and> cont 0x80 0xBF d then 3 else 0)"
proof -
  have "utf8_lead b = (if b = 0xE0 then 0xA0 else 0x80, if b = 0xED then 0x9F else 0xBF, 3)"
    using assms by (simp add: utf8_lead_def)
  then show ?thesis using assms by (simp add: utf8_len_def)
qed

lemma lead4:
  assumes "0xF0 \<le> b" "b \<le> 0xF4"
  shows "utf8_len (chr b # c # d # e # s)
    = (if cont (if b = 0xF0 then 0x90 else 0x80) (if b = 0xF4 then 0x8F else 0xBF) c \<and> cont 0x80 0xBF d \<and> cont 0x80 0xBF e then 4 else 0)"
proof -
  have "utf8_lead b = (if b = 0xF0 then 0x90 else 0x80, if b = 0xF4 then 0x8F else 0xBF, 4)"
    using assms by (simp add: utf8_lead_def)
  moreover have "take (4 - 2) (tl (c # d # e # s)) = [d, e]" by simp
  ultimately show ?thesis using assms by (simp add: utf8_len_def)
qed

lemma cont_chr [simp]: "n < 128 \<Longrightarrow> cont lo hi (chr (128 + n)) \<longleftrightarrow> lo \<le> 128 + n \<and> 128 + n \<le> hi"
  by (simp add: cont_def)

lemma mod64 [simp]: "(n :: nat) mod 64 < 128" "(n :: nat) mod 64 \<le> 63"
proof -
  have "n mod 64 < 64" by simp
  then show "n mod 64 < 128" "n mod 64 \<le> 63" by linarith+
qed

lemma split_div_64: "(r :: nat) div 64 = 64 * (r div 4096) + r div 64 mod 64"
proof -
  have "r div 4096 = r div 64 div 64" by (simp flip: div_mult2_eq)
  then show ?thesis by simp
qed

lemma piece_scalar:
  assumes "r < 0x110000" "\<not> (0xD800 \<le> r \<and> r < 0xE000)"
  shows "utf8_piece (utf8_enc r)"
proof -
  consider "r < 0x80" | "0x80 \<le> r" "r < 0x800" | "0x800 \<le> r" "r < 0x10000" | "0x10000 \<le> r" by linarith
  then show ?thesis
  proof cases
    case 1
    then show ?thesis by (simp add: utf8_enc_def piece_ascii)
  next
    case 2
    then have "0xC2 \<le> 0xC0 + r div 64" "0xC0 + r div 64 \<le> 0xDF" by linarith+
    with 2 show ?thesis
      by (intro piece_seq) (simp_all add: utf8_enc_def lead2)
  next
    case 3
    then have b: "0xE0 \<le> 0xE0 + r div 4096" "0xE0 + r div 4096 \<le> 0xEF" by linarith+
    have "r div 64 = 64 * (r div 4096) + r div 64 mod 64" by (rule split_div_64)
    then have "r div 4096 = 0 \<Longrightarrow> 32 \<le> r div 64 mod 64" "r div 4096 = 13 \<Longrightarrow> r div 64 mod 64 \<le> 31"
      using 3 assms(2) by linarith+
    then have "cont (if 0xE0 + r div 4096 = 0xE0 then 0xA0 else 0x80) (if 0xE0 + r div 4096 = 0xED then 0x9F else 0xBF)
        (chr (0x80 + r div 64 mod 64))" by auto
    with lead3 [OF b] 3 b show ?thesis
      by (intro piece_seq) (simp_all add: utf8_enc_def)
  next
    case 4
    then have b: "0xF0 \<le> 0xF0 + r div 262144" "0xF0 + r div 262144 \<le> 0xF4" using assms(1) by linarith+
    have "r div 4096 = 64 * (r div 262144) + r div 4096 mod 64" using split_div_64 [of "r div 64"] by (simp flip: div_mult2_eq)
    then have "r div 262144 = 0 \<Longrightarrow> 16 \<le> r div 4096 mod 64" "r div 262144 = 4 \<Longrightarrow> r div 4096 mod 64 \<le> 15"
      using 4 assms(1) by linarith+
    then have "cont (if 0xF0 + r div 262144 = 0xF0 then 0x90 else 0x80) (if 0xF0 + r div 262144 = 0xF4 then 0x8F else 0xBF)
        (chr (0x80 + r div 4096 mod 64))" by auto
    with lead4 [OF b] 4 b show ?thesis
      by (intro piece_seq) (simp_all add: utf8_enc_def)
  qed
qed

lemma piece_repl: "utf8_piece repl"
proof -
  have "chr 0xEF = CHR 0xEF" "chr 0xBF = CHR 0xBF" "chr 0xBD = CHR 0xBD" by (simp_all add: chr_eq byte_def)
  then have "repl = utf8_enc 0xFFFD" by (simp add: repl_def utf8_enc_def)
  then show ?thesis using piece_scalar [of "0xFFFD"] by simp
qed

lemma hex_val_lt: "hex_val c = Some n \<Longrightarrow> n < 16"
  by (auto simp: hex_val_def is_digit_def in_range_def less_eq_char_def byte_def split: if_splits)

lemma hex4_lt: "hex4 s = Some (u, t) \<Longrightarrow> u < 0x10000"
proof (induction s rule: hex4.induct)
  case (1 a b c d s)
  then obtain w x y z where "hex_val a = Some w" "hex_val b = Some x" "hex_val c = Some y" "hex_val d = Some z"
    "u = ((w * 16 + x) * 16 + y) * 16 + z" by (auto split: option.splits)
  with hex_val_lt [of a w] hex_val_lt [of b x] hex_val_lt [of c y] hex_val_lt [of d z] show ?case by simp
qed simp_all

lemma piece_unit:
  assumes "u < 0x10000"
  shows "utf8_piece (fst (unit_bytes u t))"
proof -
  have "utf8_piece (utf8_enc (0x10000 + (u - 0xD800) * 1024 + (v - 0xDC00)))"
    if "0xD800 \<le> u" "u < 0xDC00" "low_surrogate v" for v
    by (rule piece_scalar) (use that in \<open>auto simp: low_surrogate_def\<close>)
  with assms piece_repl piece_scalar [of u] show ?thesis
    by (auto simp: unit_bytes_def split: option.splits)
qed

lemma piece_take:
  assumes "utf8_len x \<noteq> 0" "\<not> byte (hd x) < 128"
  shows "utf8_piece (take (utf8_len x) x)"
proof (rule piece_seq)
  show "utf8_len (take (utf8_len x) x @ s) = length (take (utf8_len x) x)" for s
    using utf8_len_append [OF assms(1)] utf8_len_bounds [of x] by simp
  show "take (utf8_len x) x \<noteq> []" using assms(1) utf8_len_bounds [of x] by (cases x) auto
  then show "\<not> byte (hd (take (utf8_len x) x)) < 128" using assms by (simp add: hd_take)
qed

lemma emit_utf8:
  assumes "emit bs r = Some (v, t)" "utf8_piece bs" "\<And>w. r = Some (w, t) \<Longrightarrow> valid_utf8 w"
  shows "valid_utf8 v"
  using assms by (auto simp: emit_Some utf8_piece_def)

lemma simple_escape_ascii: "simple_escape e = Some x \<Longrightarrow> byte x < 128"
  by (auto simp: simple_escape_def byte_def split: if_splits)

lemma parse_str_utf8: "parse_str s = Some (v, t) \<Longrightarrow> valid_utf8 v"
proof (induction s arbitrary: v t rule: parse_str.induct)
  case (2 c s)
  show ?case
  proof (cases "c = CHR 0x22")
    case True
    with "2.prems" show ?thesis by (simp add: parse_str.simps valid_utf8.simps)
  next
    case q: False
    show ?thesis
    proof (cases "c = CHR 0x5C")
      case bs: True
      with q "2.prems" obtain e s' where s: "s = e # s'" by (auto simp: parse_str.simps split: list.splits)
      show ?thesis
      proof (cases "e = CHR ''u''")
        case True
        with q bs s "2.prems" obtain u t0 where h: "hex4 s' = Some (u, t0)"
          and p: "emit (fst (unit_bytes u t0)) (parse_str (snd (unit_bytes u t0))) = Some (v, t)"
          by (auto simp: parse_str.simps(2) split: option.splits)
        show ?thesis by (rule emit_utf8 [OF p piece_unit [OF hex4_lt [OF h]]]) (rule "2.IH"(1) [OF q bs s True h refl])
      next
        case False
        with q bs s "2.prems" obtain x where h: "simple_escape e = Some x" and p: "emit [x] (parse_str s') = Some (v, t)"
          by (auto simp: parse_str.simps(2) split: option.splits)
        show ?thesis by (rule emit_utf8 [OF p piece_ascii [OF simple_escape_ascii [OF h]]]) (rule "2.IH"(2) [OF q bs s False h])
      qed
    next
      case b: False
      with q "2.prems" have l: "\<not> byte c < 32" by (auto simp: parse_str.simps(2))
      show ?thesis
      proof (cases "byte c < 128")
        case True
        with q b l "2.prems" have p: "emit [c] (parse_str s) = Some (v, t)" by (simp add: parse_str.simps(2))
        show ?thesis by (rule emit_utf8 [OF p piece_ascii [OF True]]) (rule "2.IH"(3) [OF q b l True])
      next
        case h: False
        show ?thesis
        proof (cases "utf8_len (c # s) = 0")
          case True
          with q b l h "2.prems" have p: "emit repl (parse_str s) = Some (v, t)" by (simp add: parse_str.simps(2))
          show ?thesis by (rule emit_utf8 [OF p piece_repl]) (rule "2.IH"(4) [OF q b l h True])
        next
          case n: False
          with q b l h "2.prems" have p: "emit (take (utf8_len (c # s)) (c # s)) (parse_str (drop (utf8_len (c # s)) (c # s))) = Some (v, t)"
            by (simp add: parse_str.simps(2))
          show ?thesis by (rule emit_utf8 [OF p piece_take [OF n]]) (use h "2.IH"(5) [OF q b l h n] in auto)
        qed
      qed
    qed
  qed
qed (simp add: parse_str.simps)

section \<open>Values\<close>

fun utf8_value :: "json \<Rightarrow> bool" where
  "utf8_value (JStr s) = valid_utf8 s"
| "utf8_value (JArr vs) = list_all utf8_value vs"
| "utf8_value (JObj ms) = list_all (\<lambda>(k, v). valid_utf8 k \<and> utf8_value v) ms"
| "utf8_value _ = True"

lemma parse_utf8:
  "parse_value d s = Some (v, r) \<Longrightarrow> utf8_value v"
  "parse_elems d s = Some (vs, r) \<Longrightarrow> list_all utf8_value vs"
  "parse_members d s = Some (ms, r) \<Longrightarrow> list_all (\<lambda>(k, v). valid_utf8 k \<and> utf8_value v) ms"
proof (induction d s and d s and d s arbitrary: v r and vs r and ms r
    rule: parse_value_parse_elems_parse_members.induct)
  case (1 d s)
  obtain c t where ct: "skip_ws s = c # t"
    using "1.prems" by (auto simp: parse_value.simps split: list.splits)
  note lt = skip_ws_Cons [OF ct]
  have el: "list_all utf8_value vs" if "parse_elems (d - 1) t = Some (vs, r)" "c = CHR ''[''" "\<not> d \<le> 0"
      "\<not> HasPrefix (skip_ws t) '']''" for vs
    using "1.IH"(1) [OF ct] that lt by blast
  have me: "list_all (\<lambda>(k, v). valid_utf8 k \<and> utf8_value v) ms" if "parse_members (d - 1) t = Some (ms, r)" "c = CHR 0x7B" "\<not> d \<le> 0"
      "\<not> HasPrefix (skip_ws t) [CHR 0x7D]" for ms
    using "1.IH"(2) [OF ct] that lt by fastforce
  show ?case
    using "1.prems" ct lt
    by (auto simp: parse_value.simps split: if_splits dest: el me parse_str_utf8)
next
  case (2 d s)
  obtain v' r' c t where v: "parse_value d s = Some (v', r')" and ct: "skip_ws r' = c # t"
    using "2.prems" by (auto simp: parse_elems.simps split: option.splits list.splits)
  show ?case
    using "2.prems" v ct "2.IH"(1) [OF v] "2.IH"(2) [OF v refl ct]
    by (auto simp: parse_elems.simps split: if_splits)
next
  case (3 d s)
  obtain t k r' u v' x c w where a: "skip_ws s = CHR 0x22 # t" "parse_str t = Some (k, r')"
      "skip_ws r' = CHR '':'' # u" "parse_value d u = Some (v', x)" "skip_ws x = c # w"
    using "3.prems" by (auto simp: parse_members.simps split: option.splits list.splits if_splits)
  note l = skip_ws_Cons [OF a(1)] parse_str_length [OF a(2)] skip_ws_Cons [OF a(3)] skip_ws_Cons [OF a(5)]
  have x: "length x < length u" by (rule parse_shorter(1) [OF a(4)])
  have v: "utf8_value v'" using "3.IH"(1) [OF a(1) _ a(2) refl a(3)] a(4) l by simp
  have "list_all (\<lambda>(k, v). valid_utf8 k \<and> utf8_value v) ms'" if "parse_members d w = Some (ms', r)" "c = CHR '',''" for ms'
    using "3.IH"(2) [OF a(1) _ a(2) refl a(3) _ a(4) refl a(5)] that l x by simp
  with "3.prems" a v parse_str_utf8 [OF a(2)] show ?case
    by (auto simp: parse_members_unguarded [OF a] split: if_splits)
qed

lemma parse_json_utf8: "parse_json s = Some v \<Longrightarrow> utf8_value v"
  by (auto simp: parse_json_def split: option.splits if_splits dest: parse_utf8)

section \<open>Decoding\<close>

lemma decode_all_list:
  "decode_all f xs = Some ys \<Longrightarrow> list_all P xs \<Longrightarrow> (\<And>x y. P x \<Longrightarrow> f x = Some y \<Longrightarrow> Q y) \<Longrightarrow> list_all Q ys"
  by (induction xs arbitrary: ys) (auto split: option.splits)

lemma unmarshal_strings_utf8:
  assumes "unmarshal_strings d = Some xs"
  shows "list_all valid_utf8 xs"
proof -
  obtain v where v: "parse_json d = Some v" "decode_strings v = Some xs"
    using assms by (auto simp: unmarshal_strings_def split: option.splits)
  have "valid_utf8 y" if "utf8_value x" "decode_string x = Some y" for x y
    using that by (cases x) (auto simp: valid_utf8.simps)
  then show ?thesis using parse_json_utf8 [OF v(1)] v(2)
    by (cases v) (auto elim: decode_all_list)
qed

lemma into_string_utf8: "into_string v old = Some s \<Longrightarrow> utf8_value v \<Longrightarrow> valid_utf8 old \<Longrightarrow> valid_utf8 s"
  by (cases v) auto

lemma fold_members_inv:
  "fold_members f ms x = Some y \<Longrightarrow> I x \<Longrightarrow> list_all P ms \<Longrightarrow> (\<And>m x y. f m x = Some y \<Longrightarrow> I x \<Longrightarrow> P m \<Longrightarrow> I y) \<Longrightarrow> I y"
  by (induction ms arbitrary: x) (auto split: option.splits)

declare byte_chr [simp del] cont_chr [simp del] mod64 [simp del]

end
