(* ===== verification/EmbeddedNode.thy ===== *)
theory EmbeddedNode
  imports Backend AtomicFile JsonUtf8
begin

text \<open>
  \<open>ipfsnode.go\<close>, one call at a time: the pin set of an \<open>EmbeddedNode\<close> with its state file
  \<open>pins.json\<close>, and the operations \<open>Pin\<close>, \<open>markPinned\<close>, \<open>Unpin\<close>, \<open>IsPinned\<close>, \<open>PinnedCIDs\<close>,
  \<open>savePins\<close> and \<open>loadPins\<close>. Concurrent calls, \<open>Drain\<close> and \<open>Close\<close> are in \<open>PinLifecycle\<close>.
  bitswap, the CAR chain and go-cid are third-party: what they answer during one call is the
  record \<open>fetch_env\<close>. The iteration order Go picks for the map \<open>pins\<close> is a function \<open>ord\<close>.
\<close>

section \<open>State\<close>

datatype node_err =
    CidErr cid_err
  | ErrPinnerShuttingDown
  | DecodingCID string
  | FetchingDAG string
  | DAGIncomplete string

text \<open>\<open>pins\<close> is the key set of the Go map, all of whose values are \<open>true\<close>.\<close>

record node =
  pins :: "string set"
  pinFile :: path
  done_closed :: bool
  files :: fs

text \<open>What the libraries answer: whether go-cid decodes the string, whether bitswap's
  \<open>FetchGraph\<close>, the CAR chain and the offline re-walk succeed.\<close>

record fetch_env =
  decodes :: "string \<Rightarrow> bool"
  bitswap_fetch :: "string \<Rightarrow> bool"
  car_fetch :: "string \<Rightarrow> bool"
  offline_walk :: "string \<Rightarrow> bool"

type_synonym map_order = "string set \<Rightarrow> string list"

text \<open>A possible iteration order of a Go map: every key once.\<close>

definition iterates :: "map_order \<Rightarrow> bool" where
  "iterates ord \<longleftrightarrow> (\<forall>A. finite A \<longrightarrow> set (ord A) = A \<and> distinct (ord A))"

section \<open>Operations\<close>

definition savePins :: "map_order \<Rightarrow> io_plan \<Rightarrow> node \<Rightarrow> node" where
  "savePins ord pl n =
     (let cids = ord (pins n);
          data = marshal_strings cids
      in n\<lparr>files := fst (atomicWriteFile pl (files n) (pinFile n) data)\<rparr>)"

definition markPinned :: "map_order \<Rightarrow> io_plan \<Rightarrow> string \<Rightarrow> node \<Rightarrow> node" where
  "markPinned ord pl cidStr n = savePins ord pl (n\<lparr>pins := insert cidStr (pins n)\<rparr>)"

definition node_Pin :: "fetch_env \<times> map_order \<times> io_plan \<Rightarrow> node \<Rightarrow> string \<Rightarrow> node \<times> node_err option" where
  "node_Pin env n cidStr = (case env of (fe, ord, pl) \<Rightarrow>
     if done_closed n then (n, Some ErrPinnerShuttingDown)
     else (case ValidateCID cidStr of
        Some e \<Rightarrow> (n, Some (CidErr e))
      | None \<Rightarrow>
          if \<not> decodes fe cidStr then (n, Some (DecodingCID cidStr))
          else if bitswap_fetch fe cidStr then (markPinned ord pl cidStr n, None)
          else if \<not> car_fetch fe cidStr then (n, Some (FetchingDAG cidStr))
          else if \<not> offline_walk fe cidStr then (n, Some (DAGIncomplete cidStr))
          else (markPinned ord pl cidStr n, None)))"

definition node_Unpin :: "fetch_env \<times> map_order \<times> io_plan \<Rightarrow> node \<Rightarrow> string \<Rightarrow> node \<times> node_err option" where
  "node_Unpin env n cidStr = (case env of (fe, ord, pl) \<Rightarrow>
     (case ValidateCID cidStr of
        Some e \<Rightarrow> (n, Some (CidErr e))
      | None \<Rightarrow> (savePins ord pl (n\<lparr>pins := pins n - {cidStr}\<rparr>), None)))"

definition node_IsPinned :: "'env \<Rightarrow> node \<Rightarrow> string \<Rightarrow> node_err + bool" where
  "node_IsPinned env n cidStr = (case ValidateCID cidStr of
     Some e \<Rightarrow> Inl (CidErr e)
   | None \<Rightarrow> Inr (cidStr \<in> pins n))"

definition node_PinnedCIDs :: "map_order \<Rightarrow> node \<Rightarrow> string list" where
  "node_PinnedCIDs ord n = ord (pins n)"

datatype load_err = NotExist | BadJSON

text \<open>\<open>loadPins\<close> adds the file's CIDs to the map; a file that cannot be read or parsed leaves it alone.\<close>

definition loadPins :: "node \<Rightarrow> node \<times> load_err option" where
  "loadPins n = (case read_file (files n) (pinFile n) of
     None \<Rightarrow> (n, Some NotExist)
   | Some data \<Rightarrow> (case unmarshal_strings data of
        None \<Rightarrow> (n, Some BadJSON)
      | Some cids \<Rightarrow> (n\<lparr>pins := pins n \<union> set cids\<rparr>, None)))"

text \<open>The part of \<open>NewEmbeddedNode\<close> that sets up the pin set: an empty map, then \<open>loadPins\<close>, whose
  error is only logged.\<close>

definition open_node :: "fs \<Rightarrow> path \<Rightarrow> node" where
  "open_node f path = fst (loadPins \<lparr>pins = {}, pinFile = path, done_closed = False, files = f\<rparr>)"

section \<open>Facts\<close>

lemma savePins_sel [simp]:
  "pins (savePins ord pl n) = pins n" "pinFile (savePins ord pl n) = pinFile n"
  "done_closed (savePins ord pl n) = done_closed n"
  by (simp_all add: savePins_def Let_def)

lemma markPinned_sel [simp]:
  "pins (markPinned ord pl c n) = insert c (pins n)" "pinFile (markPinned ord pl c n) = pinFile n"
  "done_closed (markPinned ord pl c n) = done_closed n"
  by (simp_all add: markPinned_def)

lemma alnum_ascii: "is_alnum c \<Longrightarrow> byte c < 128"
  by (auto simp: is_alnum_def is_upper_def is_lower_def is_digit_def in_range_def less_eq_char_def byte_def)

lemma cid_valid_utf8: "cidRegex c \<Longrightarrow> valid_utf8 c"
  by (rule ascii_valid_utf8) (use cidRegex_alnum alnum_ascii in blast)

lemma savePins_file:
  assumes "fs_wf (files n)" "atomicWriteFile pl (files n) (pinFile n) (marshal_strings (ord (pins n))) = (f, None)"
  shows "read_file (files (savePins ord pl n)) (pinFile n) = Some (marshal_strings (ord (pins n)))"
  using awf.store_ok [OF assms] assms(2) by (simp add: savePins_def)

lemma savePins_wf: "fs_wf (files n) \<Longrightarrow> fs_wf (files (savePins ord pl n))"
  by (simp add: savePins_def Let_def awf.store_wf [OF _ surjective_pairing])

interpretation node: ipfs_backend node_Pin node_Unpin node_IsPinned
  by unfold_locales
     (auto simp: node_Pin_def node_Unpin_def node_IsPinned_def split: prod.splits option.splits)

interpretation node: pin_set_backend node_Pin node_Unpin node_IsPinned pins
  by unfold_locales
     (auto simp: node_Pin_def node_Unpin_def node_IsPinned_def split: prod.splits option.splits if_splits)

section \<open>A history of calls\<close>

text \<open>Calls made one after the other, each with what the libraries answer to it, every save
  succeeding.\<close>

definition node_call :: "map_order \<Rightarrow> fetch_env \<times> backend_op \<Rightarrow> node \<Rightarrow> node" where
  "node_call ord e n = (case e of
     (fe, OpPin c) \<Rightarrow> fst (node_Pin (fe, ord, plan_ok) n c)
   | (fe, OpUnpin c) \<Rightarrow> fst (node_Unpin (fe, ord, plan_ok) n c))"

definition node_calls :: "map_order \<Rightarrow> (fetch_env \<times> backend_op) list \<Rightarrow> node \<Rightarrow> node" where
  "node_calls ord es n = fold (node_call ord) es n"

text \<open>The specification of the same history: a set of CIDs.\<close>

definition pin_succeeds :: "fetch_env \<Rightarrow> string \<Rightarrow> bool" where
  "pin_succeeds fe c \<longleftrightarrow> c \<in> cid_language \<and> decodes fe c
     \<and> (bitswap_fetch fe c \<or> car_fetch fe c \<and> offline_walk fe c)"

definition spec_call :: "fetch_env \<times> backend_op \<Rightarrow> string set \<Rightarrow> string set" where
  "spec_call e A = (case e of
     (fe, OpPin c) \<Rightarrow> if pin_succeeds fe c then insert c A else A
   | (fe, OpUnpin c) \<Rightarrow> if c \<in> cid_language then A - {c} else A)"

lemma node_call_pins:
  "\<not> done_closed n \<Longrightarrow> pins (node_call ord e n) = spec_call e (pins n)"
  by (cases e)
     (auto simp: node_call_def spec_call_def node_Pin_def node_Unpin_def pin_succeeds_def
        cidRegex_language split: backend_op.splits option.splits)

lemma node_call_sel [simp]:
  "done_closed (node_call ord e n) = done_closed n" "pinFile (node_call ord e n) = pinFile n"
  by (auto simp: node_call_def node_Pin_def node_Unpin_def split: prod.splits backend_op.splits option.splits)

text \<open>Between calls the file is a JSON array of the pin set, or there have been no changes since
  the node was opened: a restart would load exactly the pins.\<close>

definition in_sync :: "node \<Rightarrow> bool" where
  "in_sync n \<longleftrightarrow> fs_wf (files n) \<and> finite (pins n) \<and> (\<forall>c \<in> pins n. valid_utf8 c)
     \<and> pins (open_node (files n) (pinFile n)) = pins n"

lemma open_node_pins: "pins (open_node f p) =
   (case read_file f p of None \<Rightarrow> {} | Some d \<Rightarrow>
      (case unmarshal_strings d of None \<Rightarrow> {} | Some cids \<Rightarrow> set cids))"
  by (simp add: open_node_def loadPins_def split: option.splits)

lemma open_node_sel [simp]: "pinFile (open_node f p) = p" "files (open_node f p) = f"
  "done_closed (open_node f p) = False"
  by (simp_all add: open_node_def loadPins_def split: option.splits)

lemma iterates_D: "iterates ord \<Longrightarrow> finite A \<Longrightarrow> set (ord A) = A"
  by (simp add: iterates_def)

lemma savePins_in_sync:
  assumes "iterates ord" "fs_wf (files n)" "finite (pins n)" "\<forall>c \<in> pins n. valid_utf8 c"
  shows "in_sync (savePins ord plan_ok n)"
proof -
  have o: "set (ord (pins n)) = pins n" by (rule iterates_D [OF assms(1,3)])
  obtain f where f: "atomicWriteFile plan_ok (files n) (pinFile n) (marshal_strings (ord (pins n))) = (f, None)"
    using plan_ok_succeeds by (metis prod.collapse)
  have "unmarshal_strings (marshal_strings (ord (pins n))) = Some (ord (pins n))"
    by (rule unmarshal_marshal_strings) (simp add: list_all_iff o assms(4))
  then show ?thesis
    using assms savePins_file [where ord = ord and pl = plan_ok, OF assms(2) f] o
    by (simp add: in_sync_def savePins_wf open_node_pins)
qed

lemma node_call_in_sync:
  assumes "iterates ord" "in_sync n"
  shows "in_sync (node_call ord e n)"
proof -
  from assms(2) have n: "fs_wf (files n)" "finite (pins n)" "\<forall>c \<in> pins n. valid_utf8 c"
    by (simp_all add: in_sync_def)
  show ?thesis
    using assms n
    by (auto simp: node_call_def node_Pin_def node_Unpin_def markPinned_def cid_valid_utf8
        intro!: savePins_in_sync split: prod.splits backend_op.splits option.splits)
qed

lemma open_node_in_sync:
  assumes "fs_wf f"
  shows "in_sync (open_node f p)"
  using assms by (auto simp: in_sync_def open_node_pins list_all_iff dest: unmarshal_strings_utf8 split: option.splits)

text \<open>Concrete answers and a concrete map order for instances.\<close>

definition fetch_all :: fetch_env where
  "fetch_all = \<lparr>decodes = (\<lambda>_. True), bitswap_fetch = (\<lambda>_. True), car_fetch = (\<lambda>_. True),
     offline_walk = (\<lambda>_. True)\<rparr>"

lemma iterates_sorted: "iterates sorted_list_of_set"
  by (simp add: iterates_def)

lemma open_node_empty: "pins (open_node empty_fs p) = {}"
  by (simp add: open_node_pins read_file_def empty_fs_def)

section \<open>Properties\<close>

text \<open>
  C1: the pin set is exactly what the specification says after any history of \<open>Pin\<close> and
  \<open>Unpin\<close> calls on a node that has not been told to shut down: a CID is added when it has the
  shape of a CID, go-cid decodes it and either bitswap fetched its whole graph or the CAR chain
  did and the offline walk confirmed it; an \<open>Unpin\<close> of a well-formed CID removes it; nothing else
  changes the set.
\<close>

theorem node_refines_pin_set:
  assumes "\<not> done_closed n"
  shows "pins (node_calls ord es n) = fold spec_call es (pins n)"
  using assms unfolding node_calls_def
  by (induction es arbitrary: n) (simp_all add: node_call_pins)

theorem node_refines_pin_set_witness:
  "pins (node_calls sorted_list_of_set [(fetch_all, OpPin sample_v0), (fetch_all, OpPin sample_v1),
      (fetch_all, OpUnpin sample_v0)] (open_node empty_fs ''pins.json'')) = {sample_v1}"
proof -
  have "\<not> done_closed (open_node empty_fs ''pins.json'')" by simp
  from node_refines_pin_set [OF this, of sorted_list_of_set
      "[(fetch_all, OpPin sample_v0), (fetch_all, OpPin sample_v1), (fetch_all, OpUnpin sample_v0)]"]
  show ?thesis
    by (simp add: spec_call_def pin_succeeds_def fetch_all_def open_node_empty insert_Diff_if
        flip: cidRegex_language)
qed

text \<open>
  A restart finds the pins it left. Open a node on any well-formed file system, run any
  history of \<open>Pin\<close> and \<open>Unpin\<close> calls whose saves succeed, in whatever order Go iterates the map,
  and open a node on the resulting files: \<open>loadPins\<close> reads back the same set.
\<close>

theorem pins_survive_restart:
  assumes "fs_wf f" "iterates ord"
  shows "pins (open_node (files (node_calls ord es (open_node f path))) path)
       = pins (node_calls ord es (open_node f path))"
proof -
  let ?n = "open_node f path"
  have "in_sync (fold (node_call ord) es n) \<and> pinFile (fold (node_call ord) es n) = pinFile n"
    if "in_sync n" for n
    using that by (induction es arbitrary: n) (simp_all add: node_call_in_sync [OF assms(2)])
  from this [OF open_node_in_sync [OF assms(1)]] show ?thesis
    unfolding in_sync_def node_calls_def by (metis open_node_sel(1))
qed

theorem pins_survive_restart_witness:
  "pins (open_node (files (node_calls sorted_list_of_set [(fetch_all, OpPin sample_v0)]
       (open_node empty_fs ''pins.json''))) ''pins.json'')
   = pins (node_calls sorted_list_of_set [(fetch_all, OpPin sample_v0)] (open_node empty_fs ''pins.json''))"
  by (rule pins_survive_restart [OF fs_wf_empty iterates_sorted])

text \<open>
  C40: two saves that overlap can cost the whole pin set. One call saves \<open>[a, b]\<close>, the other
  \<open>[a]\<close>, both to \<open>pins.json\<close>, interleaved without any input/output error: the first save reports
  success, and the next start finds a file it cannot parse and begins with no pins at all.
\<close>

theorem overlapping_saves_lose_pins:
  assumes "cidRegex a" "cidRegex b"
    "data 0 = marshal_strings [a, b]" "data 1 = marshal_strings [a]"
    "writers_run path data tear_schedule s = (s', pcs)"
  shows "pcs 0 = WDone None \<and> pins (open_node s' path) = {}"
proof -
  have d: "data 0 = ''['' @ nl 1 @ quote a @ '','' @ nl 1 @ quote b @ nl 0 @ '']''"
    "data 1 = render 0 (JArr [JStr a])"
    "data 1 = ''['' @ nl 1 @ quote a @ nl 0 @ '']''"
    using assms(3,4) by (simp_all add: marshal_strings_def MarshalIndent_def)
  have "drop (length (data 1)) (data 0) = tl (nl 1) @ quote b @ nl 0 @ '']''"
    unfolding d(1,3) by (simp add: nl_def)
  then have r: "read_file s' path = Some (render 0 (JArr [JStr a]) @ tl (nl 1) @ quote b @ nl 0 @ '']'')"
    and p: "pcs 0 = WDone None"
    using tear_outcome(1,2) [OF assms(5)] d(2) by simp_all
  have "storable max_depth (JArr [JStr a])"
    by (simp add: max_depth_def cid_valid_utf8 assms(1))
  from parse_render(1) [OF this, of 0] have "unmarshal_strings (the (read_file s' path)) = None"
    by (simp add: r unmarshal_strings_def parse_json_def nl_def quote_def skip_ws_def is_ws_def)
  with p show ?thesis by (simp add: open_node_pins r)
qed

theorem overlapping_saves_lose_pins_witness:
  "\<exists>data s' pcs. writers_run ''pins.json'' data tear_schedule empty_fs = (s', pcs)
     \<and> pcs 0 = WDone None \<and> pins (open_node s' ''pins.json'') = {}"
proof -
  let ?data = "\<lambda>w :: nat. if w = 0 then marshal_strings [sample_v0, sample_v1] else marshal_strings [sample_v0]"
  obtain s' pcs where w: "writers_run ''pins.json'' ?data tear_schedule empty_fs = (s', pcs)" by fastforce
  from overlapping_saves_lose_pins [OF sample_v0_valid sample_v1_valid _ _ w] w show ?thesis by auto
qed


end
