(* ===== verification/PinLifecycle.thy ===== *)
theory PinLifecycle
  imports EmbeddedNode "HOL-Library.Word"
begin

text \<open>
  \<open>ipfsnode.go\<close>, concurrently: any number of \<open>Pin\<close> and \<open>Unpin\<close> calls, \<open>Drain\<close> and \<open>Close\<close> run
  interleaved. One rule of \<open>sys_step\<close> per section that the code runs under one lock or as one
  call of a library; a save of \<open>pins.json\<close> advances one system call at a time, so two saves can
  interleave. The drain gate, the \<open>WaitGroup\<close> counter, the cancel table and the 64-bit call
  counter are as in the code.
\<close>

section \<open>State\<close>

type_synonym pin_id = "64 word"

text \<open>Where a \<open>Pin\<close> call is between its admission and its return.\<close>

datatype stage =
    Entered
  | Fetching
  | Fallback
  | Walking
  | Marking
  | Snapshotting
  | Saving bytes wpc
  | Leaving "node_err option"
  | Unregistered "node_err option"

text \<open>\<open>calls\<close> holds the running \<open>Pin\<close> calls, \<open>unpins\<close> the running \<open>Unpin\<close> calls after their
  deletion. \<open>cancels\<close> is the key set of the Go map, \<open>cancelled\<close> the contexts \<open>Drain\<close> has cancelled.
  \<open>fetched\<close> records for which CIDs a complete, verified graph has been reported; it is history
  only, no rule reads it.\<close>

record sys = node +
  inFlight :: int
  cancels :: "pin_id set"
  nextPinID :: pin_id
  cancelled :: "pin_id set"
  calls :: "pin_id \<rightharpoonup> string \<times> stage"
  unpins :: "nat \<rightharpoonup> stage"
  draining :: bool
  drained :: bool
  timed_out :: bool
  fetched :: "string set"

definition start_sys :: "node \<Rightarrow> sys" where
  "start_sys n = \<lparr>pins = pins n, pinFile = pinFile n, done_closed = False, files = files n,
     inFlight = 0, cancels = {}, nextPinID = 0, cancelled = {}, calls = Map.empty,
     unpins = Map.empty, draining = False, drained = False, timed_out = False, fetched = {}\<rparr>"

datatype event =
    PinRejected string
  | PinEnter pin_id string
  | PinStep pin_id
  | PinMarked pin_id string
  | PinReturn pin_id "node_err option"
  | UnpinRejected string
  | UnpinDelete nat string
  | UnpinStep nat
  | UnpinReturn nat
  | DrainBegin
  | DrainDone
  | DrainTimeout
  | CloseBegin

definition goto :: "pin_id \<Rightarrow> string \<Rightarrow> stage \<Rightarrow> sys \<Rightarrow> sys" where
  "goto i c g s = s\<lparr>calls := (calls s)(i \<mapsto> (c, g))\<rparr>"

section \<open>Steps\<close>

inductive sys_step :: "sys \<Rightarrow> event \<Rightarrow> sys \<Rightarrow> bool" where
  pin_rejected: "done_closed s \<Longrightarrow> sys_step s (PinRejected c) s"
| pin_enter: "\<not> done_closed s \<Longrightarrow> i = nextPinID s + 1 \<Longrightarrow>
    sys_step s (PinEnter i c)
      (s\<lparr>inFlight := inFlight s + 1, nextPinID := i, cancels := insert i (cancels s),
         calls := (calls s)(i \<mapsto> (c, Entered))\<rparr>)"
| pin_invalid: "calls s i = Some (c, Entered) \<Longrightarrow> ValidateCID c = Some e \<Longrightarrow>
    sys_step s (PinStep i) (goto i c (Leaving (Some (CidErr e))) s)"
| pin_undecodable: "calls s i = Some (c, Entered) \<Longrightarrow> ValidateCID c = None \<Longrightarrow>
    sys_step s (PinStep i) (goto i c (Leaving (Some (DecodingCID c))) s)"
| pin_decoded: "calls s i = Some (c, Entered) \<Longrightarrow> ValidateCID c = None \<Longrightarrow>
    sys_step s (PinStep i) (goto i c Fetching s)"
| bitswap_ok: "calls s i = Some (c, Fetching) \<Longrightarrow>
    sys_step s (PinStep i) ((goto i c Marking s)\<lparr>fetched := insert c (fetched s)\<rparr>)"
| bitswap_err: "calls s i = Some (c, Fetching) \<Longrightarrow>
    sys_step s (PinStep i) (goto i c Fallback s)"
| car_err: "calls s i = Some (c, Fallback) \<Longrightarrow>
    sys_step s (PinStep i) (goto i c (Leaving (Some (FetchingDAG c))) s)"
| car_ok: "calls s i = Some (c, Fallback) \<Longrightarrow>
    sys_step s (PinStep i) (goto i c Walking s)"
| walk_err: "calls s i = Some (c, Walking) \<Longrightarrow>
    sys_step s (PinStep i) (goto i c (Leaving (Some (DAGIncomplete c))) s)"
| walk_ok: "calls s i = Some (c, Walking) \<Longrightarrow>
    sys_step s (PinStep i) ((goto i c Marking s)\<lparr>fetched := insert c (fetched s)\<rparr>)"
| mark: "calls s i = Some (c, Marking) \<Longrightarrow>
    sys_step s (PinMarked i c) ((goto i c Snapshotting s)\<lparr>pins := insert c (pins s)\<rparr>)"
| snapshot: "calls s i = Some (c, Snapshotting) \<Longrightarrow> set cids = pins s \<Longrightarrow> distinct cids \<Longrightarrow>
    sys_step s (PinStep i) (goto i c (Saving (marshal_strings cids) WOpen) s)"
| save_call: "calls s i = Some (c, Saving d pc) \<Longrightarrow> \<nexists>res. pc = WDone res \<Longrightarrow>
    awf_step (pinFile s) d r (files s, pc) = (f', pc') \<Longrightarrow>
    sys_step s (PinStep i) ((goto i c (Saving d pc') s)\<lparr>files := f'\<rparr>)"
| save_done: "calls s i = Some (c, Saving d (WDone res)) \<Longrightarrow>
    sys_step s (PinStep i) (goto i c (Leaving None) s)"
| deregister: "calls s i = Some (c, Leaving r) \<Longrightarrow>
    sys_step s (PinStep i) ((goto i c (Unregistered r) s)\<lparr>cancels := cancels s - {i}\<rparr>)"
| finish: "calls s i = Some (c, Unregistered r) \<Longrightarrow>
    sys_step s (PinReturn i r) (s\<lparr>inFlight := inFlight s - 1, calls := (calls s)(i := None)\<rparr>)"
| unpin_rejected: "ValidateCID c = Some e \<Longrightarrow> sys_step s (UnpinRejected c) s"
| unpin_delete: "ValidateCID c = None \<Longrightarrow> unpins s u = None \<Longrightarrow>
    sys_step s (UnpinDelete u c) (s\<lparr>pins := pins s - {c}, unpins := (unpins s)(u \<mapsto> Snapshotting)\<rparr>)"
| unpin_snapshot: "unpins s u = Some Snapshotting \<Longrightarrow> set cids = pins s \<Longrightarrow> distinct cids \<Longrightarrow>
    sys_step s (UnpinStep u) (s\<lparr>unpins := (unpins s)(u \<mapsto> Saving (marshal_strings cids) WOpen)\<rparr>)"
| unpin_save_call: "unpins s u = Some (Saving d pc) \<Longrightarrow> \<nexists>res. pc = WDone res \<Longrightarrow>
    awf_step (pinFile s) d r (files s, pc) = (f', pc') \<Longrightarrow>
    sys_step s (UnpinStep u) (s\<lparr>unpins := (unpins s)(u \<mapsto> Saving d pc'), files := f'\<rparr>)"
| unpin_finish: "unpins s u = Some (Saving d (WDone res)) \<Longrightarrow>
    sys_step s (UnpinReturn u) (s\<lparr>unpins := (unpins s)(u := None)\<rparr>)"
| drain_begin: "sys_step s DrainBegin (s\<lparr>done_closed := True, draining := True\<rparr>)"
| drain_done: "draining s \<Longrightarrow> inFlight s = 0 \<Longrightarrow> sys_step s DrainDone (s\<lparr>drained := True\<rparr>)"
| drain_timeout: "draining s \<Longrightarrow>
    sys_step s DrainTimeout (s\<lparr>cancelled := cancelled s \<union> cancels s, timed_out := True\<rparr>)"
| close_begin: "sys_step s CloseBegin (s\<lparr>done_closed := True\<rparr>)"

inductive_cases pin_enter_cases: "sys_step s (PinEnter i c) t"
inductive_cases pin_marked_cases: "sys_step s (PinMarked i c) t"
inductive_simps pin_return_iff: "sys_step s (PinReturn i r) t"

lemma goto_sel [simp]:
  "calls (goto i c g s) = (calls s)(i \<mapsto> (c, g))" "pins (goto i c g s) = pins s"
  "pinFile (goto i c g s) = pinFile s" "done_closed (goto i c g s) = done_closed s"
  "files (goto i c g s) = files s" "inFlight (goto i c g s) = inFlight s"
  "cancels (goto i c g s) = cancels s" "nextPinID (goto i c g s) = nextPinID s"
  "cancelled (goto i c g s) = cancelled s" "unpins (goto i c g s) = unpins s"
  "draining (goto i c g s) = draining s" "drained (goto i c g s) = drained s"
  "timed_out (goto i c g s) = timed_out s" "fetched (goto i c g s) = fetched s"
  by (simp_all add: goto_def)

section \<open>The gate stays shut\<close>

interpretation gate: state_invariant sys_step done_closed
  by unfold_locales (erule sys_step.cases; simp)

lemma gate_labels: "done_closed s \<Longrightarrow> sys_step s e t \<Longrightarrow> \<not> (\<exists>i c. e = PinEnter i c)"
  by (auto elim: pin_enter_cases)

section \<open>Counter, cancel table and running calls agree\<close>

fun running :: "stage \<Rightarrow> bool" where
  "running (Unregistered r) = False"
| "running _ = True"

definition book_of :: "nat \<Rightarrow> int \<Rightarrow> pin_id set \<Rightarrow> pin_id \<Rightarrow> (pin_id \<rightharpoonup> string \<times> stage) \<Rightarrow> bool" where
  "book_of k f cs nx m \<longleftrightarrow> finite (dom m) \<and> f = int (card (dom m))
     \<and> cs = {i. \<exists>c g. m i = Some (c, g) \<and> running g}
     \<and> (\<forall>i \<in> dom m. unat i \<le> unat nx) \<and> unat nx \<le> k"

lemma book_Suc: "book_of k f cs nx m \<Longrightarrow> book_of (Suc k) f cs nx m"
  by (simp add: book_of_def)

lemma book_move:
  assumes "book_of k f cs nx m" "m i = Some (c, g)" "running g" "running g'"
  shows "book_of (Suc k) f cs nx (m(i \<mapsto> (c, g')))"
proof -
  have "dom (m(i \<mapsto> (c, g'))) = dom m" using assms(2) by auto
  with assms show ?thesis by (auto simp: book_of_def)
qed

lemma book_enter:
  assumes b: "book_of k f cs nx m" and k: "k < 2 ^ 64 - 1"
  shows "book_of (Suc k) (f + 1) (insert (nx + 1) cs) (nx + 1) (m(nx + 1 \<mapsto> (c, Entered)))"
proof -
  have "unat nx + 1 < 2 ^ 64" using b k by (simp add: book_of_def)
  then have u: "unat (nx + 1) = unat nx + 1" by (simp add: unat_word_ariths)
  have "nx + 1 \<notin> dom m"
  proof
    assume "nx + 1 \<in> dom m"
    with b have "unat (nx + 1) \<le> unat nx" unfolding book_of_def by blast
    with u show False by simp
  qed
  with b u show ?thesis by (auto simp: book_of_def card_insert_if intro: le_SucI)
qed

lemma book_deregister:
  assumes "book_of k f cs nx m" "m i = Some (c, g)"
  shows "book_of (Suc k) f (cs - {i}) nx (m(i \<mapsto> (c, Unregistered r)))"
proof -
  have "dom (m(i \<mapsto> (c, Unregistered r))) = dom m" using assms(2) by auto
  with assms show ?thesis by (auto simp: book_of_def)
qed

lemma book_finish:
  assumes "book_of k f cs nx m" "m i = Some (c, Unregistered r)"
  shows "book_of (Suc k) (f - 1) cs nx (m(i := None))"
proof -
  have "i \<in> dom m" using assms(2) by auto
  moreover from this have "0 < card (dom m)" using assms(1) by (auto simp: book_of_def card_gt_0_iff)
  ultimately show ?thesis using assms by (auto simp: book_of_def card_Diff_singleton_if)
qed

definition lifecycle :: "nat \<Rightarrow> sys \<Rightarrow> bool" where
  "lifecycle k s \<longleftrightarrow> book_of k (inFlight s) (cancels s) (nextPinID s) (calls s)
     \<and> (draining s \<longrightarrow> done_closed s)
     \<and> (drained s \<longrightarrow> done_closed s \<and> calls s = Map.empty)
     \<and> (timed_out s \<longrightarrow> done_closed s \<and> cancels s \<subseteq> cancelled s)"

lemma book_idle: "book_of k 0 cs nx m \<Longrightarrow> m = Map.empty"
  by (auto simp: book_of_def)

lemma lifecycle_step:
  assumes "lifecycle k s" "sys_step s e t" "k < 2 ^ 64 - 1"
  shows "lifecycle (Suc k) t"
  using assms(2,1,3)
proof (induction rule: sys_step.induct)
  case (pin_enter s i c)
  then show ?case by (auto simp: lifecycle_def book_enter)
next
  case (drain_done s)
  then show ?case by (auto simp: lifecycle_def book_Suc dest: book_idle)
next
  case (deregister s i c r)
  then show ?case by (auto simp: lifecycle_def intro!: book_deregister)
next
  case (finish s i c r)
  then show ?case by (auto simp: lifecycle_def intro!: book_finish)
qed (auto simp: lifecycle_def intro: book_move book_Suc)

interpretation lifecycle: counted_invariant sys_step lifecycle "2 ^ 64 - 1"
  by unfold_locales (rule lifecycle_step)

lemma lifecycle_start: "lifecycle 0 (start_sys n)"
  by (simp add: lifecycle_def start_sys_def book_of_def)

lemma reachable_lifecycle:
  assumes "run sys_step (start_sys n) es s" "length es < 2 ^ 64"
  shows "lifecycle (length es) s"
  using lifecycle.run_count [OF assms(1) lifecycle_start] assms(2) by simp

section \<open>Only fetched, well-formed CIDs become pins\<close>

fun vetted :: "stage \<Rightarrow> bool" where
  "vetted Entered = False"
| "vetted (Leaving (Some e)) = False"
| "vetted (Unregistered (Some e)) = False"
| "vetted _ = True"

fun complete :: "stage \<Rightarrow> bool" where
  "complete Fetching = False"
| "complete Fallback = False"
| "complete Walking = False"
| "complete g = vetted g"

definition call_ok :: "string set \<Rightarrow> string \<times> stage \<Rightarrow> bool" where
  "call_ok F x \<longleftrightarrow> (vetted (snd x) \<longrightarrow> cidRegex (fst x)) \<and> (complete (snd x) \<longrightarrow> fst x \<in> F)"

definition calls_ok :: "string set \<Rightarrow> (pin_id \<rightharpoonup> string \<times> stage) \<Rightarrow> bool" where
  "calls_ok F m \<longleftrightarrow> (\<forall>x \<in> ran m. call_ok F x)"

lemma calls_okD: "calls_ok F m \<Longrightarrow> m i = Some (c, g) \<Longrightarrow> call_ok F (c, g)"
  by (auto simp: calls_ok_def dest: ranI)

lemma calls_ok_upd: "calls_ok F m \<Longrightarrow> call_ok F y \<Longrightarrow> calls_ok F (m(i \<mapsto> y))"
  by (auto simp: calls_ok_def ran_def)

lemma calls_ok_del: "calls_ok F m \<Longrightarrow> calls_ok F (m(i := None))"
  by (auto simp: calls_ok_def ran_def)

lemma calls_ok_fetched: "calls_ok F m \<Longrightarrow> calls_ok (insert c F) m"
  by (auto simp: calls_ok_def call_ok_def)

definition sound :: "string set \<Rightarrow> sys \<Rightarrow> bool" where
  "sound P s \<longleftrightarrow> pins s \<subseteq> P \<union> {c \<in> fetched s. cidRegex c} \<and> calls_ok (fetched s) (calls s)"

lemma sound_move:
  assumes "sound P s" "calls s i = Some (c, g)" "call_ok (fetched s) (c, g) \<Longrightarrow> call_ok (fetched s) (c, g')"
  shows "sound P (goto i c g' s)"
  using assms by (auto simp: sound_def intro: calls_ok_upd dest: calls_okD)

lemma sound_other: "sound P s \<Longrightarrow> pins t \<subseteq> pins s \<Longrightarrow> fetched t = fetched s \<Longrightarrow> calls t = calls s \<Longrightarrow> sound P t"
  by (auto simp: sound_def)

lemma sound_fetch:
  assumes "sound P s" "calls s i = Some (c, g)" "vetted g"
  shows "sound P ((goto i c Marking s)\<lparr>fetched := insert c (fetched s)\<rparr>)"
proof -
  have "calls_ok (fetched s) (calls s)" using assms(1) by (simp add: sound_def)
  moreover from this have "cidRegex c" using calls_okD [of _ _ i c g] assms(2,3) by (auto simp: call_ok_def)
  ultimately have "calls_ok (insert c (fetched s)) ((calls s)(i \<mapsto> (c, Marking)))"
    by (intro calls_ok_upd calls_ok_fetched) (simp_all add: call_ok_def)
  with assms(1) show ?thesis by (auto simp: sound_def)
qed

lemma call_ok_unregistered: "call_ok F (c, Unregistered r) = call_ok F (c, Leaving r)"
  by (cases r) (simp_all add: call_ok_def)

lemma sound_mark:
  assumes "sound P s" "calls s i = Some (c, Marking)"
  shows "sound P ((goto i c Snapshotting s)\<lparr>pins := insert c (pins s)\<rparr>)"
proof -
  have "calls_ok (fetched s) (calls s)" using assms(1) by (simp add: sound_def)
  from calls_okD [OF this assms(2)] have "cidRegex c" "c \<in> fetched s" by (simp_all add: call_ok_def)
  moreover have "sound P (goto i c Snapshotting s)"
    using assms by (rule sound_move) (simp add: call_ok_def)
  ultimately show ?thesis by (auto simp: sound_def)
qed

lemma sound_step:
  assumes "sound P s" "sys_step s e t"
  shows "sound P t"
  using assms(2,1)
proof (cases rule: sys_step.cases)
  case (pin_enter i c)
  then show ?thesis using assms(1) by (simp add: sound_def call_ok_def calls_ok_upd)
next
  case (pin_invalid i c e)
  then show ?thesis using assms(1) sound_move [of P s i c Entered] by (simp add: call_ok_def)
next
  case (pin_undecodable i c)
  then show ?thesis using assms(1) sound_move [of P s i c Entered] by (simp add: call_ok_def)
next
  case (pin_decoded i c)
  then have "cidRegex c" by (simp add: ValidateCID_def split: if_splits)
  with pin_decoded show ?thesis using assms(1) sound_move [of P s i c Entered] by (simp add: call_ok_def)
next
  case (bitswap_ok i c)
  then show ?thesis using assms(1) by (simp add: sound_fetch)
next
  case (bitswap_err i c)
  then show ?thesis using assms(1) sound_move [of P s i c Fetching] by (simp add: call_ok_def)
next
  case (car_err i c)
  then show ?thesis using assms(1) sound_move [of P s i c Fallback] by (simp add: call_ok_def)
next
  case (car_ok i c)
  then show ?thesis using assms(1) sound_move [of P s i c Fallback] by (simp add: call_ok_def)
next
  case (walk_err i c)
  then show ?thesis using assms(1) sound_move [of P s i c Walking] by (simp add: call_ok_def)
next
  case (walk_ok i c)
  then show ?thesis using assms(1) by (simp add: sound_fetch)
next
  case (mark i c)
  then show ?thesis using assms(1) by (simp add: sound_mark)
next
  case (snapshot i c cids)
  then show ?thesis using assms(1) sound_move [of P s i c Snapshotting] by (simp add: call_ok_def)
next
  case (save_call i c d pc r f' pc')
  then have "sound P (goto i c (Saving d pc') s)"
    using assms(1) sound_move [of P s i c "Saving d pc"] by (simp add: call_ok_def)
  then show ?thesis unfolding save_call(2) by (rule sound_other) simp_all
next
  case (save_done i c d res)
  then show ?thesis using assms(1) sound_move [of P s i c "Saving d (WDone res)"] by (simp add: call_ok_def)
next
  case (deregister i c r)
  then have "sound P (goto i c (Unregistered r) s)"
    using assms(1) sound_move [of P s i c "Leaving r"] by (simp add: call_ok_unregistered)
  then show ?thesis unfolding deregister(2) by (rule sound_other) simp_all
next
  case (finish i c r)
  then show ?thesis using assms(1) by (simp add: sound_def calls_ok_del)
next
  case unpin_delete
  then show ?thesis using assms(1) by (auto simp: sound_def)
qed (use assms(1) in \<open>auto simp: sound_def\<close>)

interpretation sound: state_invariant sys_step "sound P" for P
  by unfold_locales (rule sound_step)

section \<open>After the drain\<close>

definition quiet :: "string set \<Rightarrow> sys \<Rightarrow> bool" where
  "quiet P s \<longleftrightarrow> done_closed s \<and> calls s = Map.empty \<and> pins s \<subseteq> P"

lemma quiet_step: "quiet P s \<Longrightarrow> sys_step s e t \<Longrightarrow> quiet P t"
  by (erule sys_step.cases) (auto simp: quiet_def)

interpretation quiet: state_invariant sys_step "quiet P" for P
  by unfold_locales (rule quiet_step)

section \<open>A running call can always return\<close>

definition can_return :: "pin_id \<Rightarrow> sys \<Rightarrow> bool" where
  "can_return i s \<longleftrightarrow> (\<exists>es t. run sys_step s es t \<and> calls t = (calls s)(i := None)
     \<and> inFlight t = inFlight s - 1 \<and> draining t = draining s \<and> finite (pins t))"

lemma can_return_step:
  assumes "sys_step s e u" "can_return i u"
    "calls u = (calls s)(i \<mapsto> x)" "inFlight u = inFlight s" "draining u = draining s"
  shows "can_return i s"
proof -
  obtain es t where "run sys_step u es t" "calls t = (calls u)(i := None)"
    "inFlight t = inFlight u - 1" "draining t = draining u" "finite (pins t)"
    using assms(2) by (auto simp: can_return_def)
  with assms(3-5) run_Cons [of sys_step, OF assms(1)] show ?thesis
    unfolding can_return_def by (metis fun_upd_upd)
qed

lemma can_return_unregistered: "calls s i = Some (c, Unregistered r) \<Longrightarrow> finite (pins s) \<Longrightarrow> can_return i s"
  unfolding can_return_def
  by (intro exI [of _ "[PinReturn i r]"]) (simp add: run_Cons_iff run_Nil_iff pin_return_iff)

lemma can_return_leaving: "calls s i = Some (c, Leaving r) \<Longrightarrow> finite (pins s) \<Longrightarrow> can_return i s"
  by (rule can_return_step [OF deregister], assumption, rule can_return_unregistered) simp_all

lemma can_return_saved: "calls s i = Some (c, Saving d (WDone res)) \<Longrightarrow> finite (pins s) \<Longrightarrow> can_return i s"
  by (rule can_return_step [OF save_done], assumption, rule can_return_leaving) simp_all

lemma can_return_save_call:
  assumes "calls s i = Some (c, Saving d pc)" "\<nexists>res. pc = WDone res"
    "\<And>u. calls u i = Some (c, Saving d (snd (awf_step (pinFile s) d Fine (files s, pc)))) \<Longrightarrow> finite (pins u) \<Longrightarrow> can_return i u"
    "finite (pins s)"
  shows "can_return i s"
proof -
  let ?u = "(goto i c (Saving d (snd (awf_step (pinFile s) d Fine (files s, pc)))) s)
    \<lparr>files := fst (awf_step (pinFile s) d Fine (files s, pc))\<rparr>"
  have "sys_step s (PinStep i) ?u"
    using assms(1,2) by (rule save_call) simp
  moreover have "can_return i ?u" by (rule assms(3)) (simp_all add: assms(4))
  ultimately show ?thesis by (rule can_return_step) simp_all
qed

lemma can_return_saving: "calls s i = Some (c, Saving d pc) \<Longrightarrow> finite (pins s) \<Longrightarrow> can_return i s"
proof (induction pc arbitrary: s rule: measure_induct_rule [of "\<lambda>pc. case pc of WOpen \<Rightarrow> 6 | WWrite _ _ \<Rightarrow> 5
    | WSync _ _ \<Rightarrow> 4 | WClose _ _ \<Rightarrow> 3 | WRename \<Rightarrow> 2 | WRemove _ \<Rightarrow> 1 | WDone _ \<Rightarrow> (0 :: nat)"])
  case (less pc)
  show ?case
  proof (cases "\<exists>res. pc = WDone res")
    case True
    with less.prems show ?thesis by (auto intro: can_return_saved)
  next
    case False
    show ?thesis
      by (rule can_return_save_call [OF less.prems(1) False _ less.prems(2)], erule less.IH [rotated])
         (use False in \<open>cases pc; auto simp: Let_def split: option.splits prod.splits\<close>)+
  qed
qed

lemma can_return_snapshot: "calls s i = Some (c, Snapshotting) \<Longrightarrow> finite (pins s) \<Longrightarrow> can_return i s"
  by (rule can_return_step [OF snapshot [where cids = "sorted_list_of_set (pins s)"]])
     (simp_all, rule can_return_saving, simp_all)

lemma can_return_marking: "calls s i = Some (c, Marking) \<Longrightarrow> finite (pins s) \<Longrightarrow> can_return i s"
  by (rule can_return_step [OF mark], assumption, rule can_return_snapshot) simp_all

lemma can_return_walking: "calls s i = Some (c, Walking) \<Longrightarrow> finite (pins s) \<Longrightarrow> can_return i s"
  by (rule can_return_step [OF walk_err], assumption, rule can_return_leaving) simp_all

lemma can_return_fallback: "calls s i = Some (c, Fallback) \<Longrightarrow> finite (pins s) \<Longrightarrow> can_return i s"
  by (rule can_return_step [OF car_err], assumption, rule can_return_leaving) simp_all

lemma can_return_fetching: "calls s i = Some (c, Fetching) \<Longrightarrow> finite (pins s) \<Longrightarrow> can_return i s"
  by (rule can_return_step [OF bitswap_err], assumption, rule can_return_fallback) simp_all

lemma can_return_entered: "calls s i = Some (c, Entered) \<Longrightarrow> finite (pins s) \<Longrightarrow> can_return i s"
proof (cases "ValidateCID c")
  case None
  assume "calls s i = Some (c, Entered)" "finite (pins s)"
  with None show ?thesis by - (rule can_return_step [OF pin_decoded], assumption, simp, rule can_return_fetching, simp_all)
next
  case (Some e)
  assume "calls s i = Some (c, Entered)" "finite (pins s)"
  with Some show ?thesis by - (rule can_return_step [OF pin_invalid], assumption, simp, rule can_return_leaving, simp_all)
qed

lemmas can_return_stages = can_return_entered can_return_fetching can_return_fallback can_return_walking
  can_return_marking can_return_snapshot can_return_saving can_return_leaving can_return_unregistered

lemma call_can_return: "calls s i = Some (c, g) \<Longrightarrow> finite (pins s) \<Longrightarrow> can_return i s"
  by (cases g) (simp_all only: can_return_stages)

lemma all_can_return:
  assumes "finite A" "dom (calls s) = A" "finite (pins s)" "draining s" "inFlight s = int (card A)"
  shows "\<exists>es t. run sys_step s es t \<and> calls t = Map.empty \<and> inFlight t = 0 \<and> draining t"
  using assms
proof (induction A arbitrary: s rule: finite_induct)
  case empty
  then show ?case by (auto intro: run_Nil)
next
  case (insert i A)
  then obtain c g where "calls s i = Some (c, g)" by force
  from call_can_return [OF this insert.prems(2)] obtain es t where t: "run sys_step s es t"
    "calls t = (calls s)(i := None)" "inFlight t = inFlight s - 1" "draining t = draining s" "finite (pins t)"
    by (auto simp: can_return_def)
  have d: "dom (calls t) = A" using t(2) insert.hyps insert.prems(1) by auto
  have f: "inFlight t = int (card A)" using t(3) insert.hyps insert.prems(4) by simp
  have g: "draining t" using t(4) insert.prems(3) by simp
  from insert.IH [OF d t(5) g f] obtain es' u where
    "run sys_step t es' u" "calls u = Map.empty" "inFlight u = 0" "draining u" by blast
  with run_append [OF t(1)] show ?case by blast
qed

lemma finite_pins_step: "finite (pins s) \<Longrightarrow> sys_step s e t \<Longrightarrow> finite (pins t)"
  by (erule sys_step.cases) simp_all

interpretation finite_pins: state_invariant sys_step "\<lambda>s. finite (pins s)"
  by unfold_locales (rule finite_pins_step)

section \<open>One call alone is \<open>node_Pin\<close>\<close>

definition finishes :: "sys \<Rightarrow> pin_id \<Rightarrow> node_err option \<Rightarrow> node \<Rightarrow> bool" where
  "finishes s i r n \<longleftrightarrow> (\<exists>es t. run sys_step s (es @ [PinReturn i r]) t \<and> node.truncate t = n
     \<and> calls t = (calls s)(i := None))"

lemma finishes_run:
  assumes "run sys_step s es u" "finishes u i r n" "calls u = (calls s)(i \<mapsto> x)"
  shows "finishes s i r n"
proof -
  obtain fs t where "run sys_step u (fs @ [PinReturn i r]) t" "node.truncate t = n" "calls t = (calls u)(i := None)"
    using assms(2) by (auto simp: finishes_def)
  with assms(3) run_append [OF assms(1)] show ?thesis
    unfolding finishes_def by (metis append_assoc fun_upd_upd)
qed

lemma finishes_step:
  "sys_step s e u \<Longrightarrow> finishes u i r n \<Longrightarrow> calls u = (calls s)(i \<mapsto> x) \<Longrightarrow> finishes s i r n"
  by (rule finishes_run [OF run_Cons [OF _ run_Nil]])

lemma truncate_goto [simp]: "node.truncate (goto i c g s) = node.truncate s"
  by (simp add: node.truncate_def)

lemma finishes_leaving:
  assumes "calls s i = Some (c, Leaving r)"
  shows "finishes s i r (node.truncate s)"
proof -
  let ?u = "(goto i c (Unregistered r) s)\<lparr>cancels := cancels s - {i}\<rparr>"
  have "finishes ?u i r (node.truncate s)"
    unfolding finishes_def
    by (intro exI [of _ "[]"]) (simp add: run_Cons_iff run_Nil_iff pin_return_iff node.truncate_def)
  from finishes_step [OF deregister [OF assms] this] show ?thesis by simp
qed

lemma save_run:
  assumes "calls s i = Some (c, Saving d pc)"
  shows "\<exists>es. run sys_step s es ((goto i c (Saving d (snd (fold (awf_step (pinFile s) d) rs (files s, pc)))) s)
     \<lparr>files := fst (fold (awf_step (pinFile s) d) rs (files s, pc))\<rparr>)"
  using assms
proof (induction rs arbitrary: s pc)
  case Nil
  then have "goto i c (Saving d pc) s = s" by (simp add: goto_def fun_upd_idem)
  then show ?case by (auto intro!: exI [of _ "[]"] run_Nil simp: run_Nil_iff)
next
  case (Cons r rs)
  show ?case
  proof (cases "\<exists>res. pc = WDone res")
    case True
    with Cons.IH [OF Cons.prems] show ?thesis by auto
  next
    case False
    obtain f' pc' where a: "awf_step (pinFile s) d r (files s, pc) = (f', pc')" by fastforce
    let ?u = "(goto i c (Saving d pc') s)\<lparr>files := f'\<rparr>"
    have "sys_step s (PinStep i) ?u" by (rule save_call [OF Cons.prems False a])
    moreover obtain es where "run sys_step ?u es ((goto i c (Saving d (snd (fold (awf_step (pinFile ?u) d) rs (files ?u, pc')))) ?u)
     \<lparr>files := fst (fold (awf_step (pinFile ?u) d) rs (files ?u, pc'))\<rparr>)"
      using Cons.IH [of ?u pc'] by auto
    ultimately have "run sys_step s (PinStep i # es) ((goto i c (Saving d (snd (fold (awf_step (pinFile ?u) d) rs (files ?u, pc')))) ?u)
     \<lparr>files := fst (fold (awf_step (pinFile ?u) d) rs (files ?u, pc'))\<rparr>)" by (rule run_Cons)
    then show ?thesis by (auto simp: a goto_def)
  qed
qed

lemma finishes_saving:
  assumes "calls s i = Some (c, Saving d WOpen)"
  shows "finishes s i None (node.truncate (s\<lparr>files := fst (atomicWriteFile pl (files s) (pinFile s) d)\<rparr>))"
proof -
  obtain f res where w: "atomicWriteFile pl (files s) (pinFile s) d = (f, res)" by fastforce
  then have "fold (awf_step (pinFile s) d) (plan_resps pl) (files s, WOpen) = (f, WDone res)"
    using awf_run_plan [of "pinFile s" d pl "files s"] by (simp add: awf_run_def)
  with save_run [OF assms, of "plan_resps pl"] obtain es where
    r: "run sys_step s es ((goto i c (Saving d (WDone res)) s)\<lparr>files := f\<rparr>)" (is "run _ _ _ ?u") by auto
  have c: "calls ?u i = Some (c, Saving d (WDone res))" by simp
  have "finishes (goto i c (Leaving None) ?u) i None (node.truncate ?u)"
    using finishes_leaving [of "goto i c (Leaving None) ?u" i c None] by simp
  from finishes_step [OF save_done [OF c] this] have "finishes ?u i None (node.truncate ?u)" by simp
  then show ?thesis by (intro finishes_run [OF r, rotated]) (simp_all add: w node.truncate_def)
qed

lemma finishes_marking:
  assumes "calls s i = Some (c, Marking)" "set (ord (insert c (pins s))) = insert c (pins s)"
    "distinct (ord (insert c (pins s)))"
  shows "finishes s i None (markPinned ord pl c (node.truncate s))"
proof -
  let ?u = "(goto i c Snapshotting s)\<lparr>pins := insert c (pins s)\<rparr>"
  let ?d = "marshal_strings (ord (insert c (pins s)))"
  have m: "sys_step s (PinMarked i c) ?u" by (rule mark [OF assms(1)])
  have n: "sys_step ?u (PinStep i) (goto i c (Saving ?d WOpen) ?u)" by (rule snapshot) (simp_all add: assms)
  have "finishes (goto i c (Saving ?d WOpen) ?u) i None (markPinned ord pl c (node.truncate s))"
    using finishes_saving [of "goto i c (Saving ?d WOpen) ?u" i c ?d pl]
    by (simp add: markPinned_def savePins_def node.truncate_def Let_def)
  from finishes_step [OF m finishes_step [OF n this]] show ?thesis by simp
qed

lemma finishes_failing:
  assumes "calls s i = Some (c, g)" "sys_step s (PinStep i) (goto i c (Leaving r) s)"
  shows "finishes s i r (node.truncate s)"
  using finishes_step [OF assms(2)] finishes_leaving [of "goto i c (Leaving r) s" i c r] by simp

lemma finishes_walking:
  assumes s: "calls s i = Some (c, Walking)" "iterates ord" "finite (pins s)"
  shows "finishes s i (if offline_walk fe c then None else Some (DAGIncomplete c))
     (if offline_walk fe c then markPinned ord pl c (node.truncate s) else node.truncate s)"
proof (cases "offline_walk fe c")
  case True
  from finishes_step [OF walk_ok [OF s(1)]] finishes_marking [of "(goto i c Marking s)\<lparr>fetched := insert c (fetched s)\<rparr>" i c ord pl]
    True s(2,3) show ?thesis by (simp add: iterates_def node.truncate_def)
next
  case False
  with finishes_failing [OF s(1) walk_err [OF s(1)]] show ?thesis by simp
qed

lemma finishes_fetching:
  assumes s: "calls s i = Some (c, Fetching)" "iterates ord" "finite (pins s)"
    and n: "node_Pin (fe, ord, pl) (node.truncate s) c = (n', r)" "cidRegex c" "decodes fe c" "\<not> done_closed s"
  shows "finishes s i r n'"
proof (cases "bitswap_fetch fe c")
  have v: "ValidateCID c = None" using n(2) by simp
  case True
  from finishes_step [OF bitswap_ok [OF s(1)]] finishes_marking [of "(goto i c Marking s)\<lparr>fetched := insert c (fetched s)\<rparr>" i c ord pl]
    True s(2,3) n(1,3,4) v show ?thesis by (simp add: iterates_def node.truncate_def node_Pin_def)
next
  have v: "ValidateCID c = None" using n(2) by simp
  case False
  let ?u = "goto i c Fallback s"
  have "finishes ?u i r n'"
  proof (cases "car_fetch fe c")
    case True
    have u: "calls ?u i = Some (c, Fallback)" by simp
    from finishes_step [OF car_ok [OF u]] finishes_walking [of "goto i c Walking ?u" i c ord fe pl]
      True False s(2,3) n(1,3,4) v show ?thesis by (simp add: node.truncate_def node_Pin_def split: if_splits)
  next
    case f: False
    have u: "calls ?u i = Some (c, Fallback)" by simp
    from finishes_failing [OF u car_err [OF u]] f False n(1,3,4) v show ?thesis
      by (simp add: node.truncate_def node_Pin_def split: if_splits)
  qed
  from finishes_step [OF bitswap_err [OF s(1)] this] show ?thesis by simp
qed

lemma finishes_entered:
  assumes s: "calls s i = Some (c, Entered)" "iterates ord" "finite (pins s)"
    and n: "node_Pin (fe, ord, pl) (node.truncate s) c = (n', r)" "\<not> done_closed s"
  shows "finishes s i r n'"
proof (cases "cidRegex c")
  case False
  then have v: "ValidateCID c = Some (InvalidCID c)" by simp
  from finishes_failing [OF s(1) pin_invalid [OF s(1) v]] n v show ?thesis
    by (simp add: node_Pin_def node.truncate_def)
next
  case True
  then have v: "ValidateCID c = None" by simp
  show ?thesis
  proof (cases "decodes fe c")
    case False
    from finishes_failing [OF s(1) pin_undecodable [OF s(1) v]] n v False show ?thesis
      by (simp add: node_Pin_def node.truncate_def)
  next
    case d: True
    from finishes_step [OF pin_decoded [OF s(1) v]]
      finishes_fetching [of "goto i c Fetching s" i c ord fe pl n' r] s n True d show ?thesis by simp
  qed
qed

lemma truncate_start [simp]: "\<not> done_closed n \<Longrightarrow> node.truncate (start_sys n) = n"
  by (simp add: start_sys_def node.truncate_def)

lemma book_fresh:
  assumes b: "book_of k f cs nx m" and k: "k < 2 ^ 64 - 1"
  shows "nx + 1 \<notin> dom m"
proof
  assume "nx + 1 \<in> dom m"
  with b have "unat (nx + 1) \<le> unat nx" unfolding book_of_def by blast
  moreover have "unat nx + 1 < 2 ^ 64" using b k by (simp add: book_of_def)
  then have "unat (nx + 1) = unat nx + 1" by (simp add: unat_word_ariths)
  ultimately show False by simp
qed

section \<open>A concrete history\<close>

definition demo_node :: node where
  "demo_node = open_node empty_fs ''pins.json''"

definition demo_entered :: sys where
  "demo_entered = (start_sys demo_node)\<lparr>inFlight := 1, nextPinID := 1, cancels := {1},
     calls := [1 \<mapsto> (sample_v0, Entered)]\<rparr>"

definition demo_timed_out :: sys where
  "demo_timed_out = demo_entered\<lparr>done_closed := True, draining := True, cancelled := {1}, timed_out := True\<rparr>"

lemma demo_node_sel [simp]: "done_closed demo_node = False" "pins demo_node = {}"
  by (simp_all add: demo_node_def open_node_empty)

lemma demo_enter: "sys_step (start_sys demo_node) (PinEnter 1 sample_v0) demo_entered"
  using pin_enter [of "start_sys demo_node" 1 sample_v0] by (simp add: demo_entered_def start_sys_def)

lemma demo_timeout: "run sys_step demo_entered [DrainBegin, DrainTimeout] demo_timed_out"
proof -
  let ?s = "demo_entered\<lparr>done_closed := True, draining := True\<rparr>"
  have "sys_step ?s DrainTimeout demo_timed_out"
    using drain_timeout [of ?s] by (simp add: demo_timed_out_def demo_entered_def start_sys_def)
  from run_Cons [of sys_step, OF drain_begin run_one [of sys_step, OF this]] show ?thesis .
qed

lemma demo_run: "run sys_step (start_sys demo_node) [PinEnter 1 sample_v0, DrainBegin, DrainTimeout] demo_timed_out"
  by (rule run_Cons [OF demo_enter demo_timeout])

definition demo_drained :: sys where
  "demo_drained = (start_sys demo_node)\<lparr>done_closed := True, draining := True, drained := True\<rparr>"

lemma demo_drain: "run sys_step (start_sys demo_node) [DrainBegin, DrainDone] demo_drained"
proof -
  let ?s = "(start_sys demo_node)\<lparr>done_closed := True, draining := True\<rparr>"
  have "sys_step ?s DrainDone demo_drained"
    using drain_done [of ?s] by (simp add: demo_drained_def start_sys_def)
  from run_Cons [of sys_step, OF drain_begin run_one [of sys_step, OF this]] show ?thesis .
qed

section \<open>Properties\<close>



text \<open>
  C31: the bookkeeping is exact however calls interleave. As long as fewer than \<open>2 ^ 64\<close> steps
  have been made, the \<open>WaitGroup\<close> counter is the number of running calls, so it is never negative,
  the cancel table holds exactly the calls that have not begun to clean up, and the next identifier is
  not in use, although it is a \<open>uint64\<close> that wraps.
\<close>

theorem pin_bookkeeping:
  assumes "run sys_step (start_sys n) es s" "length es < 2 ^ 64 - 1"
  shows "inFlight s = int (card (dom (calls s))) \<and> finite (dom (calls s))
     \<and> cancels s = {i. \<exists>c g. calls s i = Some (c, g) \<and> running g}
     \<and> nextPinID s + 1 \<notin> dom (calls s)"
proof -
  from assms have b: "book_of (length es) (inFlight s) (cancels s) (nextPinID s) (calls s)"
    using reachable_lifecycle [of n es s] by (simp add: lifecycle_def)
  from book_fresh [OF b assms(2)] b show ?thesis by (simp add: book_of_def)
qed

theorem pin_bookkeeping_witness:
  "inFlight demo_timed_out = int (card (dom (calls demo_timed_out)))"
  by (rule pin_bookkeeping [THEN conjunct1, OF demo_run]) simp

text \<open>
  C4: \<open>Drain\<close> is a barrier. Once it reports that the running calls have finished, none is
  running, and whatever is called afterwards no \<open>Pin\<close> is admitted, marks a CID or returns from the
  far side of the gate: the pin set can only shrink, by \<open>Unpin\<close>.
\<close>

theorem drain_barrier:
  assumes "run sys_step (start_sys n) es s" "length es < 2 ^ 64" "drained s" "run sys_step s fs t"
  shows "calls s = Map.empty \<and> calls t = Map.empty \<and> pins t \<subseteq> pins s
     \<and> (\<forall>e \<in> set fs. \<forall>i c r. e \<noteq> PinEnter i c \<and> e \<noteq> PinMarked i c \<and> e \<noteq> PinReturn i r)"
proof -
  from assms(3) reachable_lifecycle [OF assms(1,2)] have q: "quiet (pins s) s"
    by (simp add: lifecycle_def quiet_def)
  from quiet.run_inv [OF assms(4) this] have "quiet (pins s) t" .
  moreover have "\<forall>e \<in> set fs. \<forall>i c r. e \<noteq> PinEnter i c \<and> e \<noteq> PinMarked i c \<and> e \<noteq> PinReturn i r"
    by (rule quiet.run_labels [OF assms(4) q]) (erule sys_step.cases; simp add: quiet_def)
  ultimately show ?thesis using q by (simp add: quiet_def)
qed

theorem drain_barrier_witness:
  "calls demo_drained = Map.empty \<and> pins demo_drained \<subseteq> pins demo_drained"
  using drain_barrier [OF demo_drain _ _ run_Nil] by (simp add: demo_drained_def)

text \<open>
  A \<open>Drain\<close> that hits its deadline cancels the context of every \<open>Pin\<close> call that is still
  registered. The gate having been shut first, no call can register behind its back: from then on,
  every call that is running has been cancelled.
\<close>

theorem drain_timeout_cancels_all:
  assumes "run sys_step (start_sys n) es s" "length es < 2 ^ 64" "timed_out s"
    "calls s i = Some (c, g)" "running g"
  shows "i \<in> cancelled s"
  using reachable_lifecycle [OF assms(1,2)] assms(3-5) by (auto simp: lifecycle_def book_of_def)

theorem drain_timeout_cancels_all_witness: "(1 :: pin_id) \<in> cancelled demo_timed_out"
  by (rule drain_timeout_cancels_all [OF demo_run, of _ sample_v0 Entered])
     (simp_all add: demo_timed_out_def demo_entered_def)

text \<open>
  C5: only what was fetched is pinned. However calls interleave, a CID that was not pinned at the
  start is pinned only if it is well-formed and a complete graph was reported for it, and a \<open>Pin\<close>
  that is about to return \<open>nil\<close> has been through that.
\<close>

theorem only_fetched_pinned:
  assumes "run sys_step (start_sys n) es s"
  shows "pins s \<subseteq> pins n \<union> {c \<in> fetched s. cidRegex c}
     \<and> (calls s i = Some (c, Unregistered None) \<longrightarrow> cidRegex c \<and> c \<in> fetched s)"
proof -
  have "sound (pins n) (start_sys n)" by (simp add: sound_def start_sys_def calls_ok_def)
  from sound.run_inv [OF assms this] show ?thesis
    by (auto simp: sound_def call_ok_def dest: calls_okD)
qed

theorem only_fetched_pinned_witness: "pins demo_timed_out \<subseteq> pins demo_node \<union> {c \<in> fetched demo_timed_out. cidRegex c}"
  using only_fetched_pinned [OF demo_run] by simp

text \<open>
  C32: \<open>Drain\<close> is never stuck. From every reachable state in which it waits, the running calls
  can all return, by steps of their own and without any new call, and \<open>Drain\<close> then completes:
  no call waits for another one, or for something that the gate has shut out.
\<close>

theorem drain_can_complete:
  assumes "run sys_step (start_sys n) es s" "length es < 2 ^ 64" "finite (pins n)" "draining s"
  shows "\<exists>fs t. run sys_step s (fs @ [DrainDone]) t \<and> drained t \<and> calls t = Map.empty"
proof -
  have "finite (pins s)" using finite_pins.run_inv [OF assms(1)] assms(3) by (simp add: start_sys_def)
  moreover have "finite (dom (calls s))" "inFlight s = int (card (dom (calls s)))"
    using reachable_lifecycle [OF assms(1,2)] by (simp_all add: lifecycle_def book_of_def)
  ultimately obtain fs u where u: "run sys_step s fs u" "calls u = Map.empty" "inFlight u = 0" "draining u"
    using all_can_return [OF _ refl, of s] assms(4) by blast
  from run_append [OF u(1) run_one [of sys_step, OF drain_done [OF u(4,3)]]] u(2) show ?thesis by fastforce
qed

theorem drain_can_complete_witness:
  "\<exists>fs t. run sys_step demo_timed_out (fs @ [DrainDone]) t \<and> drained t \<and> calls t = Map.empty"
  by (rule drain_can_complete [OF demo_run]) (simp_all add: demo_timed_out_def)

end
