(* ===== verification/Discovery.thy ===== *)
theory Discovery
  imports Cid Json
begin

text \<open>
  \<open>discovery.go\<close>: what one row of the HAF query yields (\<open>extractItemsFromRow\<close>, with its three
  entry points: the paper's own CID, the \<open>supplementary_files\<close> JSON array, and the CIDs that the
  regular expression \<open>ipfsCIDRegex\<close> finds in the post's body), and the refresh that replaces the
  cached items. The database is a parameter: a refresh is given what the query answered.
  \<open>time.Time\<close> is the instant in nanoseconds since 1970-01-01T00:00:00Z, an unbounded integer.
\<close>

section \<open>Data\<close>

record DiscoveredItem =
  item_Author :: string
  item_Permlink :: string
  item_Title :: string
  item_CID :: string
  item_Filename :: string
  item_CIDType :: string
  item_Discipline :: string
  item_Created :: int

record discoveryRow =
  row_Author :: string
  row_Permlink :: string
  row_Title :: string
  row_IpfsCID :: string
  row_Filename :: string
  row_Discipline :: string
  row_SuppJSON :: string
  row_Body :: string
  row_Created :: int

record SupplementaryFile =
  sf_CID :: string
  sf_Filename :: string

section \<open>The supplementary files of a row\<close>

definition supp_member :: "string \<times> json \<Rightarrow> SupplementaryFile \<Rightarrow> SupplementaryFile option" where
  "supp_member m sf = (case m of (key, v) \<Rightarrow>
     if names_field key ''cid'' then map_option (\<lambda>s. sf\<lparr>sf_CID := s\<rparr>) (into_string v (sf_CID sf))
     else if names_field key ''filename'' then map_option (\<lambda>s. sf\<lparr>sf_Filename := s\<rparr>) (into_string v (sf_Filename sf))
     else Some sf)"

fun decode_supp :: "json \<Rightarrow> SupplementaryFile option" where
  "decode_supp (JObj ms) = fold_members supp_member ms \<lparr>sf_CID = [], sf_Filename = []\<rparr>"
| "decode_supp JNull = Some \<lparr>sf_CID = [], sf_Filename = []\<rparr>"
| "decode_supp _ = None"

fun decode_supps :: "json \<Rightarrow> SupplementaryFile list option" where
  "decode_supps (JArr vs) = decode_all decode_supp vs"
| "decode_supps JNull = Some []"
| "decode_supps _ = None"

definition unmarshal_supps :: "string \<Rightarrow> SupplementaryFile list option" where
  "unmarshal_supps s = (case parse_json s of None \<Rightarrow> None | Some v \<Rightarrow> decode_supps v)"

section \<open>The regular expression over the body\<close>

text \<open>\<open>ipfsCIDRegex\<close> at one position: the CID (submatch 1) and what follows the match, which
  includes the slash after the CID.\<close>

definition match_ipfs :: "string \<Rightarrow> (string \<times> string) option" where
  "match_ipfs s =
     (if HasPrefix s ''/ipfs/'' then
        (let r = drop 6 s in
         if cid_v0 (take 46 r) \<and> HasPrefix (drop 46 r) ''/'' then Some (take 46 r, drop 47 r)
         else if cid_v1 (take 59 r) \<and> HasPrefix (drop 59 r) ''/'' then Some (take 59 r, drop 60 r)
         else None)
      else None)"

lemma take_slash_drop: "HasPrefix (drop n r) [c] \<Longrightarrow> r = take n r @ c # drop (Suc n) r"
  by (metis HasPrefix_iff append_Cons append_Nil append_take_drop_id drop_Suc tl_drop list.sel(3))

lemma match_ipfs_Some:
  assumes "match_ipfs s = Some (c, t)"
  shows "s = ''/ipfs/'' @ c @ CHR ''/'' # t \<and> cidRegex c"
proof -
  from assms obtain r where s: "s = ''/ipfs/'' @ r"
    by (auto simp: match_ipfs_def HasPrefix_iff split: if_splits)
  then have d: "HasPrefix s ''/ipfs/''" "drop 6 s = r" by (simp_all add: HasPrefix_def)
  show ?thesis
  proof (cases "cid_v0 (take 46 r) \<and> HasPrefix (drop 46 r) ''/''")
    case True
    with assms d have "c = take 46 r" "t = drop (Suc 46) r" by (simp_all add: match_ipfs_def Let_def)
    with True s take_slash_drop [of 46 r] show ?thesis unfolding cidRegex_def by metis
  next
    case False
    with assms d have "c = take 59 r" "t = drop (Suc 59) r" and v: "cid_v1 (take 59 r)" "HasPrefix (drop 59 r) ''/''"
      by (auto simp: match_ipfs_def Let_def split: if_splits)
    with v s take_slash_drop [of 59 r] show ?thesis unfolding cidRegex_def by metis
  qed
qed

lemma match_ipfs_cid:
  assumes "cidRegex c"
  shows "match_ipfs (''/ipfs/'' @ c @ CHR ''/'' # t) = Some (c, t)"
proof -
  have "drop 6 (''/ipfs/'' @ c @ CHR ''/'' # t) = c @ CHR ''/'' # t" "HasPrefix (''/ipfs/'' @ c @ CHR ''/'' # t) ''/ipfs/''"
    by (simp, rule HasPrefix_append)
  moreover have "cid_v0 c \<Longrightarrow> length c = 46" "cid_v1 c \<Longrightarrow> length c = 59 \<and> HasPrefix c ''b''"
    by (simp_all add: cid_v0_def cid_v1_def)
  moreover have "cid_v1 c \<Longrightarrow> \<not> cid_v0 (take 46 (c @ CHR ''/'' # t))"
    by (auto simp: cid_v0_def cid_v1_def HasPrefix_iff)
  ultimately show ?thesis using assms unfolding match_ipfs_def cidRegex_def Let_def
    by (auto simp: HasPrefix_def)
qed

lemma match_ipfs_length: "match_ipfs s = Some (c, t) \<Longrightarrow> length t < length s"
  by (auto dest: match_ipfs_Some)

text \<open>\<open>FindAllStringSubmatch(body, -1)\<close>, first submatches: leftmost matches that do not overlap.\<close>

function find_cids :: "string \<Rightarrow> string list" where
  "find_cids [] = []"
| "find_cids (a # s) = (case match_ipfs (a # s) of
     Some (c, t) \<Rightarrow> c # find_cids t
   | None \<Rightarrow> find_cids s)"
  by pat_completeness auto
termination by (relation "measure length") (auto dest: match_ipfs_length)

section \<open>One row\<close>

text \<open>Go's \<open>seen\<close> map as its key set; \<open>acc\<close> is the triple the function threads through its loops:
  the items kept, the map and the count of dropped CIDs.\<close>

type_synonym acc = "DiscoveredItem list \<times> string set \<times> nat"

definition item_of :: "discoveryRow \<Rightarrow> string \<Rightarrow> string \<Rightarrow> string \<Rightarrow> DiscoveredItem" where
  "item_of row cid filename typ =
     \<lparr>item_Author = row_Author row, item_Permlink = row_Permlink row, item_Title = row_Title row,
      item_CID = cid, item_Filename = filename, item_CIDType = typ,
      item_Discipline = row_Discipline row, item_Created = row_Created row\<rparr>"

definition paper_branch :: "discoveryRow \<Rightarrow> acc \<Rightarrow> acc" where
  "paper_branch row st = (case st of (items, seen, dropped) \<Rightarrow>
     if row_IpfsCID row \<noteq> [] \<and> row_IpfsCID row \<notin> seen then
       (case ValidateCID (row_IpfsCID row) of
          Some _ \<Rightarrow> (items, seen, dropped + 1)
        | None \<Rightarrow> (items @ [item_of row (row_IpfsCID row) (row_Filename row) ''paper''],
                   insert (row_IpfsCID row) seen, dropped))
     else st)"

definition supp_step :: "discoveryRow \<Rightarrow> SupplementaryFile \<Rightarrow> acc \<Rightarrow> acc" where
  "supp_step row sf st = (case st of (items, seen, dropped) \<Rightarrow>
     if sf_CID sf = [] \<or> sf_CID sf \<in> seen then st
     else (case ValidateCID (sf_CID sf) of
        Some _ \<Rightarrow> (items, seen, dropped + 1)
      | None \<Rightarrow> (items @ [item_of row (sf_CID sf) (sf_Filename sf) ''supplementary''],
                 insert (sf_CID sf) seen, dropped)))"

definition supp_branch :: "discoveryRow \<Rightarrow> acc \<Rightarrow> acc" where
  "supp_branch row st =
     (if row_SuppJSON row \<noteq> [] then
        (case unmarshal_supps (row_SuppJSON row) of
           Some suppFiles \<Rightarrow> fold (supp_step row) suppFiles st
         | None \<Rightarrow> st)
      else st)"

definition inline_step :: "discoveryRow \<Rightarrow> string \<Rightarrow> acc \<Rightarrow> acc" where
  "inline_step row cid st = (case st of (items, seen, dropped) \<Rightarrow>
     if cid \<in> seen then st
     else (case ValidateCID cid of
        Some _ \<Rightarrow> (items, seen, dropped + 1)
      | None \<Rightarrow> (items @ [item_of row cid [] ''inline_image''], insert cid seen, dropped)))"

definition inline_branch :: "discoveryRow \<Rightarrow> acc \<Rightarrow> acc" where
  "inline_branch row st =
     (if row_Body row \<noteq> [] then fold (inline_step row) (find_cids (row_Body row)) st else st)"

definition extractItemsFromRow :: "discoveryRow \<Rightarrow> string set \<Rightarrow> acc" where
  "extractItemsFromRow row seen = inline_branch row (supp_branch row (paper_branch row ([], seen, 0)))"

section \<open>The refresh\<close>

text \<open>What one result row gives: a scan error, or the columns, where a SQL \<open>NULL\<close> is \<open>None\<close>;
  \<open>NullString.String\<close> of a \<open>NULL\<close> is the empty string.\<close>

record scanned =
  col_author :: string
  col_permlink :: string
  col_title :: string
  col_ipfs_cid :: "string option"
  col_filename :: "string option"
  col_discipline :: "string option"
  col_supp :: "string option"
  col_body :: "string option"
  col_created :: int

definition null_string :: "string option \<Rightarrow> string" where
  "null_string x = (case x of None \<Rightarrow> [] | Some s \<Rightarrow> s)"

definition row_of :: "scanned \<Rightarrow> discoveryRow" where
  "row_of c = \<lparr>row_Author = col_author c, row_Permlink = col_permlink c, row_Title = col_title c,
     row_IpfsCID = null_string (col_ipfs_cid c), row_Filename = null_string (col_filename c),
     row_Discipline = null_string (col_discipline c), row_SuppJSON = null_string (col_supp c),
     row_Body = null_string (col_body c), row_Created = col_created c\<rparr>"

text \<open>What the database answers to one query.\<close>

datatype 'e query_result =
    QueryError 'e
  | Rows "('e + scanned) list" "'e option"

datatype 'e refresh_err = QueryFailed 'e | IterationFailed 'e

definition refresh_row :: "'e + scanned \<Rightarrow> acc \<Rightarrow> acc" where
  "refresh_row r st = (case st of (items, seen, dropped) \<Rightarrow>
     (case r of
        Inl _ \<Rightarrow> st
      | Inr c \<Rightarrow> (case extractItemsFromRow (row_of c) seen of
          (rowItems, seen', rowDropped) \<Rightarrow> (items @ rowItems, seen', dropped + rowDropped))))"

text \<open>The cached items after the refresh, the argument the callback is called with (when it is
  called), and the error.\<close>

definition refresh :: "'e query_result \<Rightarrow> DiscoveredItem list
    \<Rightarrow> DiscoveredItem list \<times> DiscoveredItem list option \<times> 'e refresh_err option" where
  "refresh q cached = (case q of
     QueryError e \<Rightarrow> (cached, None, Some (QueryFailed e))
   | Rows rows err \<Rightarrow>
      (case fold refresh_row rows ([], {}, 0) of (items, seen, dropped) \<Rightarrow>
         (case err of
            Some e \<Rightarrow> (cached, None, Some (IterationFailed e))
          | None \<Rightarrow> (items, Some items, None))))"

text \<open>\<open>Start\<close>: the initial refresh, then one per tick; errors are only logged. The answers of the
  database in order give the cache that \<open>Items\<close> copies, and the batches the callback received.\<close>

definition discovery_run :: "'e query_result list \<Rightarrow> DiscoveredItem list \<times> DiscoveredItem list list" where
  "discovery_run qs = fold (\<lambda>q (cached, batches). case refresh q cached of
      (cached', cb, _) \<Rightarrow> (cached', batches @ (case cb of None \<Rightarrow> [] | Some b \<Rightarrow> [b]))) qs ([], [])"

section \<open>A reference extraction\<close>

text \<open>A candidate: a CID with the file name and the type it would be listed under.\<close>

type_synonym candidate = "string \<times> string \<times> string"

definition candidates :: "discoveryRow \<Rightarrow> candidate list" where
  "candidates row = filter (\<lambda>(cid, _, _). cid \<noteq> [])
     ([(row_IpfsCID row, row_Filename row, ''paper'')]
      @ map (\<lambda>sf. (sf_CID sf, sf_Filename sf, ''supplementary''))
          (case unmarshal_supps (row_SuppJSON row) of Some fs \<Rightarrow> fs | None \<Rightarrow> [])
      @ map (\<lambda>cid. (cid, [], ''inline_image'')) (find_cids (row_Body row)))"

fun keep_new :: "string set \<Rightarrow> candidate list \<Rightarrow> candidate list" where
  "keep_new seen [] = []"
| "keep_new seen ((cid, f, ty) # cs) =
     (if cid \<in> seen \<or> \<not> cidRegex cid then keep_new seen cs
      else (cid, f, ty) # keep_new (insert cid seen) cs)"

definition offer :: "discoveryRow \<Rightarrow> candidate \<Rightarrow> acc \<Rightarrow> acc" where
  "offer row c st = (case c of (cid, f, ty) \<Rightarrow> case st of (items, seen, dropped) \<Rightarrow>
     if cid = [] \<or> cid \<in> seen then st
     else if cidRegex cid then (items @ [item_of row cid f ty], insert cid seen, dropped)
     else (items, seen, Suc dropped))"

definition item_at :: "discoveryRow \<Rightarrow> candidate \<Rightarrow> DiscoveredItem" where
  "item_at row c = (case c of (cid, f, ty) \<Rightarrow> item_of row cid f ty)"

lemma item_CID_at [simp]: "item_CID (item_at row c) = fst c"
  by (simp add: item_at_def item_of_def split: prod.splits)

lemma paper_branch_offer: "paper_branch row st = offer row (row_IpfsCID row, row_Filename row, ''paper'') st"
  by (auto simp: paper_branch_def offer_def split: prod.splits option.splits)

lemma supp_step_offer: "supp_step row sf = offer row (sf_CID sf, sf_Filename sf, ''supplementary'')"
  by (auto simp: fun_eq_iff supp_step_def offer_def split: prod.splits option.splits)

lemma find_cids_valid: "c \<in> set (find_cids s) \<Longrightarrow> cidRegex c"
  by (induction s rule: find_cids.induct) (auto dest: match_ipfs_Some split: option.splits)

lemma inline_step_offer: "cidRegex cid \<Longrightarrow> inline_step row cid = offer row (cid, [], ''inline_image'')"
  by (auto simp: fun_eq_iff inline_step_def offer_def split: prod.splits option.splits)

lemma fold_offer_map: "(\<And>x. x \<in> set xs \<Longrightarrow> g x = offer row (h x)) \<Longrightarrow> fold g xs st = fold (offer row) (map h xs) st"
  by (induction xs arbitrary: st) auto

lemma unmarshal_supps_Nil [simp]: "unmarshal_supps [] = None"
  by (simp add: unmarshal_supps_def parse_json_def parse_value_unguarded value_at_def skip_ws_def)

lemma supp_branch_offer: "supp_branch row st = fold (offer row)
   (map (\<lambda>sf. (sf_CID sf, sf_Filename sf, ''supplementary''))
      (case unmarshal_supps (row_SuppJSON row) of Some fs \<Rightarrow> fs | None \<Rightarrow> [])) st"
  by (auto simp: supp_branch_def supp_step_offer split: option.splits intro: fold_offer_map)

lemma inline_branch_offer: "inline_branch row st = fold (offer row)
   (map (\<lambda>cid. (cid, [], ''inline_image'')) (find_cids (row_Body row))) st"
  by (auto simp: inline_branch_def inline_step_offer find_cids_valid intro!: fold_offer_map)

lemma offer_nonempty: "fold (offer row) (filter (\<lambda>(cid, _, _). cid \<noteq> []) cs) st = fold (offer row) cs st"
  by (induction cs arbitrary: st) (auto simp: offer_def)

lemma extract_offer: "extractItemsFromRow row seen = fold (offer row) (candidates row) ([], seen, 0)"
  unfolding extractItemsFromRow_def candidates_def offer_nonempty paper_branch_offer
    supp_branch_offer inline_branch_offer by simp

lemma candidates_nonempty: "(c, f, ty) \<in> set (candidates row) \<Longrightarrow> c \<noteq> []"
  unfolding candidates_def set_filter by blast

definition valid_cids :: "candidate list \<Rightarrow> string set" where
  "valid_cids cs = {c \<in> fst ` set cs. cidRegex c}"

definition refused :: "string set \<Rightarrow> candidate list \<Rightarrow> nat" where
  "refused seen cs = length (filter (\<lambda>(c, _, _). c \<notin> seen \<and> \<not> cidRegex c) cs)"

lemma fold_offer:
  "\<forall>(c, _, _) \<in> set cs. c \<noteq> [] \<Longrightarrow> fold (offer row) cs (items, seen, k) =
     (items @ map (item_at row) (keep_new seen cs), seen \<union> valid_cids cs, k + refused seen cs)"
proof (induction cs arbitrary: items seen k)
  case (Cons x cs)
  obtain c f ty where x: "x = (c, f, ty)" by (cases x)
  have "refused (insert c seen) cs = refused seen cs" if "cidRegex c"
    using that by (auto simp: refused_def intro!: arg_cong [where f = length] filter_cong)
  with Cons show ?case by (auto simp: x offer_def valid_cids_def refused_def item_at_def)
qed (simp add: valid_cids_def refused_def)

lemma extract_eq: "extractItemsFromRow row seen =
   (map (item_at row) (keep_new seen (candidates row)), seen \<union> valid_cids (candidates row),
    refused seen (candidates row))"
  unfolding extract_offer by (subst fold_offer) (auto dest: candidates_nonempty)

lemma keep_new_facts:
  "distinct (map fst (keep_new seen cs))
   \<and> fst ` set (keep_new seen cs) = valid_cids cs - seen"
  by (induction seen cs rule: keep_new.induct) (auto simp: valid_cids_def)

lemma keep_new_valid: "x \<in> set (keep_new seen cs) \<Longrightarrow> cidRegex (fst x)"
  by (induction seen cs rule: keep_new.induct) (auto split: if_splits)

section \<open>The whole batch\<close>

definition batch_ok :: "DiscoveredItem list \<Rightarrow> bool" where
  "batch_ok items \<longleftrightarrow> distinct (map item_CID items) \<and> (\<forall>i \<in> set items. cidRegex (item_CID i))"

definition scanned_rows :: "('e + scanned) list \<Rightarrow> scanned list" where
  "scanned_rows rows = concat (map (\<lambda>r. case r of Inl _ \<Rightarrow> [] | Inr c \<Rightarrow> [c]) rows)"

lemma refresh_row_eq: "refresh_row r (items, seen, d) = (case r of Inl _ \<Rightarrow> (items, seen, d)
   | Inr c \<Rightarrow> (items @ map (item_at (row_of c)) (keep_new seen (candidates (row_of c))),
        seen \<union> valid_cids (candidates (row_of c)), d + refused seen (candidates (row_of c))))"
  by (simp add: refresh_row_def extract_eq split: sum.splits)

lemma fold_refresh:
  assumes "fold refresh_row rows (items, seen, d) = (items', seen', d')"
    "batch_ok items" "item_CID ` set items = seen"
  shows "batch_ok items' \<and> item_CID ` set items' = seen'
     \<and> seen' = seen \<union> (\<Union>c \<in> set (scanned_rows rows). valid_cids (candidates (row_of c)))"
  using assms
proof (induction rows arbitrary: items seen d)
  case Nil
  then show ?case by (simp add: scanned_rows_def)
next
  case (Cons r rows)
  show ?case
  proof (cases r)
    case (Inl e)
    with Cons show ?thesis by (simp add: refresh_row_eq scanned_rows_def)
  next
    case (Inr c)
    let ?cs = "candidates (row_of c)"
    let ?items = "items @ map (item_at (row_of c)) (keep_new seen ?cs)"
    note k = keep_new_facts [of seen ?cs]
    have s: "item_CID ` set ?items = seen \<union> valid_cids ?cs"
      using k Cons.prems(3) by (auto simp: image_Un image_image)
    have "batch_ok ?items"
      using k Cons.prems(2,3) by (auto simp: batch_ok_def comp_def dest: keep_new_valid)
    moreover have "fold refresh_row rows (?items, seen \<union> valid_cids ?cs, d + refused seen ?cs) = (items', seen', d')"
      using Cons.prems(1) Inr by (simp add: refresh_row_eq)
    moreover have "scanned_rows (r # rows) = c # scanned_rows rows" by (simp add: scanned_rows_def Inr)
    ultimately show ?thesis using Cons.IH [OF _ _ s] by (simp add: Un_assoc)
  qed
qed

lemma batch_ok_Nil [simp]: "batch_ok []"
  by (simp add: batch_ok_def)

lemma refresh_cases:
  "(\<exists>items. refresh q cached = (items, Some items, None) \<and> batch_ok items)
   \<or> (\<exists>e. refresh q cached = (cached, None, Some e))"
proof (cases q)
  case (Rows rows err)
  obtain items seen d where f: "fold refresh_row rows ([], {}, 0) = (items, seen, d)"
    by (metis prod.exhaust)
  from fold_refresh [OF f] have "batch_ok items" by simp
  with f show ?thesis by (cases err) (auto simp: refresh_def Rows)
qed (simp add: refresh_def)

section \<open>The scan misses nothing that it does not consume\<close>

lemma last_slash: "d @ [x] = p @ x # u \<Longrightarrow> x \<notin> set d \<Longrightarrow> p = d"
  by (induction d arbitrary: p) (auto simp: Cons_eq_append_conv)

text \<open>An occurrence of \<open>/ipfs/\<close> inside a match can only start at its last byte.\<close>

lemma overlap_last:
  assumes "cidRegex d" "''/ipfs/'' @ d @ CHR ''/'' # t = p @ ''/ipfs/'' @ u" "p \<noteq> []"
  shows "p = ''/ipfs/'' @ d \<or> (\<exists>q. p = ''/ipfs/'' @ d @ CHR ''/'' # q \<and> t = q @ ''/ipfs/'' @ u)"
proof -
  have slash: "CHR ''/'' \<notin> set d" using cidRegex_no_special(1) [OF assms(1)] by simp
  obtain e d' where d: "d = e # d'" using assms(1) by (cases d) auto
  have e: "e \<noteq> CHR ''i''"
    using assms(1) d by (auto simp: cidRegex_def cid_v0_iff cid_v1_iff)
  from assms(2) consider us where "''/ipfs/'' @ d @ [CHR ''/''] = p @ us" "us @ t = ''/ipfs/'' @ u" "us \<noteq> []"
    | us where "p = ''/ipfs/'' @ d @ CHR ''/'' # us" "t = us @ ''/ipfs/'' @ u"
    using append_eq_append_conv2 [of "''/ipfs/'' @ d @ [CHR ''/'']" t p "''/ipfs/'' @ u"] by fastforce
  then show ?thesis
  proof cases
    case (1 us)
    then obtain us' where us: "us = CHR ''/'' # us'" "us' @ t = ''ipfs/'' @ u" by (cases us) auto
    with 1(1) assms(3) consider "p = ''/ipfs''" "us' = d @ [CHR ''/'']"
      | p' where "p = ''/ipfs/'' @ p'" "d @ [CHR ''/''] = p' @ CHR ''/'' # us'"
      by (auto simp: Cons_eq_append_conv)
    then show ?thesis
    proof cases
      case 1
      with us e d show ?thesis by simp
    next
      case (2 p')
      with last_slash [OF 2(2) slash] show ?thesis by simp
    qed
  qed simp
qed

lemma find_cids_complete:
  assumes "cidRegex c"
  shows "body = p @ ''/ipfs/'' @ c @ CHR ''/'' # t \<Longrightarrow>
     c \<in> set (find_cids body) \<or> (\<exists>q d. p = q @ ''/ipfs/'' @ d \<and> d \<in> set (find_cids body))"
proof (induction body arbitrary: p rule: find_cids.induct)
  case (2 a s)
  show ?case
  proof (cases "match_ipfs (a # s)")
    case None
    with "2.prems" match_ipfs_cid [OF assms, of t] have "p \<noteq> []" by auto
    then obtain p' where p: "p = a # p'" "s = p' @ ''/ipfs/'' @ c @ CHR ''/'' # t"
      using "2.prems" by (cases p) auto
    from "2.IH"(1) [OF None p(2)] show ?thesis by (auto simp: None p(1))
  next
    case (Some dt)
    obtain d r where dt: "dt = (d, r)" by fastforce
    with Some match_ipfs_Some have m: "a # s = ''/ipfs/'' @ d @ CHR ''/'' # r" "cidRegex d" by blast+
    show ?thesis
    proof (cases "p = []")
      case True
      with "2.prems" match_ipfs_cid [OF assms, of t] show ?thesis by (auto simp del: find_cids.simps simp: find_cids.simps(2))
    next
      case False
      from overlap_last [OF m(2) _ False, of r "c @ CHR ''/'' # t"] m(1) "2.prems"
      consider "p = ''/ipfs/'' @ d" | q where "p = ''/ipfs/'' @ d @ CHR ''/'' # q" "r = q @ ''/ipfs/'' @ c @ CHR ''/'' # t"
        by auto
      then show ?thesis
      proof cases
        case 1
        with Some dt show ?thesis by auto
      next
        case (2 q)
        from "2.IH"(2) [OF Some dt [symmetric] 2(2)] Some dt 2(1) show ?thesis by auto
      qed
    qed
  qed
qed simp

lemma find_cids_sound: "c \<in> set (find_cids body) \<Longrightarrow> \<exists>p t. body = p @ ''/ipfs/'' @ c @ CHR ''/'' # t"
proof (induction body rule: find_cids.induct)
  case (2 a s)
  show ?case
  proof (cases "match_ipfs (a # s)")
    case None
    with 2 obtain p t where "s = p @ ''/ipfs/'' @ c @ CHR ''/'' # t" by auto
    then have "a # s = (a # p) @ ''/ipfs/'' @ c @ CHR ''/'' # t" by simp
    then show ?thesis by blast
  next
    case (Some x)
    obtain d r where x: "x = (d, r)" by fastforce
    with Some match_ipfs_Some have m: "a # s = ''/ipfs/'' @ d @ CHR ''/'' # r" by blast
    show ?thesis
    proof (cases "c = d")
      case True
      with m have "a # s = [] @ ''/ipfs/'' @ c @ CHR ''/'' # r" by simp
      then show ?thesis by blast
    next
      case False
      with 2(3) Some x have "c \<in> set (find_cids r)" by simp
      from "2.IH"(2) [OF Some x [symmetric] this] obtain p t where "r = p @ ''/ipfs/'' @ c @ CHR ''/'' # t"
        by blast
      with m have "a # s = (''/ipfs/'' @ d @ CHR ''/'' # p) @ ''/ipfs/'' @ c @ CHR ''/'' # t" by simp
      then show ?thesis by blast
    qed
  qed
qed simp

text \<open>A match needs three slashes.\<close>

lemma find_cids_few_slashes: "count_list body (CHR ''/'') < 3 \<Longrightarrow> find_cids body = []"
proof (rule ccontr)
  assume "count_list body (CHR ''/'') < 3" "find_cids body \<noteq> []"
  moreover from this obtain c where "c \<in> set (find_cids body)" by (cases "find_cids body") auto
  ultimately show False using find_cids_sound by fastforce
qed

section \<open>Properties\<close>

text \<open>A row for the instances: a paper CID, and a body with both samples and a repetition.\<close>

definition demo_columns :: scanned where
  "demo_columns = \<lparr>col_author = ''alice'', col_permlink = ''p'', col_title = ''T'',
     col_ipfs_cid = Some sample_v0, col_filename = Some ''t.pdf'', col_discipline = None,
     col_supp = None, col_body = Some (''/ipfs/'' @ sample_v1 @ ''/'' @ ''/ipfs/'' @ sample_v0 @ ''/''),
     col_created = 0\<rparr>"



text \<open>
  What the scan misses. A gateway link that ends the text, without a slash after the CID, is
  not found; and of two links that share a slash only the first is.
\<close>

theorem inline_scan_misses:
  assumes "cidRegex a" "cidRegex b"
  shows "find_cids (''/ipfs/'' @ b) = [] \<and> find_cids (''/ipfs/'' @ a @ ''/ipfs/'' @ b @ ''/'') = [a]"
proof -
  have c: "count_list x (CHR ''/'') = 0" if "cidRegex x" for x
    using cidRegex_no_special(1) [OF that] by (simp add: count_notin)
  have "find_cids (''/ipfs/'' @ b) = []" by (rule find_cids_few_slashes) (simp add: c assms)
  moreover have "find_cids (''ipfs/'' @ b @ ''/'') = []" by (rule find_cids_few_slashes) (simp add: c assms)
  ultimately show ?thesis using match_ipfs_cid [OF assms(1), of "''ipfs/'' @ b @ ''/''"] by simp
qed

theorem inline_scan_misses_witness:
  "find_cids (''/ipfs/'' @ sample_v1 @ ''/ipfs/'' @ sample_v0 @ ''/'') = [sample_v1]"
  by (rule inline_scan_misses [THEN conjunct2, OF sample_v1_valid sample_v0_valid])

text \<open>
  C12: \<open>extractItemsFromRow\<close>, with its three entry points and three loops, is one pass over the
  row's candidates (the paper's CID, the supplementary files, the links in the body, in this order):
  it keeps each well-formed CID the first time it is offered, never one that is in \<open>seen\<close>, adds to
  \<open>seen\<close> exactly the well-formed ones, and counts exactly the malformed ones it has not seen.
\<close>

theorem extract_is_one_pass:
  "extractItemsFromRow row seen =
     (map (\<lambda>(cid, f, ty). item_of row cid f ty) (keep_new seen (candidates row)),
      seen \<union> {c \<in> fst ` set (candidates row). cidRegex c},
      length (filter (\<lambda>(c, _, _). c \<notin> seen \<and> \<not> cidRegex c) (candidates row)))"
  by (simp add: extract_eq valid_cids_def refused_def item_at_def cong: map_cong)

text \<open>
  C34: a successful refresh publishes each CID once. The new list holds only well-formed CIDs,
  no CID twice, and exactly the CIDs that the scanned rows offer; it replaces the old list and is what
  the callback receives. Rows that cannot be scanned are skipped.
\<close>

theorem refresh_publishes:
  "\<exists>items. refresh (Rows rows None) cached = (items, Some items, None)
     \<and> distinct (map item_CID items)
     \<and> item_CID ` set items = {c. cidRegex c \<and> (\<exists>r. Inr r \<in> set rows \<and> c \<in> fst ` set (candidates (row_of r)))}"
proof -
  obtain items seen d where f: "fold refresh_row rows ([], {}, 0) = (items, seen, d)"
    by (metis prod.exhaust)
  have "r \<in> set (scanned_rows rows) \<longleftrightarrow> Inr r \<in> set rows" for r
    by (force simp: scanned_rows_def split: sum.splits)
  with fold_refresh [OF f] show ?thesis
    by (auto simp: refresh_def f batch_ok_def valid_cids_def)
qed

text \<open>
  A failed query costs nothing. Through any history of refreshes, the list that \<open>Items\<close>
  shows is the last batch the callback received (empty before the first), whatever fails in between,
  and every batch holds well-formed CIDs without repetition.
\<close>

theorem discovery_keeps_last_batch:
  "discovery_run qs = (cached, batches) \<Longrightarrow>
     cached = (if batches = [] then [] else last batches) \<and> (\<forall>b \<in> set batches. batch_ok b)"
proof (induction qs arbitrary: cached batches rule: rev_induct)
  case (snoc q qs)
  obtain c b where h: "discovery_run qs = (c, b)" by fastforce
  from snoc.IH [OF this] snoc.prems h refresh_cases [of q c] show ?case
    by (auto simp: discovery_run_def)
qed (simp add: discovery_run_def)

theorem discovery_keeps_last_batch_witness:
  "list_all batch_ok (snd (discovery_run [Rows [Inr demo_columns] None, QueryError ''down'']))"
  unfolding list_all_iff by (rule discovery_keeps_last_batch [THEN conjunct2, OF prod.collapse [symmetric]])

end
