(* ===== verification/Strconv.thy ===== *)
theory Strconv
  imports GoStrings
begin

text \<open>
  Go's \<open>strconv\<close> as far as the program uses it: \<open>Itoa\<close> and \<open>FormatInt\<close> in base 10, and \<open>Atoi\<close> and
  \<open>ParseInt(s, 10, 64)\<close>, which agree on a 64-bit platform. Errors are not told apart.
\<close>

section \<open>Digits\<close>

definition digit_val :: "char \<Rightarrow> nat" where
  "digit_val c = of_char c - 48"

definition digit_char :: "nat \<Rightarrow> char" where
  "digit_char n = char_of (48 + n)"

definition nat_of_digits :: "string \<Rightarrow> nat" where
  "nat_of_digits s = foldl (\<lambda>n c. 10 * n + digit_val c) 0 s"

fun show_nat :: "nat \<Rightarrow> string" where
  "show_nat n = (if n < 10 then [digit_char n] else show_nat (n div 10) @ [digit_char (n mod 10)])"

declare show_nat.simps [simp del]

definition show_int :: "int \<Rightarrow> string" where
  "show_int i = (if i < 0 then CHR ''-'' # show_nat (nat (- i)) else show_nat (nat i))"

text \<open>The same on integers, for evaluation.\<close>

function show_pos :: "int \<Rightarrow> string" where
  "show_pos i = (if i < 10 then [digit_char (nat i)] else show_pos (i div 10) @ [digit_char (nat (i mod 10))])"
  by pat_completeness auto
termination
  by (relation "measure nat") auto

declare show_pos.simps [simp del]

lemma show_pos_nat: "0 \<le> i \<Longrightarrow> show_pos i = show_nat (nat i)"
proof (induction i rule: show_pos.induct)
  case (1 i)
  then show ?case
    by (subst show_pos.simps, subst show_nat.simps) (auto simp: nat_div_distrib nat_mod_distrib)
qed

lemma show_int_code [code]: "show_int i = (if i < 0 then CHR ''-'' # show_pos (- i) else show_pos i)"
  by (simp add: show_int_def show_pos_nat)

section \<open>Reading\<close>

definition in_int64 :: "int \<Rightarrow> bool" where
  "in_int64 i \<longleftrightarrow> - (2 ^ 63) \<le> i \<and> i < 2 ^ 63"

text \<open>One optional sign, at least one digit, nothing else, and the value within \<open>int64\<close>.\<close>

definition ParseInt :: "string \<Rightarrow> int option" where
  "ParseInt s =
     (let neg = HasPrefix s ''-''; ds = (if neg \<or> HasPrefix s ''+'' then drop 1 s else s) in
      if ds = [] \<or> \<not> list_all is_digit ds then None
      else (let v = (if neg then - int (nat_of_digits ds) else int (nat_of_digits ds)) in
        if in_int64 v then Some v else None))"

section \<open>Facts\<close>

lemma digit_char_is_digit: "n < 10 \<Longrightarrow> is_digit (digit_char n)"
  by (simp add: is_digit_def in_range_def digit_char_def less_eq_char_def)

lemma digit_val_char: "n < 10 \<Longrightarrow> digit_val (digit_char n) = n"
  by (simp add: digit_val_def digit_char_def)

lemma nat_of_digits_snoc: "nat_of_digits (s @ [c]) = 10 * nat_of_digits s + digit_val c"
  by (simp add: nat_of_digits_def)

lemma show_nat_digits: "list_all is_digit (show_nat n)"
proof (induction n rule: show_nat.induct)
  case (1 n)
  then show ?case by (subst show_nat.simps) (simp add: digit_char_is_digit)
qed

lemma show_nat_value [simp]: "nat_of_digits (show_nat n) = n"
proof (induction n rule: show_nat.induct)
  case (1 n)
  show ?case
  proof (cases "n < 10")
    case True
    then show ?thesis by (subst show_nat.simps) (simp add: nat_of_digits_def digit_val_char)
  next
    case False
    with 1 show ?thesis by (subst show_nat.simps) (simp add: nat_of_digits_snoc digit_val_char)
  qed
qed

lemma show_nat_head: "\<exists>c s. show_nat n = c # s \<and> is_digit c \<and> (c = CHR ''0'' \<longrightarrow> s = [])"
proof (induction n rule: show_nat.induct)
  case (1 n)
  show ?case
  proof (cases "n < 10")
    case True
    then show ?thesis by (subst show_nat.simps) (simp add: digit_char_is_digit)
  next
    case False
    with 1 obtain c s where s: "show_nat (n div 10) = c # s" "is_digit c" "c = CHR ''0'' \<longrightarrow> s = []" by blast
    have "c \<noteq> CHR ''0''"
    proof
      assume "c = CHR ''0''"
      with s have "nat_of_digits (show_nat (n div 10)) = 0" by (simp add: nat_of_digits_def digit_val_def)
      with False show False by simp
    qed
    with s False show ?thesis by (subst show_nat.simps) simp
  qed
qed

lemma sign_not_digit [simp]: "\<not> is_digit (CHR ''-'')" "\<not> is_digit (CHR ''+'')"
  by (simp_all add: is_digit_def in_range_def less_eq_char_def)

lemma show_int_head: "\<exists>c s. show_int i = c # s \<and> (is_digit c \<or> c = CHR ''-'')"
  using show_nat_head [of "nat i"] by (cases "i < 0") (auto simp: show_int_def)

lemma ParseInt_show_int: "in_int64 i \<Longrightarrow> ParseInt (show_int i) = Some i"
proof -
  assume i: "in_int64 i"
  obtain c s where h: "show_nat (nat \<bar>i\<bar>) = c # s" "is_digit c" using show_nat_head by blast
  then have "c \<noteq> CHR ''-''" "c \<noteq> CHR ''+''" by auto
  moreover have "list_all is_digit s" "nat_of_digits (c # s) = nat \<bar>i\<bar>"
    using show_nat_digits [of "nat \<bar>i\<bar>"] show_nat_value [of "nat \<bar>i\<bar>"] h by simp_all
  ultimately show ?thesis using i h
    by (cases "i < 0") (simp_all add: show_int_def ParseInt_def HasPrefix_def Let_def)
qed

lemma ParseInt_bounds: "ParseInt s = Some i \<Longrightarrow> in_int64 i"
  by (auto simp: ParseInt_def Let_def split: if_splits)

end
