(* ===== verification/JsonStruct.thy ===== *)
theory JsonStruct
  imports JsonUtf8 Strconv
begin

text \<open>
  Fields of Go structs in JSON (slices, booleans, integers), and the compact writer behind
  \<open>json.Marshal\<close> with its round trip.
\<close>

section \<open>Fields\<close>

text \<open>A Go slice of strings, which is \<open>nil\<close> or holds elements; the two differ when it is written.\<close>

type_synonym 'a slice = "'a list option"

definition elems :: "'a slice \<Rightarrow> 'a list" where
  "elems s = (case s of None \<Rightarrow> [] | Some xs \<Rightarrow> xs)"

definition json_slice :: "string slice \<Rightarrow> json" where
  "json_slice s = (case s of None \<Rightarrow> JNull | Some xs \<Rightarrow> JArr (map JStr xs))"

fun into_bool :: "json \<Rightarrow> bool \<Rightarrow> bool option" where
  "into_bool (JBool b) old = Some b"
| "into_bool JNull old = Some old"
| "into_bool _ old = None"

text \<open>Decoding into a slice that may have been decoded into before (a key that occurs twice): element
  \<open>i\<close> goes over element \<open>i\<close> of the array behind the slice, which keeps what the slice does not
  cover.\<close>

fun over_elems :: "json list \<Rightarrow> string list \<Rightarrow> string list option" where
  "over_elems [] bk = Some []"
| "over_elems (v # vs) bk =
     (case into_string v (case bk of [] \<Rightarrow> [] | b # _ \<Rightarrow> b) of
        None \<Rightarrow> None
      | Some s \<Rightarrow> map_option (\<lambda>ss. s # ss) (over_elems vs (tl bk)))"

fun into_slice :: "json \<Rightarrow> string list \<Rightarrow> (string slice \<times> string list) option" where
  "into_slice JNull bk = Some (None, [])"
| "into_slice (JArr vs) bk =
     (if vs = [] then Some (Some [], [])
      else map_option (\<lambda>ss. (Some ss, ss @ drop (length ss) bk)) (over_elems vs bk))"
| "into_slice _ bk = None"

text \<open>An \<open>int\<close> or \<open>int64\<close> field.\<close>

fun into_int :: "json \<Rightarrow> int \<Rightarrow> int option" where
  "into_int (JNum n) old = ParseInt n"
| "into_int JNull old = Some old"
| "into_int _ old = None"

lemma names_field_self [simp]: "names_field k k"
  by (simp add: names_field_def)

lemma over_elems_fresh: "over_elems (map JStr xs) [] = Some xs"
  by (induction xs) auto

lemma into_slice_json [simp]: "\<exists>b. into_slice (json_slice s) [] = Some (s, b)"
  by (cases s) (auto simp: json_slice_def over_elems_fresh)

lemma storable_slice: "list_all valid_utf8 (elems s) \<Longrightarrow> 0 < d \<Longrightarrow> storable d (json_slice s)"
  by (cases s) (simp_all add: json_slice_def elems_def list_all_iff)

section \<open>The compact form\<close>

text \<open>\<open>json.Marshal\<close>.\<close>

fun compact :: "json \<Rightarrow> string"
and compact_elems :: "json list \<Rightarrow> string"
and compact_members :: "(string \<times> json) list \<Rightarrow> string" where
  "compact JNull = ''null''"
| "compact (JBool b) = (if b then ''true'' else ''false'')"
| "compact (JNum n) = n"
| "compact (JStr s) = quote s"
| "compact (JArr vs) = ''['' @ compact_elems vs @ '']''"
| "compact (JObj ms) = [CHR 0x7B] @ compact_members ms @ [CHR 0x7D]"
| "compact_elems [] = []"
| "compact_elems (v # vs) = compact v @ (if vs = [] then [] else '','' @ compact_elems vs)"
| "compact_members [] = []"
| "compact_members ((k, v) # ms) =
     quote k @ '':'' @ compact v @ (if ms = [] then [] else '','' @ compact_members ms)"

text \<open>What the program writes: integers, strings that are UTF-8, nesting within the limit.\<close>

definition integer_literal :: "string \<Rightarrow> bool" where
  "integer_literal n \<longleftrightarrow> (case ParseInt n of None \<Rightarrow> False | Some i \<Rightarrow> n = show_int i)"

fun writable :: "int \<Rightarrow> json \<Rightarrow> bool" where
  "writable d JNull = True"
| "writable d (JBool b) = True"
| "writable d (JNum n) = integer_literal n"
| "writable d (JStr s) = valid_utf8 s"
| "writable d (JArr vs) = (0 < d \<and> list_all (writable (d - 1)) vs)"
| "writable d (JObj ms) = (0 < d \<and> list_all (\<lambda>(k, v). valid_utf8 k \<and> writable (d - 1) v) ms)"

lemma writable_slice: "list_all valid_utf8 (elems s) \<Longrightarrow> 0 < d \<Longrightarrow> writable d (json_slice s)"
  by (cases s) (simp_all add: json_slice_def elems_def list_all_iff)

text \<open>A number is read to its end only if what follows cannot go on with it.\<close>

definition num_end :: "string \<Rightarrow> bool" where
  "num_end r \<longleftrightarrow> (case r of [] \<Rightarrow> True | c # _ \<Rightarrow> \<not> is_digit c \<and> c \<notin> {CHR ''.'', CHR ''e'', CHR ''E''})"

lemma num_end_seps [simp]: "num_end []" "num_end (CHR '','' # r)" "num_end (CHR '']'' # r)" "num_end (CHR 0x7D # r)"
  by (simp_all add: num_end_def is_digit_def in_range_def less_eq_char_def)

lemma num_end_tails: "num_end r \<Longrightarrow> num_frac r = Some ([], r) \<and> num_exp r = Some ([], r)"
  by (cases r) (simp_all add: num_end_def num_frac_def num_exp_def)

lemma num_int_digits:
  assumes "num_end r"
  shows "num_int (show_nat n @ r) = Some (show_nat n, r)"
proof -
  obtain c s where s: "show_nat n = c # s" "is_digit c" "c = CHR ''0'' \<longrightarrow> s = []" using show_nat_head by blast
  have all: "\<forall>x \<in> set (show_nat n). is_digit x" using show_nat_digits [of n] by (simp add: list_all_iff)
  have "takeWhile is_digit r = []" using assms by (cases r) (auto simp: num_end_def)
  with all have "takeWhile is_digit (show_nat n @ r) = show_nat n" by (simp add: takeWhile_append2)
  with s show ?thesis by (cases "c = CHR ''0''") (simp_all add: num_int_def digits1_def)
qed

lemma parse_num_int:
  assumes "num_end r"
  shows "parse_num (show_int i @ r) = Some (show_int i, r)"
proof -
  obtain c s where s: "show_nat (nat i) = c # s" "is_digit c" using show_nat_head by blast
  then have "\<not> HasPrefix (show_nat (nat i) @ r) ''-''" by (auto simp: HasPrefix_single)
  then show ?thesis
    using num_end_tails [OF assms] num_int_digits [OF assms]
    by (simp add: parse_num_def show_int_def HasPrefix_def [of "CHR ''-'' # _"])
qed

lemma parse_value_num:
  assumes "integer_literal n" "num_end r"
  shows "parse_value d (n @ r) = Some (JNum n, r)"
proof -
  obtain i where n: "n = show_int i" using assms(1) by (auto simp: integer_literal_def split: option.splits)
  obtain c s where s: "n = c # s" "is_digit c \<or> c = CHR ''-''"
    using show_int_head [of i] n by blast
  have "c \<noteq> CHR ''['' \<and> c \<noteq> CHR 0x7B \<and> c \<noteq> CHR 0x22 \<and> c \<noteq> CHR ''t'' \<and> c \<noteq> CHR ''f'' \<and> c \<noteq> CHR ''n'' \<and> \<not> is_ws c"
    using s(2) by (auto simp: is_ws_def is_digit_def in_range_def less_eq_char_def)
  with parse_num_int [OF assms(2), of i] s n show ?thesis
    by (simp add: parse_value_unguarded value_at_def HasPrefix_def)
qed

lemma compact_start:
  "writable d v \<Longrightarrow> \<exists>c t. compact v = c # t \<and> \<not> is_ws c \<and> c \<noteq> CHR '']''"
proof (cases v)
  case (JNum n)
  assume "writable d v"
  with JNum obtain i where n: "n = show_int i" by (auto simp: integer_literal_def split: option.splits)
  show ?thesis using show_int_head [of i]
    by (auto simp: JNum n is_ws_def is_digit_def in_range_def less_eq_char_def)
qed (auto simp: quote_def)

lemma parse_compact:
  "writable d v \<Longrightarrow> num_end r \<Longrightarrow> parse_value d (compact v @ r) = Some (v, r)"
  "vs \<noteq> [] \<Longrightarrow> list_all (writable d) vs \<Longrightarrow> parse_elems d (compact_elems vs @ CHR '']'' # r) = Some (vs, r)"
  "ms \<noteq> [] \<Longrightarrow> list_all (\<lambda>(k, v). valid_utf8 k \<and> writable d v) ms
     \<Longrightarrow> parse_members d (compact_members ms @ CHR 0x7D # r) = Some (ms, r)"
proof (induction v and vs and ms arbitrary: d r and d r and d r
    rule: compact_compact_elems_compact_members.induct)
  case (3 n)
  then show ?case by (simp add: parse_value_num)
next
  case (4 s)
  then show ?case by (simp add: parse_value_quote)
next
  case (5 vs)
  have "\<not> HasPrefix (skip_ws (compact_elems vs @ CHR '']'' # r)) '']''" if ne: "vs \<noteq> []"
  proof -
    obtain v ws where vs: "vs = v # ws" using ne by (cases vs) auto
    with "5.prems" obtain c t where "compact v = c # t" "\<not> is_ws c" "c \<noteq> CHR '']''"
      using compact_start [of "d - 1" v] by auto
    with vs show ?thesis by (simp add: HasPrefix_single)
  qed
  with 5 show ?case
    by (cases "vs = []") (simp_all add: parse_value_unguarded value_at_def HasPrefix_def [of "CHR '']'' # _"])
next
  case (6 ms)
  have "\<not> HasPrefix (skip_ws (compact_members ms @ CHR 0x7D # r)) [CHR 0x7D]" if "ms \<noteq> []"
    using that by (cases ms) (auto simp: HasPrefix_single quote_def)
  with 6 show ?case
    by (cases "ms = []") (simp_all add: parse_value_unguarded value_at_def HasPrefix_def [of "CHR 0x7D # _"])
next
  case (8 v vs)
  then show ?case by (cases "vs = []") (simp_all add: parse_elems_unguarded [of d "compact v @ s" for s])
next
  case (10 key v ms)
  let ?x = "(if ms = [] then [] else '','' @ compact_members ms) @ CHR 0x7D # r"
  have v: "valid_utf8 key" "writable d v" and ms: "list_all (\<lambda>(k, v). valid_utf8 k \<and> writable d v) ms"
    using "10.prems"(2) by simp_all
  obtain c w where x: "skip_ws ?x = c # w" "ms = [] \<Longrightarrow> c = CHR 0x7D \<and> w = r"
      "ms \<noteq> [] \<Longrightarrow> c = CHR '','' \<and> w = compact_members ms @ CHR 0x7D # r"
    by (cases "ms = []") simp_all
  have "num_end ?x" by simp
  then have p: "parse_value d (compact v @ ?x) = Some (v, ?x)" by (rule "10.IH"(1) [OF v(2)])
  have "parse_members d (quote key @ '':'' @ compact v @ ?x) =
    (if c = CHR 0x7D then Some ([(key, v)], w)
     else if c = CHR '','' then map_option (\<lambda>(ms, q). ((key, v) # ms, q)) (parse_members d w) else None)"
    by (rule parse_members_unguarded [OF _ parse_enc_str [OF v(1)] skip_ws_start [OF not_ws(7)] p x(1)])
       (simp add: quote_append)
  with x ms "10.IH"(2) show ?case by (cases "ms = []") simp_all
qed (auto simp: parse_value_unguarded value_at_def HasPrefix_def)

lemma parse_json_compact: "writable max_depth v \<Longrightarrow> parse_json (compact v) = Some v"
  using parse_compact(1) [of max_depth v "[]"] by (simp add: parse_json_def skip_ws_def)

lemma integer_literal_show_int [simp]: "in_int64 i \<Longrightarrow> integer_literal (show_int i)"
  by (simp add: integer_literal_def ParseInt_show_int)

end
