(* ===== verification/AutoPin.thy ===== *)
theory AutoPin
  imports Discovery AtomicFile JsonStruct
begin

text \<open>
  \<open>autopin.go\<close>: the auto-pin rules, their filter (\<open>Matches\<close>, with the dates as \<open>time.Parse\<close> reads
  them), and the \<open>AutoPinManager\<close> that keeps the rules in memory and in \<open>autopin.json\<close>. Every
  operation runs under the manager's mutex, so it is one function on the manager's state. What the
  operating system answers to a save is the \<open>io_plan\<close> of \<open>AtomicFile\<close>; the random bytes of
  \<open>newID\<close> are an argument; \<open>uni\<close> is the Unicode part of \<open>strings.ToLower\<close>.
\<close>

section \<open>Rules\<close>

record AutoPinRule =
  r_ID :: string
  r_Name :: string
  r_Enabled :: bool
  r_Disciplines :: "string slice"
  r_Authors :: "string slice"
  r_CIDTypes :: "string slice"
  r_TitlePattern :: string
  r_CreatedAfter :: string
  r_CreatedBefore :: string

definition zero_rule :: AutoPinRule where
  "zero_rule = \<lparr>r_ID = [], r_Name = [], r_Enabled = False, r_Disciplines = None, r_Authors = None,
     r_CIDTypes = None, r_TitlePattern = [], r_CreatedAfter = [], r_CreatedBefore = []\<rparr>"

section \<open>Dates\<close>

text \<open>The proleptic Gregorian calendar of Go's \<open>time\<close>, in days since 1970-01-01. \<open>day_number\<close> takes
  a day of the month beyond the month's end, as \<open>time.Date\<close> does when it normalises.\<close>

definition leap :: "int \<Rightarrow> bool" where
  "leap y \<longleftrightarrow> y mod 4 = 0 \<and> (y mod 100 \<noteq> 0 \<or> y mod 400 = 0)"

definition days_in :: "int \<Rightarrow> int \<Rightarrow> int" where
  "days_in y m = (if m = 2 then (if leap y then 29 else 28)
     else if m \<in> {4, 6, 9, 11} then 30 else 31)"

definition days_before_year :: "int \<Rightarrow> int" where
  "days_before_year y = 365 * y + (y + 3) div 4 - (y + 99) div 100 + (y + 399) div 400"

definition days_before_month :: "int \<Rightarrow> int \<Rightarrow> int" where
  "days_before_month y m = sum_list (map (days_in y) [1..m - 1])"

definition day_number :: "int \<times> int \<times> int \<Rightarrow> int" where
  "day_number d = (case d of (y, m, k) \<Rightarrow> days_before_year y + days_before_month y m + k - 1 - 719528)"

definition ns_per_day :: int where
  "ns_per_day = 86400 * 1000000000"

definition midnight :: "int \<times> int \<times> int \<Rightarrow> int" where
  "midnight d = day_number d * ns_per_day"

definition AddDate :: "int \<times> int \<times> int \<Rightarrow> int \<Rightarrow> int \<times> int \<times> int" where
  "AddDate d days = (case d of (y, m, k) \<Rightarrow> (y, m, k + days))"

fun decimal :: "string \<Rightarrow> int" where
  "decimal s = foldl (\<lambda>n c. 10 * n + (of_char c - 48)) 0 s"

text \<open>\<open>time.Parse("2006-01-02", s)\<close>: four, two and two digits with dashes between, nothing after
  them, a month from 1 to 12 and a day that the month has.\<close>

definition parse_date :: "string \<Rightarrow> (int \<times> int \<times> int) option" where
  "parse_date s =
     (if length s = 10 \<and> list_all is_digit (take 4 s) \<and> s ! 4 = CHR ''-''
         \<and> list_all is_digit (take 2 (drop 5 s)) \<and> s ! 7 = CHR ''-'' \<and> list_all is_digit (drop 8 s)
      then (let y = decimal (take 4 s); m = decimal (take 2 (drop 5 s)); d = decimal (drop 8 s) in
         if 1 \<le> m \<and> m \<le> 12 \<and> 1 \<le> d \<and> d \<le> days_in y m then Some (y, m, d) else None)
      else None)"

section \<open>The filter\<close>

definition containsCI :: "(string \<Rightarrow> string) \<Rightarrow> string list \<Rightarrow> string \<Rightarrow> bool" where
  "containsCI uni haystack needle =
     (let n = ToLower uni needle in list_ex (\<lambda>s. ToLower uni s = n) haystack)"

definition Matches :: "(string \<Rightarrow> string) \<Rightarrow> AutoPinRule \<Rightarrow> DiscoveredItem \<Rightarrow> bool" where
  "Matches uni r item =
     (if \<not> r_Enabled r then False
      else if length (elems (r_Disciplines r)) > 0
         \<and> \<not> containsCI uni (elems (r_Disciplines r)) (item_Discipline item) then False
      else if length (elems (r_Authors r)) > 0
         \<and> \<not> containsCI uni (elems (r_Authors r)) (item_Author item) then False
      else if length (elems (r_CIDTypes r)) > 0
         \<and> \<not> containsCI uni (elems (r_CIDTypes r)) (item_CIDType item) then False
      else if r_TitlePattern r \<noteq> []
         \<and> \<not> Contains (ToLower uni (item_Title item)) (ToLower uni (r_TitlePattern r)) then False
      else if r_CreatedAfter r \<noteq> [] \<and>
         (case parse_date (r_CreatedAfter r) of Some t \<Rightarrow> item_Created item < midnight t | None \<Rightarrow> False)
         then False
      else if r_CreatedBefore r \<noteq> [] \<and>
         (case parse_date (r_CreatedBefore r) of
            Some t \<Rightarrow> \<not> item_Created item < midnight (AddDate t 1) | None \<Rightarrow> False)
         then False
      else True)"

section \<open>Rules as JSON\<close>

definition json_rule :: "AutoPinRule \<Rightarrow> json" where
  "json_rule r = JObj
     [(''id'', JStr (r_ID r)), (''name'', JStr (r_Name r)), (''enabled'', JBool (r_Enabled r)),
      (''disciplines'', json_slice (r_Disciplines r)), (''authors'', json_slice (r_Authors r)),
      (''cid_types'', json_slice (r_CIDTypes r)), (''title_pattern'', JStr (r_TitlePattern r)),
      (''created_after'', JStr (r_CreatedAfter r)), (''created_before'', JStr (r_CreatedBefore r))]"

definition marshal_rules :: "AutoPinRule slice \<Rightarrow> bytes" where
  "marshal_rules rs = MarshalIndent (case rs of None \<Rightarrow> JNull | Some xs \<Rightarrow> JArr (map json_rule xs))"

text \<open>The struct under construction with the arrays behind its three slices.\<close>

type_synonym rule_acc = "AutoPinRule \<times> string list \<times> string list \<times> string list"

definition rule_member :: "string \<times> json \<Rightarrow> rule_acc \<Rightarrow> rule_acc option" where
  "rule_member kv st = (case kv of (key, v) \<Rightarrow> case st of (r, bd, ba, bc) \<Rightarrow>
     if names_field key ''id'' then map_option (\<lambda>s. (r\<lparr>r_ID := s\<rparr>, bd, ba, bc)) (into_string v (r_ID r))
     else if names_field key ''name'' then map_option (\<lambda>s. (r\<lparr>r_Name := s\<rparr>, bd, ba, bc)) (into_string v (r_Name r))
     else if names_field key ''enabled'' then map_option (\<lambda>b. (r\<lparr>r_Enabled := b\<rparr>, bd, ba, bc)) (into_bool v (r_Enabled r))
     else if names_field key ''disciplines'' then map_option (\<lambda>(s, b). (r\<lparr>r_Disciplines := s\<rparr>, b, ba, bc)) (into_slice v bd)
     else if names_field key ''authors'' then map_option (\<lambda>(s, b). (r\<lparr>r_Authors := s\<rparr>, bd, b, bc)) (into_slice v ba)
     else if names_field key ''cid_types'' then map_option (\<lambda>(s, b). (r\<lparr>r_CIDTypes := s\<rparr>, bd, ba, b)) (into_slice v bc)
     else if names_field key ''title_pattern'' then map_option (\<lambda>s. (r\<lparr>r_TitlePattern := s\<rparr>, bd, ba, bc)) (into_string v (r_TitlePattern r))
     else if names_field key ''created_after'' then map_option (\<lambda>s. (r\<lparr>r_CreatedAfter := s\<rparr>, bd, ba, bc)) (into_string v (r_CreatedAfter r))
     else if names_field key ''created_before'' then map_option (\<lambda>s. (r\<lparr>r_CreatedBefore := s\<rparr>, bd, ba, bc)) (into_string v (r_CreatedBefore r))
     else Some (r, bd, ba, bc))"

fun decode_rule :: "json \<Rightarrow> AutoPinRule option" where
  "decode_rule (JObj ms) = map_option fst (fold_members rule_member ms (zero_rule, [], [], []))"
| "decode_rule JNull = Some zero_rule"
| "decode_rule _ = None"

fun decode_rules :: "json \<Rightarrow> AutoPinRule slice option" where
  "decode_rules JNull = Some None"
| "decode_rules (JArr vs) = map_option Some (decode_all decode_rule vs)"
| "decode_rules _ = None"

definition unmarshal_rules :: "bytes \<Rightarrow> AutoPinRule slice option" where
  "unmarshal_rules d = (case parse_json d of None \<Rightarrow> None | Some v \<Rightarrow> decode_rules v)"

section \<open>The manager\<close>

record manager =
  m_rules :: "AutoPinRule slice"
  m_filePath :: path
  m_files :: fs

datatype mgr_err =
    ReadingRules io_err
  | ParsingRules
  | WritingDefault io_err
  | WritingRules io_err
  | RuleNotFound string

text \<open>\<open>newID\<close> of 16 random bytes: their hexadecimal digits in groups of 8, 4, 4, 4 and 12.\<close>

definition hex_bytes :: "bytes \<Rightarrow> string" where
  "hex_bytes bs = concat (map (\<lambda>b. [hexd (byte b div 16), hexd (byte b mod 16)]) bs)"

definition newID :: "bytes \<Rightarrow> string" where
  "newID b = hex_bytes (take 4 b) @ ''-'' @ hex_bytes (take 2 (drop 4 b)) @ ''-''
     @ hex_bytes (take 2 (drop 6 b)) @ ''-'' @ hex_bytes (take 2 (drop 8 b)) @ ''-'' @ hex_bytes (drop 10 b)"

definition saveLocked :: "io_plan \<Rightarrow> manager \<Rightarrow> manager \<times> mgr_err option" where
  "saveLocked pl m = (case atomicWriteFile pl (m_files m) (m_filePath m) (marshal_rules (m_rules m)) of
     (f, e) \<Rightarrow> (m\<lparr>m_files := f\<rparr>, map_option WritingRules e))"

text \<open>\<open>NewAutoPinManager\<close>: \<open>rd\<close> is a read error other than a missing file. An error returns the file
  system as it is left.\<close>

definition NewAutoPinManager :: "io_err option \<Rightarrow> bytes \<Rightarrow> io_plan \<Rightarrow> fs \<Rightarrow> path \<Rightarrow> mgr_err \<times> fs + manager" where
  "NewAutoPinManager rd rnd pl f fp = (case rd of
     Some e \<Rightarrow> Inl (ReadingRules e, f)
   | None \<Rightarrow> (case read_file f fp of
       None \<Rightarrow>
         (let m = \<lparr>m_rules = Some [zero_rule\<lparr>r_ID := newID rnd, r_Name := ''All PEvO files'', r_Enabled := True\<rparr>],
                   m_filePath = fp, m_files = f\<rparr>
          in case saveLocked pl m of
               (m', None) \<Rightarrow> Inr m'
             | (m', Some e) \<Rightarrow> Inl (e, m_files m'))
     | Some data \<Rightarrow> (case unmarshal_rules data of
          None \<Rightarrow> Inl (ParsingRules, f)
        | Some rs \<Rightarrow> Inr \<lparr>m_rules = rs, m_filePath = fp, m_files = f\<rparr>)))"

definition Rules :: "manager \<Rightarrow> AutoPinRule list" where
  "Rules m = elems (m_rules m)"

definition AddRule :: "bytes \<Rightarrow> io_plan \<Rightarrow> AutoPinRule \<Rightarrow> manager \<Rightarrow> manager \<times> (mgr_err + AutoPinRule)" where
  "AddRule rnd pl r0 m =
     (let r = r0\<lparr>r_ID := newID rnd\<rparr>;
          m1 = m\<lparr>m_rules := Some (elems (m_rules m) @ [r])\<rparr>
      in case saveLocked pl m1 of
           (m2, Some e) \<Rightarrow> (m2\<lparr>m_rules := Some (butlast (elems (m_rules m2)))\<rparr>, Inl e)
         | (m2, None) \<Rightarrow> (m2, Inr r))"

text \<open>The index the loops over \<open>m.rules\<close> stop at.\<close>

fun rule_index :: "string \<Rightarrow> AutoPinRule list \<Rightarrow> nat option" where
  "rule_index ident [] = None"
| "rule_index ident (r # rs) = (if r_ID r = ident then Some 0 else map_option Suc (rule_index ident rs))"

definition UpdateRule :: "io_plan \<Rightarrow> string \<Rightarrow> AutoPinRule \<Rightarrow> manager \<Rightarrow> manager \<times> (mgr_err + AutoPinRule)" where
  "UpdateRule pl ident r0 m = (case rule_index ident (elems (m_rules m)) of
     None \<Rightarrow> (m, Inl (RuleNotFound ident))
   | Some i \<Rightarrow>
      (let existing = elems (m_rules m) ! i;
           r = r0\<lparr>r_ID := ident\<rparr>;
           m1 = m\<lparr>m_rules := Some ((elems (m_rules m))[i := r])\<rparr>
       in case saveLocked pl m1 of
            (m2, Some e) \<Rightarrow> (m2\<lparr>m_rules := Some ((elems (m_rules m2))[i := existing])\<rparr>, Inl e)
          | (m2, None) \<Rightarrow> (m2, Inr r)))"

definition DeleteRule :: "io_plan \<Rightarrow> string \<Rightarrow> manager \<Rightarrow> manager \<times> mgr_err option" where
  "DeleteRule pl ident m = (case rule_index ident (elems (m_rules m)) of
     None \<Rightarrow> (m, Some (RuleNotFound ident))
   | Some i \<Rightarrow> saveLocked pl (m\<lparr>m_rules := Some (take i (elems (m_rules m)) @ drop (i + 1) (elems (m_rules m)))\<rparr>))"

definition SetAllEnabled :: "io_plan \<Rightarrow> bool \<Rightarrow> manager \<Rightarrow> manager \<times> mgr_err option" where
  "SetAllEnabled pl enabled m =
     saveLocked pl (m\<lparr>m_rules := map_option (map (\<lambda>r. r\<lparr>r_Enabled := enabled\<rparr>)) (m_rules m)\<rparr>)"

fun matches_any :: "(string \<Rightarrow> string) \<Rightarrow> AutoPinRule list \<Rightarrow> DiscoveredItem \<Rightarrow> bool" where
  "matches_any uni [] item = False"
| "matches_any uni (r # rs) item = (if Matches uni r item then True else matches_any uni rs item)"

fun matching :: "(string \<Rightarrow> string) \<Rightarrow> AutoPinRule list \<Rightarrow> DiscoveredItem list \<Rightarrow> DiscoveredItem list \<Rightarrow> DiscoveredItem list" where
  "matching uni rs [] matched = matched"
| "matching uni rs (i # is) matched = matching uni rs is (if matches_any uni rs i then matched @ [i] else matched)"

definition MatchingItems :: "(string \<Rightarrow> string) \<Rightarrow> manager \<Rightarrow> DiscoveredItem list \<Rightarrow> DiscoveredItem list" where
  "MatchingItems uni m items = matching uni (elems (m_rules m)) items []"

section \<open>Facts: the filter\<close>

lemma Contains_iff: "Contains s sub \<longleftrightarrow> (\<exists>p q. s = p @ sub @ q)"
  using find_sub_None [of s sub] by (auto simp: Contains_def Index_def split: option.splits)

lemma containsCI_iff: "containsCI uni xs y \<longleftrightarrow> (\<exists>x \<in> set xs. ToLower uni x = ToLower uni y)"
  by (auto simp: containsCI_def list_ex_iff Let_def)

lemma ns_pos: "0 < ns_per_day"
  by (simp add: ns_per_day_def)

lemma before_midnight: "t < midnight d \<longleftrightarrow> t div ns_per_day < day_number d"
proof -
  have "t = ns_per_day * (t div ns_per_day) + t mod ns_per_day" by simp
  moreover have "0 \<le> t mod ns_per_day" "t mod ns_per_day < ns_per_day" using ns_pos by simp_all
  ultimately show ?thesis unfolding midnight_def ns_per_day_def by linarith
qed

lemma day_number_AddDate [simp]: "day_number (AddDate d k) = day_number d + k"
  by (simp add: day_number_def AddDate_def split: prod.splits)

lemma matches_any_iff: "matches_any uni rs i \<longleftrightarrow> (\<exists>r \<in> set rs. Matches uni r i)"
  by (induction rs) auto

lemma matching_filter: "matching uni rs items acc = acc @ filter (matches_any uni rs) items"
  by (induction items arbitrary: acc) auto

section \<open>Facts: the calendar\<close>

definition valid_date :: "int \<times> int \<times> int \<Rightarrow> bool" where
  "valid_date d = (case d of (y, m, k) \<Rightarrow> 1 \<le> m \<and> m \<le> 12 \<and> 1 \<le> k \<and> k \<le> days_in y m)"

definition next_day :: "int \<times> int \<times> int \<Rightarrow> int \<times> int \<times> int" where
  "next_day d = (case d of (y, m, k) \<Rightarrow>
     if k < days_in y m then (y, m, k + 1) else if m < 12 then (y, m + 1, 1) else (y + 1, 1, 1))"

lemma days_before_next_month: "1 \<le> m \<Longrightarrow> days_before_month y (m + 1) = days_before_month y m + days_in y m"
  by (simp add: days_before_month_def upto_rec2 [of 1 m])

lemma days_before_year_0_to_12: "days_before_month y 12 = (if leap y then 335 else 334)"
  by (simp add: days_before_month_def upto.simps [of 1 11] days_in_def)

lemma div_ceil_step:
  assumes "(0 :: int) < q"
  shows "(y + q) div q = (y + (q - 1)) div q + (if y mod q = 0 then 1 else 0)"
proof -
  obtain k r where y: "y = q * k + r" "0 \<le> r" "r < q"
    using assms mult_div_mod_eq [of q y] pos_mod_bound [of q y] pos_mod_sign [of q y] by metis
  then have m: "y mod q = r" by simp
  have "(y + (q - 1)) div q = k + (r + (q - 1)) div q" using assms y(1) by (simp add: add.assoc)
  moreover have "(y + q) div q = y div q + 1" "y div q = k" using assms y by (simp only: div_add_self2, simp_all)
  moreover have "(r + (q - 1)) div q = 1" if "r \<noteq> 0"
    using that y(2,3) div_add_self2 [of q "r - 1"] by (simp add: algebra_simps)
  moreover have "(q - 1) div q = 0" using assms by simp
  ultimately show ?thesis by (simp add: m)
qed

lemma div_ceil_succ:
  assumes "(0 :: int) < q" "q = p + 1"
  shows "(y + 1 + p) div q = (y + p) div q + (if y mod q = 0 then 1 else 0)"
proof -
  have "y + 1 + p = y + q" "y + p = y + (q - 1)" using assms(2) by simp_all
  with div_ceil_step [OF assms(1), of y] show ?thesis by metis
qed

lemma leap_terms: "(a' :: int) = a + A \<Longrightarrow> b' = b + B \<Longrightarrow> c' = c + C
   \<Longrightarrow> 365 * (y + 1) + a' - b' + c' = 365 * y + a - b + c + 365 + A - B + C"
  by simp

lemma leap_sum: "(b \<Longrightarrow> a) \<Longrightarrow> (c \<Longrightarrow> b) \<Longrightarrow>
  (x :: int) + 365 + (if a then 1 else 0) - (if b then 1 else 0) + (if c then 1 else 0)
    = x + (if a \<and> (\<not> b \<or> c) then 366 else 365)"
  by auto

lemma days_before_next_year: "days_before_year (y + 1) = days_before_year y + (if leap y then 366 else 365)"
proof -
  have "y mod 100 mod 4 = y mod 4" "y mod 400 mod 100 = y mod 100"
    by (rule mod_mod_cancel, simp)+
  then have m: "y mod 100 = 0 \<Longrightarrow> y mod 4 = 0" "y mod 400 = 0 \<Longrightarrow> y mod 100 = 0" by auto
  have "days_before_year (y + 1) = days_before_year y + 365 + (if y mod 4 = 0 then 1 else 0)
      - (if y mod 100 = 0 then 1 else 0) + (if y mod 400 = 0 then 1 else 0)"
    unfolding days_before_year_def by (intro leap_terms div_ceil_succ; simp)
  then show ?thesis unfolding leap_def by (simp only: leap_sum [OF m])
qed

lemma day_number_next:
  assumes "valid_date d"
  shows "day_number (next_day d) = day_number d + 1 \<and> valid_date (next_day d)"
proof -
  obtain y m k where d: "d = (y, m, k)" by (cases d)
  consider "k < days_in y m" | "k = days_in y m" "m < 12" | "k = days_in y m" "m = 12"
    using assms by (fastforce simp: valid_date_def d)
  then show ?thesis
  proof cases
    case 1
    with assms show ?thesis by (simp add: d next_day_def valid_date_def day_number_def)
  next
    case 2
    with assms days_before_next_month [of m y] show ?thesis
      by (simp add: d next_day_def valid_date_def day_number_def days_in_def)
  next
    case 3
    have "days_before_month (y + 1) 1 = 0" by (simp add: days_before_month_def)
    with 3 show ?thesis
      by (simp add: d next_day_def valid_date_def day_number_def days_before_next_year days_before_year_0_to_12 days_in_def)
  qed
qed

section \<open>Facts: JSON round trip\<close>

lemma rule_field_names [simp]:
  "fold_name ''id'' = ''id''" "fold_name ''name'' = ''name''" "fold_name ''enabled'' = ''enabled''"
  "fold_name ''disciplines'' = ''disciplines''" "fold_name ''authors'' = ''authors''"
  "fold_name ''cid_types'' = ''cid_types''" "fold_name ''title_pattern'' = ''title_pattern''"
  "fold_name ''created_after'' = ''created_after''" "fold_name ''created_before'' = ''created_before''"
  by (simp_all add: fold_name.simps HasPrefix_def ascii_lower_def is_upper_def in_range_def less_eq_char_def)

lemma rule_member_keys:
  "rule_member (''id'', v) (r, bd, ba, bc) = map_option (\<lambda>s. (r\<lparr>r_ID := s\<rparr>, bd, ba, bc)) (into_string v (r_ID r))"
  "rule_member (''name'', v) (r, bd, ba, bc) = map_option (\<lambda>s. (r\<lparr>r_Name := s\<rparr>, bd, ba, bc)) (into_string v (r_Name r))"
  "rule_member (''enabled'', v) (r, bd, ba, bc) = map_option (\<lambda>b. (r\<lparr>r_Enabled := b\<rparr>, bd, ba, bc)) (into_bool v (r_Enabled r))"
  "rule_member (''disciplines'', v) (r, bd, ba, bc) = map_option (\<lambda>(s, b). (r\<lparr>r_Disciplines := s\<rparr>, b, ba, bc)) (into_slice v bd)"
  "rule_member (''authors'', v) (r, bd, ba, bc) = map_option (\<lambda>(s, b). (r\<lparr>r_Authors := s\<rparr>, bd, b, bc)) (into_slice v ba)"
  "rule_member (''cid_types'', v) (r, bd, ba, bc) = map_option (\<lambda>(s, b). (r\<lparr>r_CIDTypes := s\<rparr>, bd, ba, b)) (into_slice v bc)"
  "rule_member (''title_pattern'', v) (r, bd, ba, bc) = map_option (\<lambda>s. (r\<lparr>r_TitlePattern := s\<rparr>, bd, ba, bc)) (into_string v (r_TitlePattern r))"
  "rule_member (''created_after'', v) (r, bd, ba, bc) = map_option (\<lambda>s. (r\<lparr>r_CreatedAfter := s\<rparr>, bd, ba, bc)) (into_string v (r_CreatedAfter r))"
  "rule_member (''created_before'', v) (r, bd, ba, bc) = map_option (\<lambda>s. (r\<lparr>r_CreatedBefore := s\<rparr>, bd, ba, bc)) (into_string v (r_CreatedBefore r))"
  by (simp_all add: rule_member_def names_field_def)

lemma decode_json_rule [simp]: "decode_rule (json_rule r) = Some r"
proof -
  obtain b1 b2 b3 where "into_slice (json_slice (r_Disciplines r)) [] = Some (r_Disciplines r, b1)"
    "into_slice (json_slice (r_Authors r)) [] = Some (r_Authors r, b2)"
    "into_slice (json_slice (r_CIDTypes r)) [] = Some (r_CIDTypes r, b3)"
    using into_slice_json by metis
  then show ?thesis by (simp add: json_rule_def rule_member_keys zero_rule_def)
qed

definition rule_utf8 :: "AutoPinRule \<Rightarrow> bool" where
  "rule_utf8 r \<longleftrightarrow> valid_utf8 (r_ID r) \<and> valid_utf8 (r_Name r) \<and> list_all valid_utf8 (elems (r_Disciplines r))
     \<and> list_all valid_utf8 (elems (r_Authors r)) \<and> list_all valid_utf8 (elems (r_CIDTypes r))
     \<and> valid_utf8 (r_TitlePattern r) \<and> valid_utf8 (r_CreatedAfter r) \<and> valid_utf8 (r_CreatedBefore r)"

lemma unmarshal_marshal_rules:
  assumes "list_all rule_utf8 (elems rs)"
  shows "unmarshal_rules (marshal_rules rs) = Some rs"
proof -
  have names: "valid_utf8 ''id''" "valid_utf8 ''name''" "valid_utf8 ''enabled''" "valid_utf8 ''disciplines''"
    "valid_utf8 ''authors''" "valid_utf8 ''cid_types''" "valid_utf8 ''title_pattern''"
    "valid_utf8 ''created_after''" "valid_utf8 ''created_before''"
    by (auto intro!: ascii_valid_utf8 simp: byte_def)
  have "storable (max_depth - 1) (json_rule r)" if "rule_utf8 r" for r
    using that by (simp add: json_rule_def rule_utf8_def names max_depth_def storable_slice)
  with assms have "storable max_depth (case rs of None \<Rightarrow> JNull | Some xs \<Rightarrow> JArr (map json_rule xs))"
    by (auto simp: elems_def list_all_iff max_depth_def split: option.splits)
  then show ?thesis
    by (simp add: unmarshal_rules_def marshal_rules_def parse_json_marshal split: option.splits)
qed

text \<open>Rules that were read are UTF-8.\<close>

lemma over_elems_utf8:
  "over_elems vs bk = Some ss \<Longrightarrow> list_all utf8_value vs \<Longrightarrow> list_all valid_utf8 bk \<Longrightarrow> list_all valid_utf8 ss"
proof (induction vs bk arbitrary: ss rule: over_elems.induct)
  case (2 v vs bk)
  have "valid_utf8 (case bk of [] \<Rightarrow> [] | b # _ \<Rightarrow> b)" using "2.prems"(3) by (cases bk) (simp_all add: valid_utf8.simps)
  moreover have "list_all valid_utf8 (tl bk)" using "2.prems"(3) by (cases bk) simp_all
  ultimately show ?case using 2 by (auto split: option.splits dest: into_string_utf8)
qed simp

lemma into_slice_utf8:
  assumes "into_slice v bk = Some (s, b)" "utf8_value v" "list_all valid_utf8 bk"
  shows "list_all valid_utf8 (elems s) \<and> list_all valid_utf8 b"
proof -
  have "\<forall>x \<in> set (drop k bk). valid_utf8 x" for k using assms(3) by (auto simp: list_all_iff dest: in_set_dropD)
  then show ?thesis using assms
    by (cases v) (auto simp: elems_def list_all_iff dest!: over_elems_utf8 split: if_splits)
qed

definition acc_utf8 :: "rule_acc \<Rightarrow> bool" where
  "acc_utf8 st \<longleftrightarrow> (case st of (r, bd, ba, bc) \<Rightarrow>
     rule_utf8 r \<and> list_all valid_utf8 bd \<and> list_all valid_utf8 ba \<and> list_all valid_utf8 bc)"

lemma rule_member_utf8:
  assumes "rule_member (key, v) st = Some st'" "acc_utf8 st" "utf8_value v"
  shows "acc_utf8 st'"
proof -
  obtain r bd ba bc where st: "st = (r, bd, ba, bc)" by (rule prod_cases4)
  note str = into_string_utf8 [OF _ assms(3)] and sl = into_slice_utf8 [OF _ assms(3)]
  from assms(1,2) show ?thesis
    by (auto simp: rule_member_def st acc_utf8_def rule_utf8_def dest: str sl split: if_splits)
qed

lemma decode_rule_utf8:
  assumes "decode_rule v = Some r" "utf8_value v"
  shows "rule_utf8 r"
proof -
  have z: "rule_utf8 zero_rule" by (simp add: rule_utf8_def zero_rule_def elems_def valid_utf8.simps)
  show ?thesis
  proof (cases v)
    case (JObj ms)
    with assms obtain st where f: "fold_members rule_member ms (zero_rule, [], [], []) = Some st" "r = fst st"
      and ms: "list_all (\<lambda>(k, v). valid_utf8 k \<and> utf8_value v) ms" by auto
    have "acc_utf8 st"
      by (rule fold_members_inv [OF f(1) _ ms]) (use z rule_member_utf8 in \<open>auto simp: acc_utf8_def\<close>)
    then show ?thesis by (auto simp: acc_utf8_def f(2))
  qed (use assms z in auto)
qed

lemma unmarshal_rules_utf8:
  assumes "unmarshal_rules d = Some rs"
  shows "list_all rule_utf8 (elems rs)"
proof -
  obtain v where v: "parse_json d = Some v" "decode_rules v = Some rs"
    using assms by (auto simp: unmarshal_rules_def split: option.splits)
  show ?thesis using v(2) parse_json_utf8 [OF v(1)]
    by (cases v) (auto simp: elems_def elim: decode_all_list [OF _ _ decode_rule_utf8])
qed

section \<open>Operations as one call, and what they mean\<close>

datatype mgr_op =
    OpAdd bytes AutoPinRule
  | OpUpdate string AutoPinRule
  | OpDelete string
  | OpSetAll bool

definition err_of :: "'m \<times> (mgr_err + 'a) \<Rightarrow> 'm \<times> mgr_err option" where
  "err_of x = (case x of (m, Inl e) \<Rightarrow> (m, Some e) | (m, Inr _) \<Rightarrow> (m, None))"

definition mgr_call :: "io_plan \<Rightarrow> mgr_op \<Rightarrow> manager \<Rightarrow> manager \<times> mgr_err option" where
  "mgr_call pl oper m = (case oper of
     OpAdd rnd r \<Rightarrow> err_of (AddRule rnd pl r m)
   | OpUpdate i r \<Rightarrow> err_of (UpdateRule pl i r m)
   | OpDelete i \<Rightarrow> DeleteRule pl i m
   | OpSetAll b \<Rightarrow> SetAllEnabled pl b m)"

text \<open>The rules as a finite map from identifiers, and what each operation does to it.\<close>

definition rule_map :: "AutoPinRule list \<Rightarrow> string \<rightharpoonup> AutoPinRule" where
  "rule_map rs = map_of (map (\<lambda>r. (r_ID r, r)) rs)"

definition unique_ids :: "AutoPinRule list \<Rightarrow> bool" where
  "unique_ids rs \<longleftrightarrow> distinct (map r_ID rs)"

definition spec_op :: "mgr_op \<Rightarrow> (string \<rightharpoonup> AutoPinRule) \<Rightarrow> (string \<rightharpoonup> AutoPinRule)" where
  "spec_op oper M = (case oper of
     OpAdd rnd r \<Rightarrow> M(newID rnd \<mapsto> r\<lparr>r_ID := newID rnd\<rparr>)
   | OpUpdate i r \<Rightarrow> M(i \<mapsto> r\<lparr>r_ID := i\<rparr>)
   | OpDelete i \<Rightarrow> M(i := None)
   | OpSetAll b \<Rightarrow> (\<lambda>i. map_option (\<lambda>r. r\<lparr>r_Enabled := b\<rparr>) (M i)))"

text \<open>\<open>newID\<close> gave an identifier that is not in use.\<close>

definition fresh_op :: "mgr_op \<Rightarrow> AutoPinRule list \<Rightarrow> bool" where
  "fresh_op oper rs = (case oper of OpAdd rnd r \<Rightarrow> newID rnd \<notin> r_ID ` set rs | _ \<Rightarrow> True)"

definition rolls_back :: "mgr_op \<Rightarrow> bool" where
  "rolls_back oper = (case oper of OpAdd _ _ \<Rightarrow> True | OpUpdate _ _ \<Rightarrow> True | _ \<Rightarrow> False)"

lemma elems_simps [simp]: "elems None = []" "elems (Some xs) = xs" "elems (map_option (map f) s) = map f (elems s)"
  by (simp_all add: elems_def split: option.splits)

lemma saveLocked_spec:
  assumes "saveLocked pl m = (m', e)" "fs_wf (m_files m)"
  shows "m_rules m' = m_rules m \<and> m_filePath m' = m_filePath m \<and> fs_wf (m_files m')
     \<and> read_file (m_files m') (m_filePath m) =
        (if e = None then Some (marshal_rules (m_rules m)) else read_file (m_files m) (m_filePath m))
     \<and> (\<forall>i. e \<noteq> Some (RuleNotFound i))"
proof -
  obtain f r where w: "atomicWriteFile pl (m_files m) (m_filePath m) (marshal_rules (m_rules m)) = (f, r)"
    by fastforce
  with assms awf.read_after_store [OF assms(2) w] awf.store_wf [OF assms(2) w] show ?thesis
    by (auto simp: saveLocked_def)
qed

lemma rule_index_Some: "rule_index i rs = Some k \<Longrightarrow> k < length rs \<and> r_ID (rs ! k) = i \<and> i \<notin> r_ID ` set (take k rs)"
  by (induction rs arbitrary: k) (auto split: if_splits)

lemma rule_index_None: "rule_index i rs = None \<longleftrightarrow> i \<notin> r_ID ` set rs"
  by (induction rs) auto

lemma rule_index_split:
  "rule_index i rs = Some k \<Longrightarrow> \<exists>xs r ys. rs = xs @ r # ys \<and> k = length xs \<and> r_ID r = i \<and> i \<notin> r_ID ` set xs"
  using rule_index_Some [of i rs k] id_take_nth_drop [of k rs] by (metis length_take min.absorb4)

text \<open>What a call leaves behind, by the save's outcome.\<close>

lemma mgr_call_spec:
  assumes "mgr_call pl oper m = (m', e)" "fs_wf (m_files m)"
  shows "m_filePath m' = m_filePath m \<and> fs_wf (m_files m')
     \<and> (e = None \<longrightarrow> read_file (m_files m') (m_filePath m) = Some (marshal_rules (m_rules m')))
     \<and> (e \<noteq> None \<longrightarrow> read_file (m_files m') (m_filePath m) = read_file (m_files m) (m_filePath m)
          \<and> (rolls_back oper \<or> (\<exists>i. e = Some (RuleNotFound i)) \<longrightarrow> elems (m_rules m') = elems (m_rules m)))"
proof (cases oper)
  case (OpAdd rnd r)
  let ?m = "m\<lparr>m_rules := Some (elems (m_rules m) @ [r\<lparr>r_ID := newID rnd\<rparr>])\<rparr>"
  obtain m1 e1 where s: "saveLocked pl ?m = (m1, e1)" by fastforce
  from saveLocked_spec [OF s] assms s OpAdd show ?thesis
    by (cases e1) (auto simp: mgr_call_def AddRule_def err_of_def Let_def rolls_back_def)
next
  case (OpUpdate i r)
  show ?thesis
  proof (cases "rule_index i (elems (m_rules m))")
    case None
    with OpUpdate assms show ?thesis by (auto simp: mgr_call_def UpdateRule_def err_of_def)
  next
    case (Some k)
    let ?m = "m\<lparr>m_rules := Some ((elems (m_rules m))[k := r\<lparr>r_ID := i\<rparr>])\<rparr>"
    obtain m1 e1 where s: "saveLocked pl ?m = (m1, e1)" by fastforce
    from saveLocked_spec [OF s] assms s OpUpdate Some show ?thesis
      by (cases e1) (auto simp: mgr_call_def UpdateRule_def err_of_def Let_def rolls_back_def)
  qed
next
  case (OpDelete i)
  show ?thesis
  proof (cases "rule_index i (elems (m_rules m))")
    case None
    with OpDelete assms show ?thesis by (auto simp: mgr_call_def DeleteRule_def)
  next
    case (Some k)
    let ?m = "m\<lparr>m_rules := Some (take k (elems (m_rules m)) @ drop (k + 1) (elems (m_rules m)))\<rparr>"
    from OpDelete Some assms(1) have s: "saveLocked pl ?m = (m', e)" by (simp add: mgr_call_def DeleteRule_def)
    from saveLocked_spec [OF s] assms(2) OpDelete show ?thesis by (auto simp: rolls_back_def)
  qed
next
  case (OpSetAll b)
  with assms(1) have s: "saveLocked pl (m\<lparr>m_rules := map_option (map (\<lambda>r. r\<lparr>r_Enabled := b\<rparr>)) (m_rules m)\<rparr>) = (m', e)"
    by (simp add: mgr_call_def SetAllEnabled_def)
  from saveLocked_spec [OF s] assms(2) OpSetAll show ?thesis by (auto simp: rolls_back_def)
qed

lemma rule_map_simps [simp]:
  "rule_map [] = Map.empty" "rule_map (r # rs) = (rule_map rs)(r_ID r \<mapsto> r)"
  "rule_map (xs @ ys) = rule_map ys ++ rule_map xs"
  by (simp_all add: rule_map_def)

lemma rule_map_None: "i \<notin> r_ID ` set rs \<Longrightarrow> rule_map rs i = None"
  by (induction rs) auto

lemma rule_map_split:
  assumes "unique_ids (xs @ r # ys)"
  shows "rule_map (xs @ ys) = (rule_map (xs @ r # ys))(r_ID r := None)
    \<and> (r_ID r' = r_ID r \<longrightarrow> rule_map (xs @ r' # ys) = (rule_map (xs @ r # ys))(r_ID r \<mapsto> r'))"
proof -
  have "rule_map xs (r_ID r) = None" "rule_map ys (r_ID r) = None"
    using assms by (auto simp: unique_ids_def intro!: rule_map_None)
  then show ?thesis by (auto simp: fun_eq_iff map_add_def split: option.splits)
qed

lemma rule_map_append: "r_ID r \<notin> r_ID ` set rs \<Longrightarrow> rule_map (rs @ [r]) = (rule_map rs)(r_ID r \<mapsto> r)"
  using rule_map_None [of "r_ID r" rs] by (auto simp: fun_eq_iff map_add_def split: option.splits)

lemma rule_map_enabled:
  "rule_map (map (\<lambda>r. r\<lparr>r_Enabled := b\<rparr>) rs) i = map_option (\<lambda>r. r\<lparr>r_Enabled := b\<rparr>) (rule_map rs i)"
  by (induction rs) auto

lemma unique_ids_update: "unique_ids (xs @ r # ys) \<Longrightarrow> r_ID r' = r_ID r \<Longrightarrow> unique_ids (xs @ r' # ys) \<and> unique_ids (xs @ ys)"
  by (auto simp: unique_ids_def)

lemma elems_set_enabled: "map r_ID (map (\<lambda>r. r\<lparr>r_Enabled := b\<rparr>) rs) = map r_ID rs"
  by simp

text \<open>The rules after a call whose save succeeded.\<close>

definition list_op :: "mgr_op \<Rightarrow> AutoPinRule list \<Rightarrow> AutoPinRule list" where
  "list_op oper rs = (case oper of
     OpAdd rnd r \<Rightarrow> rs @ [r\<lparr>r_ID := newID rnd\<rparr>]
   | OpUpdate i r \<Rightarrow> (case rule_index i rs of Some k \<Rightarrow> rs[k := r\<lparr>r_ID := i\<rparr>] | None \<Rightarrow> rs)
   | OpDelete i \<Rightarrow> (case rule_index i rs of Some k \<Rightarrow> take k rs @ drop (k + 1) rs | None \<Rightarrow> rs)
   | OpSetAll b \<Rightarrow> map (\<lambda>r. r\<lparr>r_Enabled := b\<rparr>) rs)"

lemma saveLocked_rules: "saveLocked pl m = (m', e) \<Longrightarrow> m_rules m' = m_rules m"
  by (auto simp: saveLocked_def split: prod.splits)

lemma mgr_call_elems:
  assumes "mgr_call pl oper m = (m', None)"
  shows "elems (m_rules m') = list_op oper (elems (m_rules m))
     \<and> (\<forall>i r. oper = OpUpdate i r \<or> oper = OpDelete i \<longrightarrow> rule_index i (elems (m_rules m)) \<noteq> None)"
proof (cases oper)
  case (OpAdd rnd r)
  let ?m = "m\<lparr>m_rules := Some (elems (m_rules m) @ [r\<lparr>r_ID := newID rnd\<rparr>])\<rparr>"
  obtain m1 e1 where s: "saveLocked pl ?m = (m1, e1)" by fastforce
  with assms OpAdd saveLocked_rules [OF s] show ?thesis
    by (cases e1) (simp_all add: mgr_call_def AddRule_def err_of_def list_op_def)
next
  case (OpUpdate i r)
  with assms obtain k where k: "rule_index i (elems (m_rules m)) = Some k"
    by (auto simp: mgr_call_def UpdateRule_def err_of_def split: option.splits)
  let ?m = "m\<lparr>m_rules := Some ((elems (m_rules m))[k := r\<lparr>r_ID := i\<rparr>])\<rparr>"
  obtain m1 e1 where s: "saveLocked pl ?m = (m1, e1)" by fastforce
  with assms OpUpdate k saveLocked_rules [OF s] show ?thesis
    by (cases e1) (simp_all add: mgr_call_def UpdateRule_def err_of_def list_op_def)
next
  case (OpDelete i)
  with assms obtain k where k: "rule_index i (elems (m_rules m)) = Some k"
    by (auto simp: mgr_call_def DeleteRule_def split: option.splits)
  with assms OpDelete show ?thesis
    by (auto simp: mgr_call_def DeleteRule_def list_op_def dest!: saveLocked_rules)
next
  case (OpSetAll b)
  with assms show ?thesis by (auto simp: mgr_call_def SetAllEnabled_def list_op_def dest!: saveLocked_rules)
qed

lemma list_op_map:
  assumes "unique_ids rs" "fresh_op oper rs"
    "\<forall>i r. oper = OpUpdate i r \<or> oper = OpDelete i \<longrightarrow> rule_index i rs \<noteq> None"
  shows "rule_map (list_op oper rs) = spec_op oper (rule_map rs) \<and> unique_ids (list_op oper rs)"
proof (cases oper)
  case (OpAdd rnd r)
  with assms(1,2) rule_map_append [of "r\<lparr>r_ID := newID rnd\<rparr>" rs] show ?thesis
    by (auto simp: list_op_def spec_op_def fresh_op_def unique_ids_def simp del: rule_map_simps)
next
  case (OpUpdate i r)
  with assms(3) obtain k where k: "rule_index i rs = Some k" by auto
  from rule_index_split [OF k] obtain xs r0 ys where "rs = xs @ r0 # ys" "k = length xs" "r_ID r0 = i" by blast
  with assms(1) OpUpdate k rule_map_split [of xs r0 ys "r\<lparr>r_ID := i\<rparr>"] unique_ids_update [of xs r0 ys "r\<lparr>r_ID := i\<rparr>"]
  show ?thesis by (simp add: list_op_def spec_op_def del: rule_map_simps)
next
  case (OpDelete i)
  with assms(3) obtain k where k: "rule_index i rs = Some k" by auto
  from rule_index_split [OF k] obtain xs r0 ys where "rs = xs @ r0 # ys" "k = length xs" "r_ID r0 = i" by blast
  with assms(1) OpDelete k rule_map_split [of xs r0 ys r0] unique_ids_update [of xs r0 ys r0] show ?thesis
    by (simp add: list_op_def spec_op_def del: rule_map_simps)
next
  case (OpSetAll b)
  with assms(1) show ?thesis
    by (simp add: list_op_def spec_op_def fun_eq_iff rule_map_enabled unique_ids_def comp_def)
qed

section \<open>The file and the memory agree\<close>

definition op_utf8 :: "mgr_op \<Rightarrow> bool" where
  "op_utf8 oper = (case oper of OpAdd rnd r \<Rightarrow> rule_utf8 r | OpUpdate i r \<Rightarrow> rule_utf8 r | _ \<Rightarrow> True)"

definition rules_synced :: "manager \<Rightarrow> bool" where
  "rules_synced m \<longleftrightarrow> fs_wf (m_files m) \<and> list_all rule_utf8 (elems (m_rules m))
     \<and> (\<exists>d. read_file (m_files m) (m_filePath m) = Some d \<and> map_option elems (unmarshal_rules d) = Some (elems (m_rules m)))"

text \<open>A call whose failure, if it fails, leaves the rules in memory as they were.\<close>

inductive mgr_step :: "manager \<Rightarrow> io_plan \<times> mgr_op \<Rightarrow> manager \<Rightarrow> bool" where
  mgr_step: "mgr_call pl oper m = (m', e) \<Longrightarrow> op_utf8 oper \<Longrightarrow>
     e = None \<or> rolls_back oper \<or> (\<exists>i. e = Some (RuleNotFound i)) \<Longrightarrow> mgr_step m (pl, oper) m'"

inductive_simps mgr_step_iff: "mgr_step m (pl, oper) m'"

lemma hex_ascii: "b < 256 \<Longrightarrow> byte (hexd (b div 16)) < 128 \<and> byte (hexd (b mod 16)) < 128"
  by (auto simp: hexd_def chr_def byte_def)

lemma newID_utf8: "valid_utf8 (newID b)"
proof (rule ascii_valid_utf8)
  have "byte c < 256" for c by (simp add: byte_def)
  then have "\<forall>c \<in> set (hex_bytes bs). byte c < 128" for bs
    using hex_ascii by (auto simp: hex_bytes_def)
  then show "\<forall>c \<in> set (newID b). byte c < 128" by (auto simp: newID_def byte_def)
qed

lemma list_op_utf8:
  assumes "op_utf8 oper" "list_all rule_utf8 rs"
  shows "list_all rule_utf8 (list_op oper rs)"
proof (cases oper)
  case (OpUpdate i r)
  have "list_all rule_utf8 (rs[k := r\<lparr>r_ID := i\<rparr>])" if k: "rule_index i rs = Some k" for k
  proof -
    from rule_index_Some [OF k] have "k < length rs" "r_ID (rs ! k) = i" by simp_all
    with assms(2) have "valid_utf8 i" by (metis list_all_length rule_utf8_def)
    then have "rule_utf8 (r\<lparr>r_ID := i\<rparr>)" using assms(1) OpUpdate by (simp add: op_utf8_def rule_utf8_def)
    then show ?thesis using assms(2) set_update_subset_insert [of rs k] by (auto simp: list_all_iff)
  qed
  with OpUpdate assms(2) show ?thesis by (simp add: list_op_def split: option.splits)
qed (use assms in \<open>auto simp: list_op_def op_utf8_def rule_utf8_def newID_utf8 list_all_iff
      dest: in_set_takeD in_set_dropD split: option.splits\<close>)

lemma mgr_step_synced:
  assumes "rules_synced m" "mgr_step m l m'"
  shows "rules_synced m'"
  using assms(2,1)
proof (induction rule: mgr_step.induct)
  case (mgr_step pl oper m m' e)
  then have s: "fs_wf (m_files m)" "list_all rule_utf8 (elems (m_rules m))" by (simp_all add: rules_synced_def)
  note spec = mgr_call_spec [OF mgr_step(1) s(1)]
  show ?case
  proof (cases e)
    case None
    with spec mgr_call_elems [of pl oper m m'] list_op_utf8 [OF mgr_step(2) s(2)] mgr_step(1) show ?thesis
      by (simp add: rules_synced_def unmarshal_marshal_rules)
  next
    case (Some x)
    with spec mgr_step.hyps(3) mgr_step.prems show ?thesis by (auto simp: rules_synced_def)
  qed
qed

text \<open>A manager that starts is in that state.\<close>

lemma NewAutoPinManager_synced:
  assumes "NewAutoPinManager rd rnd pl f fp = Inr m" "fs_wf f"
  shows "rules_synced m \<and> m_filePath m = fp"
proof (cases "read_file f fp")
  case None
  let ?r = "zero_rule\<lparr>r_ID := newID rnd, r_Name := ''All PEvO files'', r_Enabled := True\<rparr>"
  let ?m = "\<lparr>m_rules = Some [?r], m_filePath = fp, m_files = f\<rparr>"
  have u: "rule_utf8 ?r"
    by (auto simp: rule_utf8_def zero_rule_def elems_def newID_utf8 byte_def valid_utf8.simps intro!: ascii_valid_utf8)
  obtain m1 e where s: "saveLocked pl ?m = (m1, e)" by fastforce
  with assms None have "e = None" "m = m1" by (auto simp: NewAutoPinManager_def Let_def split: option.splits)
  with saveLocked_spec [OF s] assms(2) unmarshal_marshal_rules [of "Some [?r]"] u show ?thesis
    by (auto simp: rules_synced_def)
next
  case (Some d)
  with assms show ?thesis
    by (auto simp: NewAutoPinManager_def rules_synced_def dest: unmarshal_rules_utf8 split: option.splits)
qed

interpretation synced: state_invariant mgr_step "\<lambda>m. rules_synced m \<and> m_filePath m = fp" for fp
proof
  fix m l m'
  assume m: "rules_synced m \<and> m_filePath m = fp" and s: "mgr_step m l m'"
  obtain pl oper e where "mgr_call pl oper m = (m', e)" using s by (auto elim: mgr_step.cases)
  with m mgr_call_spec [of pl oper m m' e] have "m_filePath m' = fp" by (simp add: rules_synced_def)
  with mgr_step_synced [OF _ s] m show "rules_synced m' \<and> m_filePath m' = fp" by simp
qed

section \<open>Properties\<close>

definition demo_manager :: manager where
  "demo_manager = \<lparr>m_rules = Some [zero_rule\<lparr>r_ID := ''a''\<rparr>], m_filePath = ''autopin.json'', m_files = empty_fs\<rparr>"

text \<open>Concrete answers: every system call succeeds, or the disk cannot be written.\<close>

definition plan_full :: io_plan where
  "plan_full = plan_ok\<lparr>open_err := Some (IOErr ''no space left on device'')\<rparr>"

text \<open>A manager whose rules have been saved.\<close>

definition demo_saved :: "AutoPinRule list \<Rightarrow> manager" where
  "demo_saved rs = \<lparr>m_rules = Some rs, m_filePath = ''autopin.json'',
     m_files = fst (atomicWriteFile plan_ok empty_fs ''autopin.json'' (marshal_rules (Some rs)))\<rparr>"

lemma demo_saved_synced:
  assumes "list_all rule_utf8 rs"
  shows "rules_synced (demo_saved rs)"
proof -
  obtain f where w: "atomicWriteFile plan_ok empty_fs ''autopin.json'' (marshal_rules (Some rs)) = (f, None)"
    using plan_ok_write by (metis prod.exhaust)
  from awf.store_ok [OF fs_wf_empty w] awf.store_wf [OF fs_wf_empty w] assms show ?thesis
    by (simp add: rules_synced_def demo_saved_def w unmarshal_marshal_rules)
qed

lemma zero_rule_utf8: "valid_utf8 i \<Longrightarrow> rule_utf8 (zero_rule\<lparr>r_ID := i\<rparr>)"
  by (simp add: rule_utf8_def zero_rule_def valid_utf8.simps)

lemma rule_map_Some: "i \<in> r_ID ` set rs \<Longrightarrow> rule_map rs i \<noteq> None"
  by (induction rs) auto

text \<open>
  What a rule means. An enabled rule matches an item exactly if each list that is not empty
  holds the item's value up to \<open>ToLower\<close>, the lowered title contains the lowered pattern, and the
  civil day (UTC) of the item's creation lies between the two dates, both included, where a date that
  \<open>time.Parse\<close> refuses counts as absent.
\<close>

theorem rule_matches_spec:
  "Matches uni r i \<longleftrightarrow> r_Enabled r
     \<and> (elems (r_Disciplines r) = [] \<or> (\<exists>x \<in> set (elems (r_Disciplines r)). ToLower uni x = ToLower uni (item_Discipline i)))
     \<and> (elems (r_Authors r) = [] \<or> (\<exists>x \<in> set (elems (r_Authors r)). ToLower uni x = ToLower uni (item_Author i)))
     \<and> (elems (r_CIDTypes r) = [] \<or> (\<exists>x \<in> set (elems (r_CIDTypes r)). ToLower uni x = ToLower uni (item_CIDType i)))
     \<and> (r_TitlePattern r = [] \<or> (\<exists>p q. ToLower uni (item_Title i) = p @ ToLower uni (r_TitlePattern r) @ q))
     \<and> (case parse_date (r_CreatedAfter r) of None \<Rightarrow> True | Some d \<Rightarrow> day_number d \<le> item_Created i div ns_per_day)
     \<and> (case parse_date (r_CreatedBefore r) of None \<Rightarrow> True | Some d \<Rightarrow> item_Created i div ns_per_day \<le> day_number d)"
proof -
  have "parse_date [] = None" by (simp add: parse_date_def)
  then show ?thesis
    by (auto simp: Matches_def containsCI_iff Contains_iff before_midnight split: option.splits)
qed

text \<open>
  The day numbers are those of the Gregorian calendar: 1970-01-01 is day 0, and the day after
  a date (the next in the month, or the first of the next month or year) has the next number. A
  \<open>CreatedBefore\<close> bound, computed with \<open>AddDate(0, 0, 1)\<close>, is the start of that next day.
\<close>

theorem calendar_exact:
  assumes "valid_date d"
  shows "day_number (1970, 1, 1) = 0 \<and> valid_date (next_day d) \<and> day_number (next_day d) = day_number d + 1
     \<and> midnight (AddDate d 1) = midnight (next_day d)"
proof -
  have "day_number (1970, 1, 1) = 0"
    by (simp add: day_number_def days_before_year_def days_before_month_def)
  with day_number_next [OF assms] show ?thesis by (simp add: midnight_def)
qed

theorem calendar_exact_witness:
  "day_number (next_day (2024, 2, 29)) = day_number (2024, 2, 29) + 1 \<and> next_day (2024, 2, 29) = (2024, 3, 1)"
proof -
  have "valid_date (2024, 2, 29)" by (simp add: valid_date_def days_in_def leap_def)
  from calendar_exact [OF this] show ?thesis by (simp add: next_day_def days_in_def leap_def)
qed

text \<open>
  \<open>MatchingItems\<close> returns the items that some rule matches, in their order, each once however
  many rules match it. With every rule switched off it returns nothing; with the default rule that
  a first start creates it returns every item.
\<close>

theorem matching_items_exact:
  "MatchingItems uni m items = filter (\<lambda>i. \<exists>r \<in> set (elems (m_rules m)). Matches uni r i) items
   \<and> MatchingItems uni (fst (SetAllEnabled pl False m)) items = []
   \<and> (case NewAutoPinManager None rnd plan_ok f fp of
        Inr m0 \<Rightarrow> read_file f fp = None \<longrightarrow> MatchingItems uni m0 items = items
      | Inl _ \<Rightarrow> read_file f fp \<noteq> None)"
proof -
  obtain m' e where s: "saveLocked pl (m\<lparr>m_rules := map_option (map (\<lambda>r. r\<lparr>r_Enabled := False\<rparr>)) (m_rules m)\<rparr>) = (m', e)"
    by fastforce
  from saveLocked_rules [OF s] have "MatchingItems uni m' items = []"
    by (auto simp: MatchingItems_def matching_filter matches_any_iff Matches_def)
  moreover have "case NewAutoPinManager None rnd plan_ok f fp of
        Inr m0 \<Rightarrow> read_file f fp = None \<longrightarrow> MatchingItems uni m0 items = items
      | Inl _ \<Rightarrow> read_file f fp \<noteq> None"
  proof (cases "read_file f fp")
    case None
    let ?r = "zero_rule\<lparr>r_ID := newID rnd, r_Name := ''All PEvO files'', r_Enabled := True\<rparr>"
    let ?m = "\<lparr>m_rules = Some [?r], m_filePath = fp, m_files = f\<rparr>"
    obtain m1 e1 where s1: "saveLocked plan_ok ?m = (m1, e1)" by fastforce
    have "e1 = None" using s1 by (auto simp: saveLocked_def dest: plan_ok_write split: prod.splits)
    moreover have "Matches uni ?r i" for i by (simp add: Matches_def zero_rule_def)
    ultimately show ?thesis using saveLocked_rules [OF s1] None s1
      by (simp add: NewAutoPinManager_def MatchingItems_def matching_filter Let_def)
  qed (simp split: sum.splits)
  ultimately show ?thesis
    by (simp add: SetAllEnabled_def s MatchingItems_def matching_filter matches_any_iff cong: filter_cong)
qed

theorem matching_items_exact_witness:
  "MatchingItems (\<lambda>s. s) (fst (SetAllEnabled plan_full False demo_manager)) [] = []"
  by (rule matching_items_exact [THEN conjunct2, THEN conjunct1])

text \<open>
  C13: the manager is a map from identifiers to rules. Whatever the operating system answers: a
  call that returns no error has done to the map what its name says (with identifiers still unique)
  and has written the rules to the file; a call that returns an error has left the file as it was,
  and \<open>AddRule\<close> and \<open>UpdateRule\<close> have put the rules in memory back.
\<close>

theorem manager_refines_map:
  assumes "mgr_call pl oper m = (m', e)" "fs_wf (m_files m)" "unique_ids (elems (m_rules m))"
    "fresh_op oper (elems (m_rules m))"
  shows "(e = None \<longrightarrow> rule_map (elems (m_rules m')) = spec_op oper (rule_map (elems (m_rules m)))
        \<and> unique_ids (elems (m_rules m'))
        \<and> read_file (m_files m') (m_filePath m) = Some (marshal_rules (m_rules m')))
     \<and> (e \<noteq> None \<longrightarrow> read_file (m_files m') (m_filePath m) = read_file (m_files m) (m_filePath m)
        \<and> (rolls_back oper \<longrightarrow> elems (m_rules m') = elems (m_rules m)))"
  using mgr_call_spec [OF assms(1,2)] mgr_call_elems [of pl oper m m'] list_op_map [OF assms(3,4)] assms(1)
  by (cases e) auto

theorem manager_refines_map_witness:
  "rule_map (elems (m_rules (fst (mgr_call plan_ok (OpDelete ''a'') demo_manager)))) = Map.empty"
proof -
  obtain m' e where c: "mgr_call plan_ok (OpDelete ''a'') demo_manager = (m', e)" by fastforce
  have "e = None" using c
    by (auto simp: mgr_call_def DeleteRule_def demo_manager_def zero_rule_def saveLocked_def
        dest: plan_ok_write split: prod.splits)
  with manager_refines_map [OF c] c show ?thesis
    by (simp add: demo_manager_def unique_ids_def fresh_op_def spec_op_def zero_rule_def)
qed

text \<open>
  A restart finds the rules it left. Start a manager on any well-formed file system; after any history of calls
  each of which saved, or failed where the code rolls back, or named no rule, \<open>NewAutoPinManager\<close> on the
  files it left reads back the rules in memory, text by text.
\<close>

theorem rules_survive_restart:
  assumes "NewAutoPinManager rd rnd0 pl0 f fp = Inr m" "fs_wf f" "run mgr_step m es m'"
  shows "\<exists>m2. NewAutoPinManager None rnd pl (m_files m') fp = Inr m2 \<and> elems (m_rules m2) = elems (m_rules m')"
proof -
  from synced.run_inv [OF assms(3) NewAutoPinManager_synced [OF assms(1,2)]] obtain d rs where
    "read_file (m_files m') fp = Some d" "unmarshal_rules d = Some rs" "elems rs = elems (m_rules m')"
    by (auto simp: rules_synced_def)
  then show ?thesis by (simp add: NewAutoPinManager_def)
qed

theorem rules_survive_restart_witness:
  "\<exists>m m' m2. NewAutoPinManager None [] plan_ok empty_fs ''autopin.json'' = Inr m
     \<and> run mgr_step m [(plan_ok, OpAdd ''0123456789abcdef'' (zero_rule\<lparr>r_ID := []\<rparr>))] m'
     \<and> NewAutoPinManager None [] plan_ok (m_files m') ''autopin.json'' = Inr m2 \<and> elems (m_rules m2) = elems (m_rules m')"
proof -
  have "\<not> isl (NewAutoPinManager None [] plan_ok empty_fs ''autopin.json'')"
    by (auto simp: NewAutoPinManager_def saveLocked_def read_file_def empty_fs_def Let_def dest: plan_ok_write split: prod.splits option.splits)
  then obtain m where m: "NewAutoPinManager None [] plan_ok empty_fs ''autopin.json'' = Inr m"
    by (cases "NewAutoPinManager None [] plan_ok empty_fs ''autopin.json''") auto
  obtain m' e where c: "mgr_call plan_ok (OpAdd ''0123456789abcdef'' (zero_rule\<lparr>r_ID := []\<rparr>)) m = (m', e)"
    by fastforce
  have "mgr_step m (plan_ok, OpAdd ''0123456789abcdef'' (zero_rule\<lparr>r_ID := []\<rparr>)) m'"
    by (rule mgr_step [OF c]) (simp_all add: op_utf8_def zero_rule_utf8 valid_utf8.simps rolls_back_def)
  from run_one [of mgr_step, OF this] rules_survive_restart [OF m fs_wf_empty run_one [of mgr_step, OF this]] m
  show ?thesis by fastforce
qed

text \<open>
  \<open>DeleteRule\<close> does not roll back. If the save fails, it returns the error, but the rule is
  gone from memory while the file still has it: the running program no longer applies the rule, and
  the next start brings it back.
\<close>

theorem failed_delete_diverges:
  assumes "rules_synced m" "unique_ids (elems (m_rules m))" "DeleteRule pl i m = (m', Some (WritingRules e))"
  shows "rule_map (elems (m_rules m')) i = None
     \<and> (\<exists>m2. NewAutoPinManager None rnd pl' (m_files m') (m_filePath m') = Inr m2
           \<and> elems (m_rules m2) = elems (m_rules m) \<and> rule_map (elems (m_rules m2)) i \<noteq> None)"
proof -
  from assms(3) obtain k where k: "rule_index i (elems (m_rules m)) = Some k"
    by (auto simp: DeleteRule_def split: option.splits)
  let ?m = "m\<lparr>m_rules := Some (take k (elems (m_rules m)) @ drop (k + 1) (elems (m_rules m)))\<rparr>"
  from assms(3) k have s: "saveLocked pl ?m = (m', Some (WritingRules e))" by (simp add: DeleteRule_def)
  have "elems (m_rules m') = list_op (OpDelete i) (elems (m_rules m))"
    using saveLocked_rules [OF s] k by (simp add: list_op_def)
  moreover have "rule_map (list_op (OpDelete i) (elems (m_rules m))) i = None"
    using list_op_map [OF assms(2), of "OpDelete i"] k by (simp add: fresh_op_def spec_op_def)
  moreover have "rule_map (elems (m_rules m)) i \<noteq> None"
    using rule_index_Some [OF k] by (intro rule_map_Some) auto
  moreover obtain d rs where "read_file (m_files m') (m_filePath m') = Some d" "unmarshal_rules d = Some rs"
      "elems rs = elems (m_rules m)"
    using saveLocked_spec [OF s] assms(1) by (auto simp: rules_synced_def)
  ultimately show ?thesis by (simp add: NewAutoPinManager_def)
qed

theorem failed_delete_diverges_witness:
  "\<exists>m2. NewAutoPinManager None [] plan_ok (m_files (fst (DeleteRule plan_full ''a'' (demo_saved [zero_rule\<lparr>r_ID := ''a''\<rparr>]))))
      ''autopin.json'' = Inr m2 \<and> rule_map (elems (m_rules m2)) ''a'' \<noteq> None"
proof -
  let ?m = "demo_saved [zero_rule\<lparr>r_ID := ''a''\<rparr>]"
  obtain m' where d: "DeleteRule plan_full ''a'' ?m = (m', Some (WritingRules (IOErr ''no space left on device'')))"
    by (simp add: DeleteRule_def saveLocked_def demo_saved_def atomicWriteFile_def plan_full_def)
  have "m_filePath m' = ''autopin.json''"
    using d by (auto simp: DeleteRule_def saveLocked_def demo_saved_def split: option.splits prod.splits)
  moreover have "rules_synced ?m"
    by (rule demo_saved_synced) (simp add: zero_rule_utf8 valid_utf8.simps byte_def)
  ultimately show ?thesis using failed_delete_diverges [OF _ _ d, of "[]" plan_ok] d
    by (fastforce simp: unique_ids_def demo_saved_def)
qed

end
