(* ===== verification/Runner.thy ===== *)
theory Runner
  imports EmbeddedNode Discovery
begin

text \<open>
  \<open>autopin_runner.go\<close>: the per-author cap applied to a batch, its log summary, one goroutine's
  work against the backend, and the scheduling of all batches over the shared semaphore as a step
  relation, in which any number of \<open>Run\<close> calls and their goroutines interleave.
\<close>

section \<open>The runner and the cap\<close>

record AutoPinRunner =
  concurrency :: int
  authorCap :: int

record AutoPinResult =
  Matched :: nat
  Pinned :: nat
  Failed :: nat
  Shed :: nat
  IsPinnedErrors :: nat

definition NewAutoPinRunner :: "int \<Rightarrow> int \<Rightarrow> AutoPinRunner" where
  "NewAutoPinRunner conc cap0 =
     (let conc = (if conc < 1 then 1 else conc);
          cap0 = (if cap0 < 1 then 1 else cap0)
      in \<lparr>concurrency = conc, authorCap = cap0\<rparr>)"

text \<open>The first loop of \<open>Run\<close>: \<open>authorCount\<close>, \<open>shedByAuthor\<close> and \<open>queued\<close>.\<close>

fun shed_loop :: "AutoPinRunner \<Rightarrow> DiscoveredItem list \<Rightarrow> (string \<times> nat) list \<Rightarrow> (string \<times> nat) list
    \<Rightarrow> DiscoveredItem list \<Rightarrow> (string \<times> nat) list \<times> DiscoveredItem list" where
  "shed_loop r [] authorCount shedByAuthor queued = (shedByAuthor, queued)"
| "shed_loop r (item # items) authorCount shedByAuthor queued =
     (if int (map_get authorCount (item_Author item)) \<ge> authorCap r
      then shed_loop r items authorCount (map_incr (item_Author item) shedByAuthor) queued
      else shed_loop r items (map_incr (item_Author item) authorCount) shedByAuthor (queued @ [item]))"

definition shed_split :: "AutoPinRunner \<Rightarrow> DiscoveredItem list \<Rightarrow> (string \<times> nat) list \<times> DiscoveredItem list" where
  "shed_split r items = shed_loop r items [] [] []"

text \<open>The summary lines in log order: author, count, cap. The order in which Go iterates the map
  does not matter, since the authors are sorted.\<close>

definition summary_lines :: "AutoPinRunner \<Rightarrow> (string \<times> nat) list \<Rightarrow> (string \<times> nat \<times> int) list" where
  "summary_lines r shedByAuthor =
     (if length shedByAuthor > 0
      then map (\<lambda>a. (a, map_get shedByAuthor a, authorCap r)) (sort (map fst shedByAuthor))
      else [])"

text \<open>The result before scheduling, and what is queued.\<close>

definition run_prepare :: "AutoPinRunner \<Rightarrow> DiscoveredItem list \<Rightarrow> AutoPinResult \<times> DiscoveredItem list" where
  "run_prepare r items = (case shed_split r items of (shedByAuthor, queued) \<Rightarrow>
     (\<lparr>Matched = length items, Pinned = 0, Failed = 0, Shed = sum_list (map snd shedByAuthor), IsPinnedErrors = 0\<rparr>,
      queued))"

section \<open>One goroutine\<close>

datatype outcome = ProbeFailed | AlreadyPinned | PinFailed | PinnedNew

definition attempt :: "('env \<Rightarrow> 's \<Rightarrow> string \<Rightarrow> 's \<times> 'err option) \<Rightarrow> ('env \<Rightarrow> 's \<Rightarrow> string \<Rightarrow> 'err + bool)
    \<Rightarrow> 'env \<Rightarrow> 's \<Rightarrow> string \<Rightarrow> 's \<times> outcome" where
  "attempt Pin IsPinned env s cid = (case IsPinned env s cid of
     Inl _ \<Rightarrow> (s, ProbeFailed)
   | Inr already \<Rightarrow>
      if already then (s, AlreadyPinned)
      else (case Pin env s cid of (s', err) \<Rightarrow> (s', if err \<noteq> None then PinFailed else PinnedNew)))"

definition count_outcome :: "outcome \<Rightarrow> AutoPinResult \<Rightarrow> AutoPinResult" where
  "count_outcome oc res = (case oc of
     ProbeFailed \<Rightarrow> res\<lparr>IsPinnedErrors := IsPinnedErrors res + 1\<rparr>
   | AlreadyPinned \<Rightarrow> res
   | PinFailed \<Rightarrow> res\<lparr>Failed := Failed res + 1\<rparr>
   | PinnedNew \<Rightarrow> res\<lparr>Pinned := Pinned res + 1\<rparr>)"

text \<open>\<open>Run\<close> with its goroutines one after the other, each with what the outside world answers to it:
  the schedule in which the semaphore is free each time.\<close>

definition Run_seq :: "('env \<Rightarrow> 's \<Rightarrow> string \<Rightarrow> 's \<times> 'err option) \<Rightarrow> ('env \<Rightarrow> 's \<Rightarrow> string \<Rightarrow> 'err + bool)
    \<Rightarrow> AutoPinRunner \<Rightarrow> (DiscoveredItem \<Rightarrow> 'env) \<Rightarrow> 's \<Rightarrow> DiscoveredItem list \<Rightarrow> 's \<times> AutoPinResult" where
  "Run_seq Pin IsPinned r env s items = (case run_prepare r items of (res, queued) \<Rightarrow>
     fold (\<lambda>item (s, res). case attempt Pin IsPinned (env item) s (item_CID item) of
        (s', oc) \<Rightarrow> (s', count_outcome oc res)) queued (s, res))"

section \<open>The pool\<close>

text \<open>A goroutine holds a slot of the semaphore until \<open>Releasing\<close>, then only the batch waits for it.\<close>

datatype gstage = Probing | Pinning | Counting outcome | Releasing outcome | Exiting outcome

record pool =
  sem :: nat
  gos :: "nat \<rightharpoonup> nat \<times> string \<times> gstage"
  queues :: "nat \<rightharpoonup> DiscoveredItem list"
  results :: "nat \<Rightarrow> AutoPinResult"

definition start_pool :: pool where
  "start_pool = \<lparr>sem = 0, gos = Map.empty, queues = Map.empty,
     results = (\<lambda>_. \<lparr>Matched = 0, Pinned = 0, Failed = 0, Shed = 0, IsPinnedErrors = 0\<rparr>)\<rparr>"

datatype pool_event =
    RunBegin nat "DiscoveredItem list"
  | Dispatch nat nat DiscoveredItem
  | CtxDone nat
  | Probe nat string "bool option"
  | PinCall nat string bool
  | Tick nat
  | RunReturn nat AutoPinResult

text \<open>\<open>queues b\<close> is what the scheduling loop of call \<open>b\<close> has left; \<open>CtxDone\<close> breaks the loop.
  A call returns when its loop is over and \<open>wg.Wait\<close> finds none of its goroutines.\<close>

inductive pool_step :: "AutoPinRunner \<Rightarrow> pool \<Rightarrow> pool_event \<Rightarrow> pool \<Rightarrow> bool" for r where
  run_begin: "queues p b = None \<Longrightarrow> run_prepare r items = (res, queued) \<Longrightarrow>
    pool_step r p (RunBegin b items)
      (p\<lparr>queues := (queues p)(b \<mapsto> queued), results := (results p)(b := res)\<rparr>)"
| dispatch: "queues p b = Some (item # rest) \<Longrightarrow> int (sem p) < concurrency r \<Longrightarrow> gos p g = None \<Longrightarrow>
    pool_step r p (Dispatch b g item)
      (p\<lparr>sem := sem p + 1, queues := (queues p)(b \<mapsto> rest),
         gos := (gos p)(g \<mapsto> (b, item_CID item, Probing))\<rparr>)"
| ctx_done: "queues p b = Some (item # rest) \<Longrightarrow>
    pool_step r p (CtxDone b) (p\<lparr>queues := (queues p)(b \<mapsto> [])\<rparr>)"
| probe_err: "gos p g = Some (b, c, Probing) \<Longrightarrow>
    pool_step r p (Probe g c None) (p\<lparr>gos := (gos p)(g \<mapsto> (b, c, Counting ProbeFailed))\<rparr>)"
| probe_pinned: "gos p g = Some (b, c, Probing) \<Longrightarrow>
    pool_step r p (Probe g c (Some True)) (p\<lparr>gos := (gos p)(g \<mapsto> (b, c, Releasing AlreadyPinned))\<rparr>)"
| probe_absent: "gos p g = Some (b, c, Probing) \<Longrightarrow>
    pool_step r p (Probe g c (Some False)) (p\<lparr>gos := (gos p)(g \<mapsto> (b, c, Pinning))\<rparr>)"
| pin_call: "gos p g = Some (b, c, Pinning) \<Longrightarrow>
    pool_step r p (PinCall g c ok)
      (p\<lparr>gos := (gos p)(g \<mapsto> (b, c, Counting (if ok then PinnedNew else PinFailed)))\<rparr>)"
| count: "gos p g = Some (b, c, Counting oc) \<Longrightarrow>
    pool_step r p (Tick g) (p\<lparr>gos := (gos p)(g \<mapsto> (b, c, Releasing oc)),
      results := (results p)(b := count_outcome oc (results p b))\<rparr>)"
| release: "gos p g = Some (b, c, Releasing oc) \<Longrightarrow>
    pool_step r p (Tick g) (p\<lparr>sem := sem p - 1, gos := (gos p)(g \<mapsto> (b, c, Exiting oc))\<rparr>)"
| leave: "gos p g = Some (b, c, Exiting oc) \<Longrightarrow>
    pool_step r p (Tick g) (p\<lparr>gos := (gos p)(g := None)\<rparr>)"
| run_return: "queues p b = Some [] \<Longrightarrow> \<forall>g c st. gos p g \<noteq> Some (b, c, st) \<Longrightarrow>
    pool_step r p (RunReturn b (results p b)) (p\<lparr>queues := (queues p)(b := None)\<rparr>)"

section \<open>Facts: the cap\<close>

definition by_author :: "string \<Rightarrow> DiscoveredItem list \<Rightarrow> DiscoveredItem list" where
  "by_author a items = filter (\<lambda>i. item_Author i = a) items"

lemma shed_loop_queued:
  assumes "shed_loop r items cnt sh q = (sh', q')" "1 \<le> authorCap r"
    "\<And>a. map_get cnt a = length (by_author a q)" "\<And>a. int (length (by_author a q)) \<le> authorCap r"
  shows "by_author a q' = by_author a q @ take (nat (authorCap r) - length (by_author a q)) (by_author a items)"
  using assms
proof (induction r items cnt sh q arbitrary: a rule: shed_loop.induct)
  case (1 r cnt sh q)
  then show ?case by (simp add: by_author_def)
next
  case (2 r item items cnt sh q)
  show ?case
  proof (cases "int (map_get cnt (item_Author item)) \<ge> authorCap r")
    case True
    with "2.IH"(1) [OF True _ "2.prems"(2-4)] "2.prems"(1,3) show ?thesis
      by (auto simp: by_author_def)
  next
    case False
    have "by_author a q' = by_author a (q @ [item]) @ take (nat (authorCap r) - length (by_author a (q @ [item]))) (by_author a items)"
      using False "2.prems" by (intro "2.IH"(2) [OF False]) (auto simp: by_author_def)
    with False "2.prems"(3) show ?thesis
      by (auto simp: by_author_def Suc_diff_Suc nat_less_iff take_Cons' not_le zless_nat_conj)
  qed
qed

lemma shed_loop_counts:
  assumes "shed_loop r items cnt sh q = (sh', q')"
  shows "sum_list (map snd sh') + length q' = sum_list (map snd sh) + length q + length items
     \<and> (distinct (map fst sh) \<longrightarrow> distinct (map fst sh'))"
  using assms
  by (induction r items cnt sh q rule: shed_loop.induct) (auto simp: sum_map_incr split: if_splits)

lemma map_get_pos: "0 < map_get m a \<Longrightarrow> a \<in> fst ` set m"
  by (auto simp: map_get_def image_iff dest: map_of_SomeD split: option.splits intro: rev_bexI)

lemma shed_loop_author:
  assumes "shed_loop r items cnt sh q = (sh', q')"
  shows "map_get sh' a + length (by_author a q') = map_get sh a + length (by_author a q) + length (by_author a items)
     \<and> ((\<forall>a \<in> fst ` set sh. 0 < map_get sh a) \<longrightarrow> (\<forall>a \<in> fst ` set sh'. 0 < map_get sh' a))"
  using assms
proof (induction r items cnt sh q rule: shed_loop.induct)
  case (1 r cnt sh q)
  then show ?case by (simp add: by_author_def)
next
  case (2 r item items cnt sh q)
  then show ?case by (simp add: by_author_def keys_map_incr split: if_splits)
qed

lemma shed_split_exact:
  assumes "shed_split r items = (sh, q)" "1 \<le> authorCap r"
  shows "by_author a q = take (nat (authorCap r)) (by_author a items)"
    and "map_get sh a = length (by_author a items) - nat (authorCap r)"
    and "sum_list (map snd sh) + length q = length items"
    and "distinct (map fst sh)" "fst ` set sh = {a. 0 < map_get sh a}"
proof -
  from assms(1) have l: "shed_loop r items [] [] [] = (sh, q)" by (simp add: shed_split_def)
  show q: "by_author a q = take (nat (authorCap r)) (by_author a items)"
    using shed_loop_queued [OF l assms(2), of a] assms(2) by (simp add: by_author_def)
  show "map_get sh a = length (by_author a items) - nat (authorCap r)"
    using shed_loop_author [OF l, of a] q by (auto simp: by_author_def)
  show "sum_list (map snd sh) + length q = length items" "distinct (map fst sh)"
    using shed_loop_counts [OF l] by simp_all
  show "fst ` set sh = {a. 0 < map_get sh a}"
    using shed_loop_author [OF l, of a] map_get_pos [of sh] by auto
qed

section \<open>Facts: the pool\<close>

fun holds_slot :: "gstage \<Rightarrow> bool" where
  "holds_slot (Exiting oc) = False"
| "holds_slot _ = True"

fun uncounted :: "gstage \<Rightarrow> bool" where
  "uncounted (Releasing oc) = False"
| "uncounted (Exiting oc) = False"
| "uncounted _ = True"

definition sel :: "(gstage \<Rightarrow> bool) \<Rightarrow> nat set \<Rightarrow> (nat \<rightharpoonup> nat \<times> string \<times> gstage) \<Rightarrow> nat set" where
  "sel P B m = {g. \<exists>b c st. m g = Some (b, c, st) \<and> P st \<and> b \<in> B}"

lemma sel_finite [simp]: "finite (dom m) \<Longrightarrow> finite (sel P B m)"
  by (rule finite_subset [of _ "dom m"]) (auto simp: sel_def)

lemma sel_upd: "sel P B (m(g \<mapsto> (b, c, st))) = (if P st \<and> b \<in> B then insert g (sel P B m) else sel P B m - {g})"
  by (auto simp: sel_def)

lemma sel_del [simp]: "sel P B (m(g := None)) = sel P B m - {g}"
  by (auto simp: sel_def)

lemma sel_mem: "m g = Some (b, c, st) \<Longrightarrow> g \<in> sel P B m \<longleftrightarrow> P st \<and> b \<in> B"
  by (auto simp: sel_def)

lemma sel_none: "m g = None \<Longrightarrow> g \<notin> sel P B m"
  by (auto simp: sel_def)

text \<open>How many elements a change of one goroutine adds or takes away.\<close>

lemma card_sel_upd:
  assumes "finite (dom m)" "m g = Some (b, c, st)"
  shows "card (sel P B (m(g \<mapsto> (b, c, st')))) + (if P st \<and> b \<in> B then 1 else 0)
       = card (sel P B m) + (if P st' \<and> b \<in> B then 1 else 0)"
proof -
  have f: "finite (sel P B m)" using assms(1) by simp
  have g: "g \<in> sel P B m \<longleftrightarrow> P st \<and> b \<in> B" by (rule sel_mem [where m = m, OF assms(2)])
  from f g card_gt_0_iff [of "sel P B m"] show ?thesis
    by (auto simp: sel_upd card_insert_if card_Diff_singleton_if insert_absorb)
qed

definition pool_ok :: "AutoPinRunner \<Rightarrow> pool \<Rightarrow> bool" where
  "pool_ok r p \<longleftrightarrow> finite (dom (gos p)) \<and> sem p = card (sel holds_slot UNIV (gos p)) \<and> int (sem p) \<le> concurrency r
     \<and> (\<forall>g b c st. gos p g = Some (b, c, st) \<longrightarrow> queues p b \<noteq> None)"

definition tally :: "AutoPinResult \<Rightarrow> nat" where
  "tally res = Shed res + Pinned res + Failed res + IsPinnedErrors res"

definition batches_ok :: "pool \<Rightarrow> bool" where
  "batches_ok p \<longleftrightarrow> (\<forall>b q. queues p b = Some q \<longrightarrow>
     tally (results p b) + length q + card (sel uncounted {b} (gos p)) \<le> Matched (results p b))"

lemma pool_ok_move:
  assumes "pool_ok r p" "gos p g = Some (b, c, st)" "holds_slot st = holds_slot st'"
  shows "pool_ok r (p\<lparr>gos := (gos p)(g \<mapsto> (b, c, st'))\<rparr>)"
proof -
  have "dom ((gos p)(g \<mapsto> (b, c, st'))) = dom (gos p)" using assms(2) by auto
  with assms card_sel_upd [of "gos p" g b c st holds_slot UNIV st'] show ?thesis
    by (fastforce simp: pool_ok_def split: if_splits)
qed

lemma pool_ok_queue: "pool_ok r p \<Longrightarrow> pool_ok r (p\<lparr>queues := (queues p)(b \<mapsto> q)\<rparr>)"
  by (auto simp: pool_ok_def)

lemma pool_ok_results: "pool_ok r (p\<lparr>results := x\<rparr>) = pool_ok r p"
  by (simp add: pool_ok_def)

lemma pool_ok_step:
  assumes "pool_ok r p" "pool_step r p e p'"
  shows "pool_ok r p'"
  using assms(2)
proof (cases rule: pool_step.cases)
  case (run_begin b items res queued)
  then show ?thesis using assms(1) by (auto simp: pool_ok_def)
next
  case (dispatch b item rest g)
  then have "card (sel holds_slot UNIV ((gos p)(g \<mapsto> (b, item_CID item, Probing)))) = Suc (card (sel holds_slot UNIV (gos p)))"
    using assms(1) by (simp add: sel_upd sel_none pool_ok_def)
  with dispatch show ?thesis using assms(1) by (auto simp: pool_ok_def)
next
  case (ctx_done b item rest)
  then show ?thesis using assms(1) by (auto simp: pool_ok_def)
next
  case (count g b c oc)
  then show ?thesis using assms(1) pool_ok_move [of r p g b c "Counting oc" "Releasing oc"]
    by (simp add: pool_ok_def)
next
  case (release g b c oc)
  have "dom ((gos p)(g \<mapsto> (b, c, Exiting oc))) = dom (gos p)" using release by auto
  moreover have "card (sel holds_slot UNIV ((gos p)(g \<mapsto> (b, c, Exiting oc)))) + 1 = card (sel holds_slot UNIV (gos p))"
    using card_sel_upd [of "gos p" g b c "Releasing oc" holds_slot UNIV "Exiting oc"] release assms(1)
    by (simp add: pool_ok_def)
  ultimately show ?thesis using assms(1) release by (fastforce simp: pool_ok_def)
next
  case (leave g b c oc)
  then have "g \<notin> sel holds_slot UNIV (gos p)" by (simp add: sel_mem)
  with leave show ?thesis using assms(1) by (auto simp: pool_ok_def)
next
  case (run_return b)
  then show ?thesis using assms(1) by (auto simp: pool_ok_def)
qed (use assms(1) in \<open>simp_all add: pool_ok_move\<close>)

interpretation pool: state_invariant "pool_step r" "pool_ok r" for r
  by unfold_locales (rule pool_ok_step)

lemma card_sel_insert:
  "finite (dom m) \<Longrightarrow> m g = None \<Longrightarrow> card (sel P B (m(g \<mapsto> (b, c, st)))) = card (sel P B m) + (if P st \<and> b \<in> B then 1 else 0)"
  by (simp add: sel_upd sel_none)

lemma batches_move:
  assumes "batches_ok p" "finite (dom (gos p))" "gos p g = Some (b, c, st)"
    "tally res' + (if uncounted st' then 1 else 0) \<le> tally (results p b) + (if uncounted st then 1 else 0)"
    "Matched res' = Matched (results p b)"
  shows "batches_ok (p\<lparr>gos := (gos p)(g \<mapsto> (b, c, st')), results := (results p)(b := res')\<rparr>)"
  unfolding batches_ok_def
proof (intro allI impI)
  fix b' q
  assume q: "queues (p\<lparr>gos := (gos p)(g \<mapsto> (b, c, st')), results := (results p)(b := res')\<rparr>) b' = Some q"
  then have "tally (results p b') + length q + card (sel uncounted {b'} (gos p)) \<le> Matched (results p b')"
    using assms(1) by (simp add: batches_ok_def)
  moreover note card_sel_upd [OF assms(2,3), of uncounted "{b'}" st'] assms(4,5)
  ultimately show "tally (results (p\<lparr>gos := (gos p)(g \<mapsto> (b, c, st')), results := (results p)(b := res')\<rparr>) b') + length q
     + card (sel uncounted {b'} (gos (p\<lparr>gos := (gos p)(g \<mapsto> (b, c, st')), results := (results p)(b := res')\<rparr>)))
     \<le> Matched (results (p\<lparr>gos := (gos p)(g \<mapsto> (b, c, st')), results := (results p)(b := res')\<rparr>) b')"
    by (auto split: if_splits)
qed

lemma batches_goto:
  assumes "batches_ok p" "finite (dom (gos p))" "gos p g = Some (b, c, st)" "uncounted st' \<longrightarrow> uncounted st"
  shows "batches_ok (p\<lparr>gos := (gos p)(g \<mapsto> (b, c, st'))\<rparr>)"
  using batches_move [OF assms(1-3), of "results p b" st'] assms(4) by (simp add: split: if_splits)

definition pool_inv :: "AutoPinRunner \<Rightarrow> pool \<Rightarrow> bool" where
  "pool_inv r p \<longleftrightarrow> pool_ok r p \<and> batches_ok p"

lemma prepare_tally: "run_prepare r items = (res, queued) \<Longrightarrow> tally res + length queued = Matched res"
  using shed_loop_counts [of r items "[]" "[]" "[]"]
  by (auto simp: run_prepare_def shed_split_def tally_def split: prod.splits)

lemma tally_count: "uncounted (Counting oc) \<and> tally (count_outcome oc res) \<le> tally res + 1 \<and> Matched (count_outcome oc res) = Matched res"
  by (cases oc) (simp_all add: tally_def count_outcome_def)

lemma batches_step:
  assumes "pool_inv r p" "pool_step r p e p'"
  shows "batches_ok p'"
proof -
  from assms(1) have p: "batches_ok p" "finite (dom (gos p))" by (simp_all add: pool_inv_def pool_ok_def)
  have none: "sel uncounted {b} (gos p) = {}" if "queues p b = None" for b
    using assms(1) that unfolding pool_inv_def pool_ok_def sel_def by fastforce
  from assms(2) show ?thesis
  proof (cases rule: pool_step.cases)
    case (run_begin b items res queued)
    with prepare_tally [OF run_begin(4)] none p(1) show ?thesis by (auto simp: batches_ok_def)
  next
    case (dispatch b item rest g)
    then show ?thesis using p by (fastforce simp: batches_ok_def card_sel_insert)
  next
    case (ctx_done b item rest)
    then show ?thesis using p(1) by (fastforce simp: batches_ok_def)
  next
    case (count g b c oc)
    then show ?thesis using tally_count [of oc "results p b"] batches_move [OF p, of g b c "Counting oc" "count_outcome oc (results p b)" "Releasing oc"]
      by simp
  next
    case (release g b c oc)
    then show ?thesis using batches_goto [OF p, of g b c "Releasing oc" "Exiting oc"] by (simp add: batches_ok_def)
  next
    case (leave g b c oc)
    then have "g \<notin> sel uncounted B (gos p)" for B by (auto simp: sel_def)
    with leave show ?thesis using p by (simp add: batches_ok_def)
  next
    case (run_return b)
    then show ?thesis using p by (auto simp: batches_ok_def)
  qed (use batches_goto [OF p] in auto)
qed

interpretation pool_inv: state_invariant "pool_step r" "pool_inv r" for r
proof unfold_locales
  fix p e p' assume a: "pool_inv r p" "pool_step r p e p'"
  then have "pool_ok r p'" by (auto simp: pool_inv_def intro: pool_ok_step)
  with batches_step [OF a] show "pool_inv r p'" by (simp add: pool_inv_def)
qed

lemma pool_inv_start: "0 \<le> concurrency r \<Longrightarrow> pool_inv r start_pool"
  by (simp add: pool_inv_def pool_ok_def batches_ok_def start_pool_def sel_def)

lemma runner_positive: "1 \<le> concurrency (NewAutoPinRunner c a)" "1 \<le> authorCap (NewAutoPinRunner c a)"
  by (simp_all add: NewAutoPinRunner_def Let_def)

section \<open>Facts: one batch alone against a backend that keeps a pin set\<close>

definition seq_step :: "('env \<Rightarrow> 's \<Rightarrow> string \<Rightarrow> 's \<times> 'err option) \<Rightarrow> ('env \<Rightarrow> 's \<Rightarrow> string \<Rightarrow> 'err + bool)
    \<Rightarrow> (DiscoveredItem \<Rightarrow> 'env) \<Rightarrow> DiscoveredItem \<Rightarrow> 's \<times> AutoPinResult \<Rightarrow> 's \<times> AutoPinResult" where
  "seq_step Pin IsPinned env = (\<lambda>item (s, res). case attempt Pin IsPinned (env item) s (item_CID item) of
        (s', oc) \<Rightarrow> (s', count_outcome oc res))"

lemma Run_seq_fold: "Run_seq Pin IsPinned r env s items = (case run_prepare r items of (res, queued) \<Rightarrow>
    fold (seq_step Pin IsPinned env) queued (s, res))"
  by (simp add: Run_seq_def seq_step_def)

definition bad :: "AutoPinResult \<Rightarrow> nat" where
  "bad res = Failed res + IsPinnedErrors res"

text \<open>What a stretch of work on the CIDs \<open>C\<close> has done: the pin set grew by some of them, \<open>Pinned\<close> counts
  by how many, and if no failure was counted it holds all of them.\<close>

definition progress :: "string set \<Rightarrow> string set \<times> AutoPinResult \<Rightarrow> string set \<times> AutoPinResult \<Rightarrow> bool" where
  "progress C x y \<longleftrightarrow> fst x \<subseteq> fst y \<and> fst y \<subseteq> fst x \<union> C
     \<and> Pinned (snd y) = Pinned (snd x) + card (fst y - fst x)
     \<and> bad (snd x) \<le> bad (snd y) \<and> (bad (snd y) = bad (snd x) \<longrightarrow> C \<subseteq> fst y)
     \<and> Matched (snd y) = Matched (snd x) \<and> Shed (snd y) = Shed (snd x)"

lemma progress_refl: "progress {} x x"
  by (simp add: progress_def)

lemma progress_trans:
  assumes "progress C x y" "progress D y z" "finite C" "finite D"
  shows "progress (C \<union> D) x z"
proof -
  have "fst z - fst x = (fst y - fst x) \<union> (fst z - fst y)" "(fst y - fst x) \<inter> (fst z - fst y) = {}"
    using assms(1,2) by (auto simp: progress_def)
  moreover have "finite (fst y - fst x)" "finite (fst z - fst y)"
    using assms by (auto simp: progress_def intro: finite_subset [of _ C] finite_subset [of _ D])
  ultimately have c: "card (fst z - fst x) = card (fst y - fst x) + card (fst z - fst y)"
    by (simp add: card_Un_disjoint)
  have m: "bad (snd z) = bad (snd x) \<Longrightarrow> bad (snd y) = bad (snd x) \<and> bad (snd z) = bad (snd y)"
    using assms(1,2) unfolding progress_def by linarith
  show ?thesis unfolding progress_def c
  proof (intro conjI impI)
    assume "bad (snd z) = bad (snd x)"
    with m assms(1,2) show "C \<union> D \<subseteq> fst z" unfolding progress_def by blast
  qed (use assms(1,2) in \<open>unfold progress_def, auto\<close>)
qed

context pin_set_backend
begin

lemma attempt_outcome:
  assumes "attempt Pin IsPinned env s c = (s', oc)"
  shows "(oc = PinnedNew \<longrightarrow> c \<notin> pinned s \<and> pinned s' = insert c (pinned s))
     \<and> (oc \<noteq> PinnedNew \<longrightarrow> pinned s' = pinned s) \<and> (oc = AlreadyPinned \<longrightarrow> c \<in> pinned s)"
proof (cases "IsPinned env s c")
  case (Inl e)
  with assms show ?thesis by (auto simp: attempt_def)
next
  case (Inr b)
  with is_pinned_valid [OF is_pinned_ok_valid [OF Inr], of env s] have b: "b = (c \<in> pinned s)" by simp
  show ?thesis
  proof (cases b)
    case True
    with Inr assms b show ?thesis by (auto simp: attempt_def)
  next
    case False
    obtain s1 r1 where p: "Pin env s c = (s1, r1)" by fastforce
    show ?thesis
    proof (cases r1)
      case None
      with p Inr False assms have "s' = s1" "oc = PinnedNew" by (simp_all add: attempt_def)
      with pin_ok [of env s c s1] p None b False show ?thesis by simp
    next
      case (Some x)
      with p Inr False assms have "s' = s1" "oc = PinFailed" by (simp_all add: attempt_def)
      with pin_err [of env s c s1] p Some show ?thesis by simp
    qed
  qed
qed

lemma step_progress:
  assumes "seq_step Pin IsPinned env item (s, res) = (s', res')"
  shows "progress {item_CID item} (pinned s, res) (pinned s', res')"
proof -
  obtain oc where a: "attempt Pin IsPinned (env item) s (item_CID item) = (s', oc)" and r: "res' = count_outcome oc res"
    using assms by (auto simp: seq_step_def split: prod.splits)
  show ?thesis
    by (cases oc) (use attempt_outcome [OF a] in \<open>auto simp: r count_outcome_def progress_def bad_def insert_Diff_if\<close>)
qed

lemma batch_progress:
  "fold (seq_step Pin IsPinned env) items (s, res) = (s', res')
     \<Longrightarrow> progress (item_CID ` set items) (pinned s, res) (pinned s', res')"
proof (induction items arbitrary: s res)
  case (Cons item items)
  obtain s1 res1 where a: "seq_step Pin IsPinned env item (s, res) = (s1, res1)" by fastforce
  with Cons.prems have "fold (seq_step Pin IsPinned env) items (s1, res1) = (s', res')" by simp
  from progress_trans [OF step_progress [OF a] Cons.IH [OF this]] show ?case by simp
qed (simp add: progress_refl)

end

section \<open>Properties\<close>

definition demo_item :: "string \<Rightarrow> string \<Rightarrow> DiscoveredItem" where
  "demo_item a c = \<lparr>item_Author = a, item_Permlink = [], item_Title = [], item_CID = c, item_Filename = [],
     item_CIDType = ''paper'', item_Discipline = [], item_Created = 0\<rparr>"

lemma demo_item_sel [simp]: "item_Author (demo_item a c) = a" "item_CID (demo_item a c) = c"
  by (simp_all add: demo_item_def)

text \<open>
  C14: the cap is per author and exact. Whatever arguments the runner was made with, of each
  author's items the first \<open>cap\<close> are queued, in order, whatever the other authors sent; the shed
  count is the number of the others, and the log has one line for each author that lost items, in
  order of the names, with that author's number.
\<close>

theorem cap_is_exact:
  fixes c a0 :: int
  defines "r \<equiv> NewAutoPinRunner c a0"
  shows "case run_prepare r items of (res, queued) \<Rightarrow>
      (\<forall>a. by_author a queued = take (nat (authorCap r)) (by_author a items))
    \<and> Matched res = length items \<and> Shed res + length queued = length items
    \<and> summary_lines r (fst (shed_split r items)) =
        map (\<lambda>a. (a, length (by_author a items) - nat (authorCap r), authorCap r))
          (sorted_list_of_set {a. nat (authorCap r) < length (by_author a items)})"
proof -
  obtain sh q where s: "shed_split r items = (sh, q)" by fastforce
  note ex = shed_split_exact [OF s, unfolded r_def, OF runner_positive(2), folded r_def]
  have "fst ` set sh = {a. nat (authorCap r) < length (by_author a items)}"
    using ex(2,5) by auto
  moreover have "sorted_list_of_set (fst ` set sh) = sort (map fst sh)"
    using ex(4) sorted_list_of_set_sort_remdups [of "map fst sh"] by (simp add: distinct_remdups_id)
  moreover have "summary_lines r sh = map (\<lambda>a. (a, map_get sh a, authorCap r)) (sort (map fst sh))"
    by (cases sh) (simp_all add: summary_lines_def)
  ultimately show ?thesis using ex(1,2,3) by (simp add: run_prepare_def s)
qed

text \<open>
  C10: the bound is global. However many \<open>Run\<close> calls interleave, the goroutines that are in an
  \<open>IsPinned\<close> or a \<open>Pin\<close> call never exceed the runner's concurrency, which is at least 1.
\<close>

theorem pool_is_bounded:
  fixes c a0 :: int
  defines "r \<equiv> NewAutoPinRunner c a0"
  assumes "run (pool_step r) start_pool es p"
  shows "int (card {g. \<exists>b cid st. gos p g = Some (b, cid, st) \<and> (st = Probing \<or> st = Pinning)}) \<le> concurrency r
     \<and> 1 \<le> concurrency r"
proof -
  have "pool_inv r p"
    using pool_inv.run_inv [OF assms(2) pool_inv_start] runner_positive(1) [of c a0] by (simp add: r_def)
  then have f: "finite (dom (gos p))" "int (card (sel holds_slot UNIV (gos p))) \<le> concurrency r"
    by (simp_all add: pool_inv_def pool_ok_def)
  have "{g. \<exists>b cid st. gos p g = Some (b, cid, st) \<and> (st = Probing \<or> st = Pinning)} \<subseteq> sel holds_slot UNIV (gos p)"
    by (auto simp: sel_def)
  from card_mono [OF _ this] f show ?thesis using runner_positive(1) [of c a0] by (simp add: r_def)
qed

lemma demo_begin: "pool_step (NewAutoPinRunner 0 0) start_pool (RunBegin 7 [demo_item ''a'' sample_v0])
   (start_pool\<lparr>queues := [7 \<mapsto> [demo_item ''a'' sample_v0]],
      results := (results start_pool)(7 := \<lparr>Matched = 1, Pinned = 0, Failed = 0, Shed = 0, IsPinnedErrors = 0\<rparr>)\<rparr>)"
  using run_begin [of start_pool 7 "NewAutoPinRunner 0 0" "[demo_item ''a'' sample_v0]"]
  by (simp add: run_prepare_def shed_split_def NewAutoPinRunner_def start_pool_def)

theorem pool_is_bounded_witness:
  "int (card {g. \<exists>b cid st. gos start_pool g = Some (b, cid, st) \<and> (st = Probing \<or> st = Pinning)})
     \<le> concurrency (NewAutoPinRunner 0 0)"
  using pool_is_bounded [OF run_Nil] by blast

text \<open>
  No author gets more than the cap out of one batch, whatever the other batches do: from the
  moment a call begins until its identifier is used again, at most \<open>cap\<close> of an author's items are
  given to a goroutine.
\<close>

theorem pool_cap_per_author:
  fixes c a0 :: int
  defines "r \<equiv> NewAutoPinRunner c a0"
  assumes "pool_step r p (RunBegin b items) p1" "run (pool_step r) p1 es p2"
    "\<forall>items'. RunBegin b items' \<notin> set es"
  shows "int (length (filter (\<lambda>e. \<exists>g i. e = Dispatch b g i \<and> item_Author i = a) es)) \<le> authorCap r"
proof -
  have gen: "length (filter (\<lambda>e. \<exists>g i. e = Dispatch b g i \<and> item_Author i = a) es)
      \<le> length (by_author a (case queues p b of None \<Rightarrow> [] | Some q \<Rightarrow> q))"
    if "run (pool_step r) p es p2" "\<forall>items'. RunBegin b items' \<notin> set es" for p es
    using that
  proof (induction rule: run.induct)
    case (run_Cons p e p' es p2)
    then have "length (filter (\<lambda>e. \<exists>g i. e = Dispatch b g i \<and> item_Author i = a) es)
      \<le> length (by_author a (case queues p' b of None \<Rightarrow> [] | Some q \<Rightarrow> q))" by simp
    with run_Cons.hyps(1) run_Cons.prems show ?case
      by (cases rule: pool_step.cases) (auto simp: by_author_def split: if_splits)
  qed simp
  from assms(2) obtain res q where q: "run_prepare r items = (res, q)" "queues p1 b = Some q"
    by (cases rule: pool_step.cases) auto
  then have "by_author a q = take (nat (authorCap r)) (by_author a items)"
    using shed_split_exact(1) [of r items _ q, unfolded r_def, OF _ runner_positive(2)]
    by (auto simp: run_prepare_def r_def split: prod.splits)
  with gen [OF assms(3,4)] q(2)
  have "length (filter (\<lambda>e. \<exists>g i. e = Dispatch b g i \<and> item_Author i = a) es) \<le> nat (authorCap r)" by simp
  then show ?thesis using runner_positive(2) [where c = c and a = a0] by (simp add: r_def le_nat_iff)
qed

theorem pool_cap_per_author_witness:
  "int (length (filter (\<lambda>e. \<exists>g i. e = Dispatch 7 g i \<and> item_Author i = ''a'') [])) \<le> authorCap (NewAutoPinRunner 0 0)"
  by (rule pool_cap_per_author [OF demo_begin run_Nil]) simp

text \<open>
  The counts a call returns add up: shed, pinned, failed and unprobed items are distinct
  items of the batch, and when \<open>Run\<close> returns none of its goroutines is left.
\<close>

theorem pool_counts_add_up:
  fixes c a0 :: int
  defines "r \<equiv> NewAutoPinRunner c a0"
  assumes "run (pool_step r) start_pool es p" "pool_step r p (RunReturn b res) p'"
  shows "Shed res + Pinned res + Failed res + IsPinnedErrors res \<le> Matched res
     \<and> (\<forall>g cid st. gos p' g \<noteq> Some (b, cid, st))"
proof -
  have "batches_ok p"
    using pool_inv.run_inv [OF assms(2) pool_inv_start] runner_positive(1) [of c a0]
    by (simp add: r_def pool_inv_def)
  with assms(3) show ?thesis
    by (cases rule: pool_step.cases) (force simp: batches_ok_def tally_def)
qed

theorem pool_counts_add_up_witness:
  "\<exists>p p'. run (pool_step (NewAutoPinRunner 0 0)) start_pool [RunBegin 7 []] p
     \<and> pool_step (NewAutoPinRunner 0 0) p (RunReturn 7 (results p 7)) p'
     \<and> Shed (results p 7) + Pinned (results p 7) + Failed (results p 7) + IsPinnedErrors (results p 7) \<le> Matched (results p 7)"
proof -
  let ?r = "NewAutoPinRunner 0 0"
  obtain res where q: "run_prepare ?r [] = (res, [])" by (simp add: run_prepare_def shed_split_def)
  let ?p = "start_pool\<lparr>queues := (queues start_pool)(7 \<mapsto> []), results := (results start_pool)(7 := res)\<rparr>"
  have s: "run (pool_step ?r) start_pool [RunBegin 7 []] ?p"
    by (rule run_one [of "pool_step ?r"], rule run_begin [OF _ q]) (simp add: start_pool_def)
  have t: "pool_step ?r ?p (RunReturn 7 (results ?p 7)) (?p\<lparr>queues := (queues ?p)(7 := None)\<rparr>)"
    by (rule run_return) (simp_all add: start_pool_def)
  from pool_counts_add_up [OF s t] s t show ?thesis by blast
qed



text \<open>
  What a batch does to the embedded node. Run alone, it adds only CIDs of queued items to the
  pin set and removes none, \<open>Pinned\<close> is the number of CIDs it added, and if nothing failed every queued
  item's CID is pinned when it returns.
\<close>

theorem batch_pins_queue:
  assumes "run_prepare r items = (res0, queued)" "Run_seq node_Pin node_IsPinned r env n items = (n', res)"
  shows "pins n \<subseteq> pins n' \<and> pins n' \<subseteq> pins n \<union> item_CID ` set queued
     \<and> Pinned res = card (pins n' - pins n)
     \<and> (Failed res = 0 \<and> IsPinnedErrors res = 0 \<longrightarrow> item_CID ` set queued \<subseteq> pins n')"
proof -
  have z: "Pinned res0 = 0" "Failed res0 = 0" "IsPinnedErrors res0 = 0"
    using assms(1) by (auto simp: run_prepare_def split: prod.splits)
  have "fold (seq_step node_Pin node_IsPinned env) queued (n, res0) = (n', res)"
    using assms by (simp add: Run_seq_fold)
  from node.batch_progress [OF this] z show ?thesis by (simp add: progress_def bad_def)
qed

theorem batch_pins_queue_witness:
  "\<exists>n' res. Run_seq node_Pin node_IsPinned (NewAutoPinRunner 0 0) (\<lambda>_. (fetch_all, sorted_list_of_set, plan_ok))
       (open_node empty_fs ''pins.json'') [demo_item ''a'' sample_v0] = (n', res) \<and> pins n' = {sample_v0}"
proof -
  let ?n = "open_node empty_fs ''pins.json''"
  let ?env = "\<lambda>_ :: DiscoveredItem. (fetch_all, sorted_list_of_set, plan_ok)"
  obtain n' res where r: "Run_seq node_Pin node_IsPinned (NewAutoPinRunner 0 0) ?env ?n [demo_item ''a'' sample_v0] = (n', res)"
    by fastforce
  let ?res = "\<lparr>Matched = 1, Pinned = 0, Failed = 0, Shed = 0, IsPinnedErrors = 0\<rparr>"
  have p: "run_prepare (NewAutoPinRunner 0 0) [demo_item ''a'' sample_v0] = (?res, [demo_item ''a'' sample_v0])"
    by (simp add: run_prepare_def shed_split_def NewAutoPinRunner_def)
  have "Failed res = 0 \<and> IsPinnedErrors res = 0"
    using r by (auto simp: Run_seq_def p attempt_def node_IsPinned_def node_Pin_def fetch_all_def open_node_empty count_outcome_def
        split: option.splits)
  with batch_pins_queue [OF p r] r show ?thesis by (auto simp: open_node_empty)
qed

end
