(* ===== verification/Gateway.thy ===== *)
theory Gateway
  imports EmbeddedNode
begin

text \<open>
  \<open>ipfsnode_gateway.go\<close>: \<open>gatewayGuard\<close>, which stands between the HTTP gateway of the embedded node
  and boxo's handler. boxo's handler itself is third-party; the guard decides whether it is reached.
\<close>

section \<open>The guard\<close>

datatype guard_reply =
    ServeNext
  | HttpError int string

definition StatusBadRequest :: int where "StatusBadRequest = 400"
definition StatusNotFound :: int where "StatusNotFound = 404"

text \<open>\<open>err.Error()\<close> of a \<open>ValidateCID\<close> error: \<open>fmt\<close>'s \<open>%q\<close> of the string is \<open>q\<close>.\<close>

definition cid_err_text :: "(string \<Rightarrow> string) \<Rightarrow> cid_err \<Rightarrow> string" where
  "cid_err_text q e = (case e of InvalidCID c \<Rightarrow> ''invalid CID: '' @ q c)"

definition gatewayGuard :: "(string \<Rightarrow> string) \<Rightarrow> node \<Rightarrow> string \<Rightarrow> guard_reply" where
  "gatewayGuard q n path =
     (if HasPrefix path ''/ipfs/'' then
        (let raw = drop (length ''/ipfs/'') path;
             raw = (let idx = Index raw ''/'' in if idx \<noteq> -1 then take (nat idx) raw else raw)
         in if raw = [] then HttpError StatusBadRequest ''missing CID''
            else (case ValidateCID raw of
               Some e \<Rightarrow> HttpError StatusBadRequest (cid_err_text q e)
             | None \<Rightarrow>
                if raw \<notin> pins n then HttpError StatusNotFound ''not pinned''
                else ServeNext))
      else if HasPrefix path ''/ipns/'' then ServeNext
      else ServeNext)"

text \<open>The first component after \<open>/ipfs/\<close>.\<close>

definition root_of :: "string \<Rightarrow> string" where
  "root_of path = takeWhile (\<lambda>c. c \<noteq> CHR ''/'') (drop (length ''/ipfs/'') path)"

lemma guard_root:
  "(let idx = Index raw ''/'' in if idx \<noteq> -1 then take (nat idx) raw else raw) = takeWhile (\<lambda>c. c \<noteq> CHR ''/'') raw"
proof (cases "CHR ''/'' \<in> set raw")
  case False
  then have "takeWhile (\<lambda>c. c \<noteq> CHR ''/'') raw = raw" by (auto simp: takeWhile_eq_all_conv)
  with False show ?thesis unfolding Index_def find_sub_first by (simp del: takeWhile_eq_all_conv)
qed (simp add: Index_def find_sub_first flip: takeWhile_eq_take)

lemma guard_ipfs:
  "HasPrefix path ''/ipfs/'' \<Longrightarrow> gatewayGuard q n path =
    (if root_of path = [] then HttpError 400 ''missing CID''
     else if \<not> cidRegex (root_of path) then HttpError 400 (''invalid CID: '' @ q (root_of path))
     else if root_of path \<notin> pins n then HttpError 404 ''not pinned'' else ServeNext)"
  unfolding gatewayGuard_def guard_root
  by (auto simp: root_of_def cid_err_text_def StatusBadRequest_def StatusNotFound_def Let_def split: option.splits)

lemma dropWhile_slash: "dropWhile (\<lambda>c. c \<noteq> x) t = [] \<or> HasPrefix (dropWhile (\<lambda>c. c \<noteq> x) t) [x]"
  by (induction t) (auto simp: HasPrefix_single)

section \<open>Properties\<close>

text \<open>
  C11: an \<open>/ipfs/\<close> request reaches the gateway handler exactly if its path is \<open>/ipfs/<cid>\<close>, or
  that followed by a slash and anything, for a well-formed CID that is pinned at that moment. A
  malformed root is answered 400, a well-formed root that is not pinned 404.
\<close>

theorem gateway_serves_only_pinned:
  assumes "HasPrefix path ''/ipfs/''"
  shows "(gatewayGuard q n path = ServeNext \<longleftrightarrow>
      (\<exists>c rest. path = ''/ipfs/'' @ c @ rest \<and> cidRegex c \<and> c \<in> pins n \<and> (rest = [] \<or> HasPrefix rest ''/'')))
   \<and> (\<forall>c rest. path = ''/ipfs/'' @ c @ rest \<and> (rest = [] \<or> HasPrefix rest ''/'') \<and> cidRegex c \<and> c \<notin> pins n
        \<longrightarrow> gatewayGuard q n path = HttpError 404 ''not pinned'')
   \<and> (\<not> cidRegex (root_of path) \<longrightarrow> (\<exists>msg. gatewayGuard q n path = HttpError 400 msg))"
proof -
  have root: "root_of path = c"
    if "path = ''/ipfs/'' @ c @ rest" "cidRegex c" "rest = [] \<or> HasPrefix rest ''/''" for c rest
    using cidRegex_no_special(1) [OF that(2)] that(1,3) by (simp add: root_of_def takeWhile_component)
  obtain t where t: "path = ''/ipfs/'' @ t" using assms by (auto simp: HasPrefix_iff)
  obtain rest where rest: "path = ''/ipfs/'' @ root_of path @ rest" "rest = [] \<or> HasPrefix rest ''/''"
    using t dropWhile_slash [of "CHR ''/''" t] that [of "dropWhile (\<lambda>c. c \<noteq> CHR ''/'') t"] by (simp add: root_of_def)
  note g = guard_ipfs [OF assms, of q n]
  show ?thesis
  proof (intro conjI iffI)
    assume "gatewayGuard q n path = ServeNext"
    with g have "cidRegex (root_of path)" "root_of path \<in> pins n" by (simp_all split: if_splits)
    with rest show "\<exists>c rest. path = ''/ipfs/'' @ c @ rest \<and> cidRegex c \<and> c \<in> pins n \<and> (rest = [] \<or> HasPrefix rest ''/'')"
      by blast
  next
    assume "\<exists>c rest. path = ''/ipfs/'' @ c @ rest \<and> cidRegex c \<and> c \<in> pins n \<and> (rest = [] \<or> HasPrefix rest ''/'')"
    then obtain c rest where c: "path = ''/ipfs/'' @ c @ rest" "cidRegex c" "c \<in> pins n" "rest = [] \<or> HasPrefix rest ''/''"
      by (elim exE conjE)
    from root [OF c(1,2,4)] c(2,3) show "gatewayGuard q n path = ServeNext" unfolding g using cidRegex_nonempty [of "root_of path"] by presburger
  next
    show "\<forall>c rest. path = ''/ipfs/'' @ c @ rest \<and> (rest = [] \<or> HasPrefix rest ''/'') \<and> cidRegex c \<and> c \<notin> pins n
        \<longrightarrow> gatewayGuard q n path = HttpError 404 ''not pinned''"
    proof (intro allI impI)
      fix c rest
      assume a: "path = ''/ipfs/'' @ c @ rest \<and> (rest = [] \<or> HasPrefix rest ''/'') \<and> cidRegex c \<and> c \<notin> pins n"
      then have "root_of path = c" by (elim conjE) (rule root)
      moreover have "c \<noteq> []" using a by (auto dest: cidRegex_nonempty)
      ultimately show "gatewayGuard q n path = HttpError 404 ''not pinned''" unfolding g using a by simp
    qed
    show "\<not> cidRegex (root_of path) \<longrightarrow> (\<exists>msg. gatewayGuard q n path = HttpError 400 msg)"
      unfolding g by simp
  qed
qed

theorem gateway_serves_only_pinned_witness:
  "gatewayGuard (\<lambda>s. s) (open_node empty_fs ''pins.json'') (''/ipfs/'' @ sample_v0 @ ''/fig.png'') = HttpError 404 ''not pinned''"
  by (rule gateway_serves_only_pinned [THEN conjunct2, THEN conjunct1, rule_format, where c = sample_v0 and rest = "''/fig.png''"])
    (simp_all add: open_node_empty HasPrefix_single HasPrefix_def)

end
