(* ===== verification/IpAddr.thy ===== *)
theory IpAddr
  imports GoStrings
begin

text \<open>
  IP addresses as Go's \<open>net\<close> and \<open>net/netip\<close> read and classify them: \<open>netip.ParseAddr\<close>,
  \<open>net.ParseIP\<close> and the predicates that the mesh's guard asks. An address is its sixteen bytes,
  an IPv4 address in its IPv4-mapped form, as \<open>net.ParseIP\<close> returns it.
\<close>

section \<open>Reading\<close>

type_synonym ip = "nat list"

definition split_on :: "char \<Rightarrow> string \<Rightarrow> string list" where
  "split_on c s = foldr (\<lambda>x acc. if x = c then [] # acc else (x # hd acc) # tl acc) s [[]]"

lemma split_on_ne: "split_on c s \<noteq> []"
  by (induction s) (auto simp: split_on_def)

lemma split_on_append: "c \<notin> set x \<Longrightarrow> split_on c (x @ s) = (x @ hd (split_on c s)) # tl (split_on c s)"
proof (induction x)
  case Nil
  have "split_on c s \<noteq> []" by (rule split_on_ne)
  then show ?case by simp
qed (auto simp: split_on_def)

definition dec :: "string \<Rightarrow> nat" where
  "dec s = foldl (\<lambda>n c. 10 * n + (of_char c - 48)) 0 s"

text \<open>One octet: digits, at most 255, no leading zero.\<close>

definition octet :: "string \<Rightarrow> nat option" where
  "octet f = (if f \<noteq> [] \<and> list_all is_digit f \<and> (hd f = CHR ''0'' \<longrightarrow> length f = 1) \<and> dec f \<le> 255
     then Some (dec f) else None)"

definition parse_ipv4 :: "string \<Rightarrow> nat list option" where
  "parse_ipv4 s = (let fs = map octet (split_on (CHR ''.'') s) in
     if length fs = 4 \<and> None \<notin> set fs then Some (map the fs) else None)"

definition hex_digit :: "char \<Rightarrow> nat option" where
  "hex_digit c = (if is_digit c then Some (of_char c - 48)
     else if in_range (CHR ''a'') (CHR ''f'') c then Some (of_char c - 87)
     else if in_range (CHR ''A'') (CHR ''F'') c then Some (of_char c - 55)
     else None)"

definition is_hex :: "char \<Rightarrow> bool" where
  "is_hex c \<longleftrightarrow> hex_digit c \<noteq> None"

definition hex_value :: "string \<Rightarrow> nat" where
  "hex_value s = foldl (\<lambda>n c. 16 * n + the (hex_digit c)) 0 s"

text \<open>The loop of \<open>parseIPv6\<close>: \<open>ip\<close> the bytes so far, \<open>ell\<close> where \<open>::\<close> stood. Every round reads one
  group of at most four hexadecimal digits, or a trailing IPv4 address.\<close>

function v6_groups :: "string \<Rightarrow> nat list \<Rightarrow> nat option \<Rightarrow> (string \<times> nat list \<times> nat option) option" where
  "v6_groups s bs ell =
     (if length bs \<ge> 16 then Some (s, bs, ell)
      else (let g = takeWhile is_hex s; r = dropWhile is_hex s in
        if length g = 0 \<or> length g > 4 then None
        else if HasPrefix r ''.'' then
          (if ell = None \<and> length bs \<noteq> 12 then None
           else if length bs + 4 > 16 then None
           else map_option (\<lambda>f. ([], bs @ f, ell)) (parse_ipv4 s))
        else (let bs' = bs @ [hex_value g div 256, hex_value g mod 256] in
          if r = [] then Some ([], bs', ell)
          else if \<not> HasPrefix r '':'' \<or> length r = 1 then None
          else if HasPrefix (tl r) '':'' then
            (if ell \<noteq> None then None
             else if tl (tl r) = [] then Some ([], bs', Some (length bs'))
             else v6_groups (tl (tl r)) bs' (Some (length bs')))
          else v6_groups (tl r) bs' ell)))"
  by pat_completeness auto
termination
  by (relation "measure (\<lambda>(s, bs, ell). 16 - length bs)") auto

declare v6_groups.simps [simp del]

definition v6_expand :: "string \<times> nat list \<times> nat option \<Rightarrow> ip option" where
  "v6_expand x = (case x of (s, bs, ell) \<Rightarrow>
     if s \<noteq> [] then None
     else if length bs < 16 then
       (case ell of None \<Rightarrow> None
        | Some e \<Rightarrow> Some (take e bs @ replicate (16 - length bs) 0 @ drop e bs))
     else if ell \<noteq> None then None else Some bs)"

text \<open>The address and its zone.\<close>

definition parse_ipv6 :: "string \<Rightarrow> (ip \<times> string) option" where
  "parse_ipv6 in0 = (case Cut in0 ''%'' of (s, zone, found) \<Rightarrow>
     if found \<and> zone = [] then None
     else if HasPrefix s ''::'' then
       (if drop 2 s = [] then Some (replicate 16 0, zone)
        else map_option (\<lambda>a. (a, zone)) (Option.bind (v6_groups (drop 2 s) [] (Some 0)) v6_expand))
     else map_option (\<lambda>a. (a, zone)) (Option.bind (v6_groups s [] None) v6_expand))"

definition v4_mapped :: "nat list \<Rightarrow> ip" where
  "v4_mapped f = replicate 10 0 @ [255, 255] @ f"

datatype addr = Addr4 "nat list" | Addr6 ip string

definition ParseAddr :: "string \<Rightarrow> addr option" where
  "ParseAddr s = (case dropWhile (\<lambda>c. c \<notin> {CHR ''.'', CHR '':'', CHR ''%''}) s of
     [] \<Rightarrow> None
   | c # _ \<Rightarrow> if c = CHR ''.'' then map_option Addr4 (parse_ipv4 s)
       else if c = CHR '':'' then map_option (\<lambda>(a, z). Addr6 a z) (parse_ipv6 s)
       else None)"

definition ParseIP :: "string \<Rightarrow> ip option" where
  "ParseIP s = (case ParseAddr s of
     None \<Rightarrow> None
   | Some (Addr4 f) \<Rightarrow> Some (v4_mapped f)
   | Some (Addr6 a z) \<Rightarrow> if z \<noteq> [] then None else Some a)"

section \<open>Classes of addresses\<close>

definition To4 :: "ip \<Rightarrow> nat list option" where
  "To4 a = (if length a = 4 then Some a
     else if length a = 16 \<and> take 12 a = replicate 10 0 @ [255, 255] then Some (drop 12 a) else None)"

definition IsLoopback :: "ip \<Rightarrow> bool" where
  "IsLoopback a = (case To4 a of Some f \<Rightarrow> f ! 0 = 127 | None \<Rightarrow> a = replicate 15 0 @ [1])"

definition IsLinkLocalUnicast :: "ip \<Rightarrow> bool" where
  "IsLinkLocalUnicast a = (case To4 a of Some f \<Rightarrow> f ! 0 = 169 \<and> f ! 1 = 254
     | None \<Rightarrow> length a = 16 \<and> a ! 0 = 0xfe \<and> a ! 1 div 64 = 2)"

definition IsLinkLocalMulticast :: "ip \<Rightarrow> bool" where
  "IsLinkLocalMulticast a = (case To4 a of Some f \<Rightarrow> f ! 0 = 224 \<and> f ! 1 = 0 \<and> f ! 2 = 0
     | None \<Rightarrow> length a = 16 \<and> a ! 0 = 0xff \<and> a ! 1 mod 16 = 2)"

definition IsInterfaceLocalMulticast :: "ip \<Rightarrow> bool" where
  "IsInterfaceLocalMulticast a \<longleftrightarrow> length a = 16 \<and> a ! 0 = 0xff \<and> a ! 1 mod 16 = 1"

definition IsMulticast :: "ip \<Rightarrow> bool" where
  "IsMulticast a = (case To4 a of Some f \<Rightarrow> f ! 0 div 16 = 14 | None \<Rightarrow> length a = 16 \<and> a ! 0 = 0xff)"

definition IsUnspecified :: "ip \<Rightarrow> bool" where
  "IsUnspecified a = (case To4 a of Some f \<Rightarrow> f = [0, 0, 0, 0] | None \<Rightarrow> a = replicate 16 0)"

definition IsPrivate :: "ip \<Rightarrow> bool" where
  "IsPrivate a = (case To4 a of
     Some f \<Rightarrow> f ! 0 = 10 \<or> (f ! 0 = 172 \<and> f ! 1 div 16 = 1) \<or> (f ! 0 = 192 \<and> f ! 1 = 168)
   | None \<Rightarrow> length a = 16 \<and> a ! 0 div 2 = 126)"

end
