(* ===== verification/Url.thy ===== *)
theory Url
  imports IpAddr
begin

text \<open>
  Go's \<open>net/url\<close> as far as the program uses it: \<open>Parse\<close>, \<open>URL.String\<close>, \<open>Hostname\<close>, \<open>PathEscape\<close>
  and \<open>QueryEscape\<close>, on byte strings. Errors are not told apart.
\<close>

section \<open>Escaping\<close>

datatype encoding =
    encodePath | encodePathSegment | encodeHost | encodeZone | encodeUserPassword
  | encodeQueryComponent | encodeFragment

definition is_alphanum :: "char \<Rightarrow> bool" where
  "is_alphanum c \<longleftrightarrow> is_lower c \<or> is_upper c \<or> is_digit c"

definition host_mode :: "encoding \<Rightarrow> bool" where
  "host_mode mode \<longleftrightarrow> mode = encodeHost \<or> mode = encodeZone"

definition reserved_escaped :: "encoding \<Rightarrow> char \<Rightarrow> bool" where
  "reserved_escaped mode c = (case mode of
     encodePath \<Rightarrow> c = CHR ''?''
   | encodePathSegment \<Rightarrow> c \<in> set ''/;,?''
   | encodeUserPassword \<Rightarrow> c \<in> set ''@/?:''
   | encodeQueryComponent \<Rightarrow> True
   | encodeFragment \<Rightarrow> False
   | _ \<Rightarrow> True)"

definition shouldEscape :: "encoding \<Rightarrow> char \<Rightarrow> bool" where
  "shouldEscape mode c =
     (if is_alphanum c then False
      else if host_mode mode \<and> c \<in> set (''!$&'' @ [CHR 0x27] @ ''()*+,;=:[]<>'' @ [CHR 0x22]) then False
      else if c \<in> set ''-_.~'' then False
      else if c \<in> set ''$&+,/:;=?@'' then reserved_escaped mode c
      else if mode = encodeFragment \<and> c \<in> set ''!()*'' then False
      else True)"

definition byte_val :: "char \<Rightarrow> nat" where
  "byte_val c = of_char c"

definition upper_hex :: "nat \<Rightarrow> char" where
  "upper_hex n = ''0123456789ABCDEF'' ! n"

definition pct :: "char \<Rightarrow> string" where
  "pct c = [CHR ''%'', upper_hex (byte_val c div 16), upper_hex (byte_val c mod 16)]"

definition escape :: "encoding \<Rightarrow> string \<Rightarrow> string" where
  "escape mode s = concat (map (\<lambda>c.
     if c = CHR '' '' \<and> mode = encodeQueryComponent then ''+''
     else if shouldEscape mode c then pct c else [c]) s)"

definition QueryEscape :: "string \<Rightarrow> string" where
  "QueryEscape s = escape encodeQueryComponent s"

definition PathEscape :: "string \<Rightarrow> string" where
  "PathEscape s = escape encodePathSegment s"

definition hex_pair :: "char \<Rightarrow> char \<Rightarrow> nat" where
  "hex_pair a b = 16 * the (hex_digit a) + the (hex_digit b)"

text \<open>Whether \<open>unescape\<close> accepts an escape sequence in this mode.\<close>

definition pct_allowed :: "encoding \<Rightarrow> char \<Rightarrow> char \<Rightarrow> bool" where
  "pct_allowed mode a b =
     (if mode = encodeHost then \<not> (the (hex_digit a) < 8 \<and> [a, b] \<noteq> ''25'')
      else if mode = encodeZone then
        [a, b] = ''25'' \<or> hex_pair a b = 32 \<or> \<not> shouldEscape encodeHost (char_of (hex_pair a b))
      else True)"

fun unescape :: "encoding \<Rightarrow> string \<Rightarrow> string option" where
  "unescape mode [] = Some []"
| "unescape mode (c # s) =
     (if c = CHR ''%'' then
        (case s of
           a # b # t \<Rightarrow>
             if is_hex a \<and> is_hex b \<and> pct_allowed mode a b
             then map_option (\<lambda>r. char_of (hex_pair a b) # r) (unescape mode t) else None
         | _ \<Rightarrow> None)
      else if c = CHR ''+'' \<and> mode = encodeQueryComponent then map_option (\<lambda>r. CHR '' '' # r) (unescape mode s)
      else if host_mode mode \<and> byte_val c < 128 \<and> shouldEscape mode c then None
      else map_option (\<lambda>r. c # r) (unescape mode s))"

section \<open>The parts of a URL\<close>

record userinfo =
  username :: string
  password :: "string option"

record URL =
  Scheme :: string
  Opaque :: string
  User :: "userinfo option"
  Host :: string
  Path :: string
  RawPath :: string
  OmitHost :: bool
  ForceQuery :: bool
  RawQuery :: string
  Fragment :: string
  RawFragment :: string

definition empty_url :: URL where
  "empty_url = \<lparr>Scheme = [], Opaque = [], User = None, Host = [], Path = [], RawPath = [],
     OmitHost = False, ForceQuery = False, RawQuery = [], Fragment = [], RawFragment = []\<rparr>"

section \<open>Reading\<close>

text \<open>\<open>getScheme\<close>: \<open>None\<close> where the colon comes first.\<close>

fun scheme_scan :: "nat \<Rightarrow> string \<Rightarrow> string \<Rightarrow> (string \<times> string) option" where
  "scheme_scan i raw [] = Some ([], raw)"
| "scheme_scan i raw (c # s) =
     (if is_lower c \<or> is_upper c then scheme_scan (Suc i) raw s
      else if is_digit c \<or> c \<in> set ''+-.'' then
        (if i = 0 then Some ([], raw) else scheme_scan (Suc i) raw s)
      else if c = CHR '':'' then (if i = 0 then None else Some (take i raw, s))
      else Some ([], raw))"

definition getScheme :: "string \<Rightarrow> (string \<times> string) option" where
  "getScheme raw = scheme_scan 0 raw raw"

definition last_index :: "char \<Rightarrow> string \<Rightarrow> nat option" where
  "last_index c s = (if c \<in> set s then Some (length s - 1 - length (takeWhile (\<lambda>x. x \<noteq> c) (rev s))) else None)"

definition validOptionalPort :: "string \<Rightarrow> bool" where
  "validOptionalPort p = (case p of [] \<Rightarrow> True | c # ds \<Rightarrow> c = CHR '':'' \<and> list_all is_digit ds)"

text \<open>A bracketed host must hold an IPv6 address.\<close>

definition parse_bracketed :: "string \<Rightarrow> nat \<Rightarrow> string option" where
  "parse_bracketed host opn = (case last_index (CHR '']'') host of
     None \<Rightarrow> None
   | Some cls \<Rightarrow>
      (let colonPort = drop (cls + 1) host; hostname = take (cls - (opn + 1)) (drop (opn + 1) host) in
       if cls < opn + 1 \<or> \<not> validOptionalPort colonPort then None
       else (case unescape encodeHost colonPort of
          None \<Rightarrow> None
        | Some port \<Rightarrow>
           (case (case find_sub hostname ''%25'' of
                Some z \<Rightarrow> (case (unescape encodeHost (take z hostname), unescape encodeZone (drop z hostname)) of
                    (Some h, Some zn) \<Rightarrow> Some (h @ zn) | _ \<Rightarrow> None)
              | None \<Rightarrow> unescape encodeHost hostname) of
              None \<Rightarrow> None
            | Some h \<Rightarrow> (case ParseAddr h of
                Some (Addr6 _ _) \<Rightarrow> Some (''['' @ h @ '']'' @ port)
              | _ \<Rightarrow> None)))))"

definition parseHost :: "string \<Rightarrow> string option" where
  "parseHost host = (case last_index (CHR ''['') host of
     Some opn \<Rightarrow> parse_bracketed host opn
   | None \<Rightarrow>
      (case last_index (CHR '':'') host of
         Some i \<Rightarrow> if validOptionalPort (drop i host) then unescape encodeHost host else None
       | None \<Rightarrow> unescape encodeHost host))"

definition validUserinfo :: "string \<Rightarrow> bool" where
  "validUserinfo s = list_all (\<lambda>c. is_alphanum c \<or> c \<in> set (''-._:~!$&'' @ [CHR 0x27] @ ''()*+,;=%@'')) s"

definition parseAuthority :: "string \<Rightarrow> (userinfo option \<times> string) option" where
  "parseAuthority authority = (case last_index (CHR ''@'') authority of
     None \<Rightarrow> map_option (\<lambda>h. (None, h)) (parseHost authority)
   | Some i \<Rightarrow> (case parseHost (drop (i + 1) authority) of
       None \<Rightarrow> None
     | Some h \<Rightarrow>
        (let ui = take i authority in
         if \<not> validUserinfo ui then None
         else (case Cut ui '':'' of (u, p, found) \<Rightarrow>
           (case unescape encodeUserPassword u of
              None \<Rightarrow> None
            | Some u' \<Rightarrow>
               if \<not> found then Some (Some \<lparr>username = u', password = None\<rparr>, h)
               else map_option (\<lambda>p'. (Some \<lparr>username = u', password = Some p'\<rparr>, h))
                      (unescape encodeUserPassword p))))))"

definition setPath :: "string \<Rightarrow> URL \<Rightarrow> URL option" where
  "setPath p u = (case unescape encodePath p of
     None \<Rightarrow> None
   | Some path \<Rightarrow> Some (u\<lparr>Path := path, RawPath := (if p = escape encodePath path then [] else p)\<rparr>))"

definition setFragment :: "string \<Rightarrow> URL \<Rightarrow> URL option" where
  "setFragment f u = (case unescape encodeFragment f of
     None \<Rightarrow> None
   | Some frag \<Rightarrow> Some (u\<lparr>Fragment := frag, RawFragment := (if f = escape encodeFragment frag then [] else f)\<rparr>))"

definition is_ctl :: "char \<Rightarrow> bool" where
  "is_ctl c \<longleftrightarrow> byte_val c < 32 \<or> byte_val c = 127"

definition parse_url :: "string \<Rightarrow> URL option" where
  "parse_url raw =
     (if list_ex is_ctl raw then None
      else if raw = ''*'' then Some (empty_url\<lparr>Path := ''*''\<rparr>)
      else (case getScheme raw of
         None \<Rightarrow> None
       | Some (sch, rest0) \<Rightarrow>
          (let sch = map ascii_lower sch;
               force = (rest0 \<noteq> [] \<and> last rest0 = CHR ''?'' \<and> count_list rest0 (CHR ''?'') = 1);
               (rest, query) = (if force then (butlast rest0, []) else (case Cut rest0 ''?'' of (a, b, _) \<Rightarrow> (a, b)));
               u = empty_url\<lparr>Scheme := sch, ForceQuery := force, RawQuery := query\<rparr>
           in if \<not> HasPrefix rest ''/'' \<and> sch \<noteq> [] then Some (u\<lparr>Opaque := rest\<rparr>)
              else if \<not> HasPrefix rest ''/'' \<and> CHR '':'' \<in> set (fst (Cut rest ''/'')) then None
              else if (sch \<noteq> [] \<or> \<not> HasPrefix rest ''///'') \<and> HasPrefix rest ''//'' then
                (let auth = takeWhile (\<lambda>c. c \<noteq> CHR ''/'') (drop 2 rest);
                     rest' = dropWhile (\<lambda>c. c \<noteq> CHR ''/'') (drop 2 rest)
                 in case parseAuthority auth of
                      None \<Rightarrow> None
                    | Some (usr, host) \<Rightarrow> setPath rest' (u\<lparr>User := usr, Host := host\<rparr>))
              else setPath rest (u\<lparr>OmitHost := (sch \<noteq> [] \<and> HasPrefix rest ''/'')\<rparr>))))"

definition Parse :: "string \<Rightarrow> URL option" where
  "Parse raw = (case Cut raw ''#'' of (u, frag, _) \<Rightarrow>
     (case parse_url u of
        None \<Rightarrow> None
      | Some url \<Rightarrow> if frag = [] then Some url else setFragment frag url))"

section \<open>Writing\<close>

definition splitHostPort :: "string \<Rightarrow> string \<times> string" where
  "splitHostPort hostPort =
     (let (host, port) = (case last_index (CHR '':'') hostPort of
            Some i \<Rightarrow> if validOptionalPort (drop i hostPort) then (take i hostPort, drop (i + 1) hostPort) else (hostPort, [])
          | None \<Rightarrow> (hostPort, []))
      in if HasPrefix host ''['' \<and> host \<noteq> [] \<and> last host = CHR '']'' then (take (length host - 2) (drop 1 host), port)
         else (host, port))"

definition Hostname :: "URL \<Rightarrow> string" where
  "Hostname u = fst (splitHostPort (Host u))"

definition validEncoded :: "encoding \<Rightarrow> string \<Rightarrow> bool" where
  "validEncoded mode s = list_all (\<lambda>c. c \<in> set (''!$&'' @ [CHR 0x27] @ ''()*+,;=:@[]%'') \<or> \<not> shouldEscape mode c) s"

definition EscapedPath :: "URL \<Rightarrow> string" where
  "EscapedPath u =
     (if RawPath u \<noteq> [] \<and> validEncoded encodePath (RawPath u) \<and> unescape encodePath (RawPath u) = Some (Path u)
      then RawPath u
      else if Path u = ''*'' then ''*'' else escape encodePath (Path u))"

definition EscapedFragment :: "URL \<Rightarrow> string" where
  "EscapedFragment u =
     (if RawFragment u \<noteq> [] \<and> validEncoded encodeFragment (RawFragment u)
         \<and> unescape encodeFragment (RawFragment u) = Some (Fragment u)
      then RawFragment u else escape encodeFragment (Fragment u))"

definition userinfo_String :: "userinfo \<Rightarrow> string" where
  "userinfo_String ui =
     (if username ui \<noteq> [] \<or> (case password ui of None \<Rightarrow> False | Some p \<Rightarrow> p \<noteq> [])
      then escape encodeUserPassword (username ui)
         @ (case password ui of None \<Rightarrow> [] | Some p \<Rightarrow> '':'' @ escape encodeUserPassword p)
      else [])"

definition url_String :: "URL \<Rightarrow> string" where
  "url_String u =
     (let pre = (if Scheme u \<noteq> [] then Scheme u @ '':'' else []);
          body = (if Opaque u \<noteq> [] then Opaque u
            else (let auth =
                 (if Scheme u \<noteq> [] \<or> Host u \<noteq> [] \<or> User u \<noteq> None then
                    (if OmitHost u \<and> Host u = [] \<and> User u = None then []
                     else (if Host u \<noteq> [] \<or> Path u \<noteq> [] \<or> User u \<noteq> None then ''//'' else [])
                       @ (case User u of None \<Rightarrow> [] | Some ui \<Rightarrow> userinfo_String ui @ ''@'')
                       @ escape encodeHost (Host u))
                  else []);
                 path = EscapedPath u;
                 slash = (if path \<noteq> [] \<and> hd path \<noteq> CHR ''/'' \<and> Host u \<noteq> [] then ''/'' else []);
                 dot = (if pre @ auth @ slash = [] \<and> CHR '':'' \<in> set (fst (Cut path ''/'')) then ''./'' else [])
               in auth @ slash @ dot @ path))
      in pre @ body
         @ (if ForceQuery u \<or> RawQuery u \<noteq> [] then ''?'' @ RawQuery u else [])
         @ (if Fragment u \<noteq> [] then ''#'' @ EscapedFragment u else []))"

end
