(* ===== verification/Fetch.thy ===== *)
theory Fetch
  imports Url "HOL-Library.Word" "HOL-Library.Sublist"
begin

text \<open>
  \<open>ipfsnode_fetch.go\<close> and the part of \<open>NewEmbeddedNode\<close> that composes the configured gateways: the
  order in which gateways are tried, the removal of duplicates, and the import of one CAR stream
  into the blockstore with its batches and its byte cap. The HTTP client, go-car and the blockstore
  are parameters: a gateway answers with a status and, through a reader limited to some number of
  bytes, a sequence of blocks with the count of bytes read so far; \<open>put_ok\<close> says which
  \<open>PutMany\<close> calls succeed. \<open>uni\<close> is the Unicode part of \<open>strings.ToLower\<close>.
\<close>

section \<open>The chain of gateways\<close>

definition defaultFallbackGateways :: "string list" where
  "defaultFallbackGateways = [''https://ipfs.io'', ''https://dweb.link'', ''https://cloudflare-ipfs.com'',
     ''https://gateway.pinata.cloud'']"

record chain_conf =
  fallbackGateways :: "string list"
  staticHeadLen :: nat

text \<open>From \<open>NewEmbeddedNode\<close>: PEvO's own gateway if configured, the operator's, the public ones.\<close>

definition static_chain :: "string \<Rightarrow> string list \<Rightarrow> chain_conf" where
  "static_chain pevoMain extras =
     (let staticHead = (if pevoMain \<noteq> [] then [pevoMain] else []) @ extras
      in \<lparr>fallbackGateways = staticHead @ defaultFallbackGateways, staticHeadLen = length staticHead\<rparr>)"

definition normalizeFallbackURL :: "(string \<Rightarrow> string) \<Rightarrow> string \<Rightarrow> string" where
  "normalizeFallbackURL uni raw =
     (if raw = [] then []
      else (case Parse (TrimSpace raw) of
         None \<Rightarrow> []
       | Some u \<Rightarrow> url_String (u\<lparr>Host := ToLower uni (Host u), Path := TrimRight (CHR ''/'') (Path u),
            Fragment := [], RawQuery := []\<rparr>)))"

text \<open>The closure \<open>add\<close> on the pair of \<open>seen\<close> and \<open>out\<close>.\<close>

definition chain_add :: "(string \<Rightarrow> string) \<Rightarrow> string \<Rightarrow> string set \<times> string list \<Rightarrow> string set \<times> string list" where
  "chain_add uni u st = (case st of (seen, out) \<Rightarrow>
     (let k = normalizeFallbackURL uni u in
      if k = [] then st else if k \<in> seen then st else (insert k seen, out @ [u])))"

text \<open>\<open>mesh\<close> is \<open>None\<close> where the mesh is off, else the gateway URLs of the known peers in the order
  in which Go iterates their map.\<close>

definition assembleFallbackChain :: "(string \<Rightarrow> string) \<Rightarrow> chain_conf \<Rightarrow> string list option \<Rightarrow> string list" where
  "assembleFallbackChain uni n mesh = (case mesh of
     None \<Rightarrow> fallbackGateways n
   | Some peers \<Rightarrow>
      if length peers = 0 then fallbackGateways n
      else (let headEnd = (if staticHeadLen n > length (fallbackGateways n) then length (fallbackGateways n)
                           else staticHeadLen n);
                st = fold (chain_add uni) (take headEnd (fallbackGateways n)) ({}, []);
                st = fold (chain_add uni) peers st;
                st = fold (chain_add uni) (drop headEnd (fallbackGateways n)) st
            in snd st))"

section \<open>One CAR stream\<close>

definition carImportBatchSize :: nat where
  "carImportBatchSize = 256"

definition defaultMaxPinBytes :: "64 word" where
  "defaultMaxPinBytes = push_bit 30 1"

text \<open>What \<open>br.Next\<close> returns: blocks, each with the value of the byte counter after it, then an error,
  which is \<open>io.EOF\<close> or not.\<close>

record 'b car_stream =
  car_blocks :: "(int \<times> 'b) list"
  end_count :: int
  end_eof :: bool

text \<open>What a gateway answers. The body is a function of the limit of \<open>io.LimitReader\<close>; \<open>None\<close> is an
  error of the CAR header.\<close>

datatype 'b response =
    RequestError
  | Response int "int \<Rightarrow> 'b car_stream option"

datatype fetch_err =
    HTTPFailed
  | BadStatus int
  | CARHeader
  | ExceededMaxPinBytes
  | CARBlock nat
  | PutManyFailed
  | NoBlocks

text \<open>The \<open>PutMany\<close> calls made so far, in order.\<close>

type_synonym 'b puts = "'b list list"

definition flush :: "(nat \<Rightarrow> bool) \<Rightarrow> 'b list \<Rightarrow> 'b puts \<Rightarrow> 'b puts \<times> bool" where
  "flush put_ok batch puts =
     (if length batch = 0 then (puts, True) else (puts @ [batch], put_ok (length puts)))"

fun import_loop :: "(nat \<Rightarrow> bool) \<Rightarrow> int \<Rightarrow> (int \<times> 'b) list \<Rightarrow> int \<Rightarrow> bool \<Rightarrow> 'b list \<Rightarrow> nat \<Rightarrow> 'b puts
    \<Rightarrow> 'b puts \<times> fetch_err option" where
  "import_loop put_ok cap [] endn eof batch imported puts =
     (if endn > cap then (puts, Some ExceededMaxPinBytes)
      else if \<not> eof then (puts, Some (CARBlock imported))
      else (case flush put_ok batch puts of (puts', ok) \<Rightarrow>
        if \<not> ok then (puts', Some PutManyFailed)
        else if imported = 0 then (puts', Some NoBlocks)
        else (puts', None)))"
| "import_loop put_ok cap ((n, blk) # blks) endn eof batch imported puts =
     (if n > cap then (puts, Some ExceededMaxPinBytes)
      else (let batch = batch @ [blk]; imported = imported + 1 in
        if length batch \<ge> carImportBatchSize then
          (case flush put_ok batch puts of (puts', ok) \<Rightarrow>
             if \<not> ok then (puts', Some PutManyFailed)
             else import_loop put_ok cap blks endn eof [] imported puts')
        else import_loop put_ok cap blks endn eof batch imported puts))"

definition StatusOK :: int where "StatusOK = 200"

text \<open>\<open>maxPinBytes + 1\<close> is computed in \<open>int64\<close>.\<close>

definition read_limit :: "64 word \<Rightarrow> int" where
  "read_limit maxPinBytes = sint (maxPinBytes + 1)"

definition fetchCARFromGateway :: "(string \<Rightarrow> 'b response) \<Rightarrow> (nat \<Rightarrow> bool) \<Rightarrow> 64 word \<Rightarrow> string \<Rightarrow> string
    \<Rightarrow> 'b puts \<Rightarrow> 'b puts \<times> fetch_err option" where
  "fetchCARFromGateway http put_ok maxPinBytes gw c puts =
     (let url = TrimRight (CHR ''/'') gw @ ''/ipfs/'' @ c in
      case http url of
        RequestError \<Rightarrow> (puts, Some HTTPFailed)
      | Response status body \<Rightarrow>
          if status \<noteq> StatusOK then (puts, Some (BadStatus status))
          else (case body (read_limit maxPinBytes) of
             None \<Rightarrow> (puts, Some CARHeader)
           | Some s \<Rightarrow> import_loop put_ok (sint maxPinBytes) (car_blocks s) (end_count s) (end_eof s) [] 0 puts))"

datatype chain_err = NoFallbackGateways | AllFailed "(string \<times> fetch_err) list"

text \<open>The loop over the chain. \<open>fetch\<close> is given how many gateways have failed before, since the same
  gateway may answer differently the next time.\<close>

fun fetch_loop :: "(nat \<Rightarrow> string \<Rightarrow> 'b puts \<Rightarrow> 'b puts \<times> fetch_err option) \<Rightarrow> string list \<Rightarrow> (string \<times> fetch_err) list
    \<Rightarrow> 'b puts \<Rightarrow> 'b puts \<times> chain_err option" where
  "fetch_loop fetch [] errs puts = (puts, Some (AllFailed errs))"
| "fetch_loop fetch (gw # gws) errs puts = (case fetch (length errs) gw puts of
     (puts', Some e) \<Rightarrow> fetch_loop fetch gws (errs @ [(gw, e)]) puts'
   | (puts', None) \<Rightarrow> (puts', None))"

definition fetchViaCAR :: "(string \<Rightarrow> string) \<Rightarrow> chain_conf \<Rightarrow> string list option \<Rightarrow> (nat \<Rightarrow> string \<Rightarrow> 'b response)
    \<Rightarrow> (nat \<Rightarrow> bool) \<Rightarrow> 64 word \<Rightarrow> string \<Rightarrow> 'b puts \<Rightarrow> 'b puts \<times> chain_err option" where
  "fetchViaCAR uni n mesh http put_ok maxPinBytes c puts =
     (let chain = assembleFallbackChain uni n mesh in
      if length chain = 0 then (puts, Some NoFallbackGateways)
      else fetch_loop (\<lambda>k gw. fetchCARFromGateway (http k) put_ok maxPinBytes gw c) chain [] puts)"

section \<open>Facts: the import\<close>

definition batches_from :: "'b puts \<Rightarrow> 'b puts \<Rightarrow> 'b list \<Rightarrow> bool" where
  "batches_from puts puts' blks \<longleftrightarrow> (\<exists>bs. puts' = puts @ bs \<and> concat bs = blks
     \<and> (\<forall>b \<in> set bs. b \<noteq> [] \<and> length b \<le> carImportBatchSize))"

lemma batches_refl: "batches_from puts puts []"
  by (simp add: batches_from_def)

lemma batches_snoc: "batches_from puts puts' xs \<Longrightarrow> b \<noteq> [] \<Longrightarrow> length b \<le> carImportBatchSize
  \<Longrightarrow> batches_from puts (puts' @ [b]) (xs @ b)"
  unfolding batches_from_def by (elim exE conjE, rule_tac x = "bs @ [b]" in exI) auto

lemma batch_size_pos: "0 < carImportBatchSize"
  by (simp add: carImportBatchSize_def)

text \<open>Whatever happens, what reached the blockstore is a prefix of the stream's blocks, in batches; on
  success it is all of them, there was at least one, the stream ended cleanly and no count was over
  the cap.\<close>

lemma import_loop_spec:
  assumes "import_loop put_ok cap blks endn eof batch imported puts = (puts', r)"
    "batches_from puts0 puts xs" "length batch < carImportBatchSize" "imported = length xs + length batch"
  shows "(\<exists>ys zs. batches_from puts0 puts' ys \<and> xs @ batch @ map snd blks = ys @ zs)
     \<and> (r = None \<longrightarrow> batches_from puts0 puts' (xs @ batch @ map snd blks) \<and> eof \<and> endn \<le> cap
          \<and> (\<forall>(n, b) \<in> set blks. n \<le> cap) \<and> 0 < imported + length blks)"
  using assms
proof (induction put_ok cap blks endn eof batch imported puts arbitrary: xs rule: import_loop.induct)
  case (1 put_ok cap endn eof batch imported puts)
  have f: "batches_from puts0 (fst (flush put_ok batch puts)) (xs @ batch)"
    using "1.prems"(2,3) by (cases "batch = []") (auto simp: flush_def intro: batches_snoc)
  show ?case
  proof (cases "endn > cap \<or> \<not> eof")
    case True
    with "1.prems"(1,2) have "puts' = puts" "r \<noteq> None" by (auto split: if_splits)
    with "1.prems"(2) show ?thesis by auto
  next
    case False
    with "1.prems"(1) have "puts' = fst (flush put_ok batch puts)" "r = None \<longrightarrow> imported \<noteq> 0"
      by (auto split: prod.splits if_splits)
    with f False "1.prems"(4) show ?thesis by (auto intro: exI [of _ "[]"])
  qed
next
  case (2 put_ok cap n blk blks endn eof batch imported puts)
  let ?b = "batch @ [blk]"
  show ?case
  proof (cases "n > cap")
    case True
    with "2.prems"(1,2) show ?thesis by auto
  next
    case le: False
    show ?thesis
    proof (cases "length ?b \<ge> carImportBatchSize")
      case full: True
      obtain puts1 ok where f: "flush put_ok ?b puts = (puts1, ok)" by fastforce
      then have b: "batches_from puts0 puts1 (xs @ ?b)"
        using "2.prems"(2,3) batches_snoc [of puts0 puts xs ?b] by (auto simp: flush_def)
      show ?thesis
      proof (cases ok)
        case True
        have "import_loop put_ok cap blks endn eof [] (imported + 1) puts1 = (puts', r)"
          using "2.prems"(1) le full f True by simp
        from "2.IH"(1) [OF le refl refl full f [symmetric] _ this b] batch_size_pos "2.prems"(4) True le
        show ?thesis by simp
      next
        case False
        with "2.prems"(1) le full f b show ?thesis by (auto intro: exI [of _ "xs @ ?b"])
      qed
    next
      case False
      have "import_loop put_ok cap blks endn eof ?b (imported + 1) puts = (puts', r)"
        using "2.prems"(1) le False by simp
      from "2.IH"(2) [OF le refl refl False this "2.prems"(2)] False "2.prems"(4) le show ?thesis by simp
    qed
  qed
qed

lemma import_loop_succeeds:
  assumes "\<forall>k. put_ok k" "eof" "endn \<le> cap" "\<forall>(n, b) \<in> set blks. n \<le> cap" "0 < imported + length blks"
  shows "snd (import_loop put_ok cap blks endn eof batch imported puts) = None"
  using assms
  by (induction put_ok cap blks endn eof batch imported puts rule: import_loop.induct)
     (auto simp: flush_def Let_def split: prod.splits)

section \<open>Facts: the chain\<close>

definition chain_ok :: "(string \<Rightarrow> string) \<Rightarrow> string set \<times> string list \<Rightarrow> bool" where
  "chain_ok uni st \<longleftrightarrow> fst st = set (map (normalizeFallbackURL uni) (snd st))
     \<and> distinct (map (normalizeFallbackURL uni) (snd st)) \<and> [] \<notin> fst st"

definition keys :: "(string \<Rightarrow> string) \<Rightarrow> string list \<Rightarrow> string set" where
  "keys uni us = set (map (normalizeFallbackURL uni) us) - {[]}"

lemma chain_add_ok: "chain_ok uni st \<Longrightarrow> chain_ok uni (chain_add uni u st)
   \<and> fst (chain_add uni u st) = fst st \<union> keys uni [u]
   \<and> (snd (chain_add uni u st) = snd st \<or> snd (chain_add uni u st) = snd st @ [u])"
  by (cases st) (auto simp: chain_add_def chain_ok_def keys_def Let_def)

lemma chain_fold:
  "chain_ok uni st \<Longrightarrow> chain_ok uni (fold (chain_add uni) us st)
     \<and> fst (fold (chain_add uni) us st) = fst st \<union> keys uni us
     \<and> (\<exists>new. snd (fold (chain_add uni) us st) = snd st @ new \<and> subseq new us)"
proof (induction us arbitrary: st)
  case Nil
  then show ?case by (simp add: keys_def)
next
  case (Cons u us)
  note a = chain_add_ok [OF Cons.prems, of u]
  then have "chain_ok uni (chain_add uni u st)" by blast
  note ih = Cons.IH [OF this]
  then obtain new where new: "snd (fold (chain_add uni) us (chain_add uni u st)) = snd (chain_add uni u st) @ new" "subseq new us"
    by blast
  have "keys uni (u # us) = keys uni [u] \<union> keys uni us" by (auto simp: keys_def)
  moreover have "\<exists>new'. snd (chain_add uni u st) @ new = snd st @ new' \<and> subseq new' (u # us)"
    using a new(2) by (elim conjE disjE) (auto intro: exI [of _ "u # new"])
  ultimately show ?case using ih a new(1) by (simp add: Un_assoc)
qed

lemma chain_fold_members:
  "u \<in> set (snd (fold (chain_add uni) us st)) \<Longrightarrow> u \<in> set (snd st) \<or> (u \<in> set us \<and> u \<noteq> [])"
proof (induction us arbitrary: st)
  case (Cons w us)
  have "u \<in> set (snd (chain_add uni w st)) \<Longrightarrow> u \<in> set (snd st) \<or> (u = w \<and> u \<noteq> [])"
    by (cases st) (auto simp: chain_add_def Let_def normalizeFallbackURL_def split: if_splits)
  with Cons.IH [of "chain_add uni w st"] Cons.prems show ?case by auto
qed simp

lemma chain_members:
  assumes "u \<in> set (assembleFallbackChain uni n (Some ps))"
  shows "u \<in> set (fallbackGateways n) \<or> (u \<in> set ps \<and> u \<noteq> [])"
proof (cases "ps = []")
  case False
  with assms show ?thesis
    by (auto simp: assembleFallbackChain_def Let_def dest!: chain_fold_members dest: in_set_takeD in_set_dropD)
qed (use assms in \<open>simp add: assembleFallbackChain_def\<close>)

text \<open>The state of the blockstore before each gateway of the chain is tried.\<close>

fun fetch_states :: "(nat \<Rightarrow> string \<Rightarrow> 'b puts \<Rightarrow> 'b puts \<times> fetch_err option) \<Rightarrow> nat \<Rightarrow> string list \<Rightarrow> 'b puts \<Rightarrow> 'b puts list" where
  "fetch_states fetch k [] puts = [puts]"
| "fetch_states fetch k (gw # gws) puts = puts # fetch_states fetch (Suc k) gws (fst (fetch k gw puts))"

definition outcome_at :: "(nat \<Rightarrow> string \<Rightarrow> 'b puts \<Rightarrow> 'b puts \<times> fetch_err option) \<Rightarrow> nat \<Rightarrow> string list \<Rightarrow> 'b puts \<Rightarrow> nat
    \<Rightarrow> 'b puts \<times> fetch_err option" where
  "outcome_at fetch k gws puts i = fetch (k + i) (gws ! i) (fetch_states fetch k gws puts ! i)"

lemma outcome_at_0 [simp]: "outcome_at fetch k (gw # gws) puts 0 = fetch k gw puts"
  by (simp add: outcome_at_def)

lemma outcome_at_Suc [simp]:
  "outcome_at fetch k (gw # gws) puts (Suc i) = outcome_at fetch (Suc k) gws (fst (fetch k gw puts)) i"
  by (simp add: outcome_at_def)

lemma fetch_loop_spec:
  assumes "fetch_loop fetch gws errs puts = (puts', r)"
  shows "(r = None \<longrightarrow> (\<exists>i < length gws. outcome_at fetch (length errs) gws puts i = (puts', None)
            \<and> (\<forall>j < i. snd (outcome_at fetch (length errs) gws puts j) \<noteq> None)))
     \<and> (\<forall>e. r = Some e \<longrightarrow> (\<exists>es. e = AllFailed (errs @ es) \<and> map fst es = gws
            \<and> (\<forall>j < length gws. snd (outcome_at fetch (length errs) gws puts j) = Some (snd (es ! j)))))"
  using assms
proof (induction fetch gws errs puts rule: fetch_loop.induct)
  case (2 fetch gw gws errs puts)
  obtain p1 r1 where f: "fetch (length errs) gw puts = (p1, r1)" by fastforce
  show ?case
  proof (cases r1)
    case None
    with "2.prems" f have "r = None" "puts' = p1" by simp_all
    with f None show ?thesis by (auto intro!: exI [of _ 0])
  next
    case (Some e)
    with "2.prems" f have "fetch_loop fetch gws (errs @ [(gw, e)]) p1 = (puts', r)" by simp
    note ih = "2.IH" [OF f [symmetric] Some this]
    show ?thesis
    proof (cases r)
      case None
      with ih obtain i where i: "i < length gws" "outcome_at fetch (Suc (length errs)) gws p1 i = (puts', None)"
        "\<forall>j < i. snd (outcome_at fetch (Suc (length errs)) gws p1 j) \<noteq> None" by auto
      have "snd (outcome_at fetch (length errs) (gw # gws) puts j) \<noteq> None" if "j < Suc i" for j
        using that i(3) f Some by (cases j) auto
      with i f None show ?thesis by (auto intro!: exI [of _ "Suc i"])
    next
      case (Some e')
      with ih obtain es where es: "e' = AllFailed ((errs @ [(gw, e)]) @ es)" "map fst es = gws"
        "\<forall>j < length gws. snd (outcome_at fetch (Suc (length errs)) gws p1 j) = Some (snd (es ! j))" by auto
      have "snd (outcome_at fetch (length errs) (gw # gws) puts j) = Some (snd (((gw, e) # es) ! j))"
        if "j < length (gw # gws)" for j
        using that es(3) f \<open>r1 = Some e\<close> by (cases j) auto
      with es(1,2) Some show ?thesis by (auto intro!: exI [of _ "(gw, e) # es"])
    qed
  qed
qed auto

section \<open>Properties\<close>

definition car_url :: "string \<Rightarrow> string \<Rightarrow> string" where
  "car_url gw c = TrimRight (CHR ''/'') gw @ ''/ipfs/'' @ c"

text \<open>A gateway that answers every request with one block, and one whose answers never hold a CAR.\<close>

definition one_block :: "nat car_stream" where
  "one_block = \<lparr>car_blocks = [(100, 7)], end_count = 100, end_eof = True\<rparr>"

text \<open>
  C17: a CAR import is complete or an error. If \<open>fetchCARFromGateway\<close> returns \<open>nil\<close>, the answer
  was a 200 whose stream ended cleanly with at least one block and no byte count over the cap, and
  exactly its blocks, in order, went to the blockstore, in batches of 1 to 256; and with a blockstore
  that works it returns \<open>nil\<close> whenever the answer is of that kind. If it returns an error, what it
  wrote is a prefix of the stream's blocks.
\<close>

theorem car_import_exact:
  assumes "fetchCARFromGateway http put_ok cap gw c puts = (puts', r)"
  shows "(r = None \<longrightarrow> (\<exists>body s. http (car_url gw c) = Response 200 body \<and> body (read_limit cap) = Some s
        \<and> batches_from puts puts' (map snd (car_blocks s)) \<and> car_blocks s \<noteq> [] \<and> end_eof s
        \<and> end_count s \<le> sint cap \<and> (\<forall>(n, b) \<in> set (car_blocks s). n \<le> sint cap)))
   \<and> (\<forall>body s. http (car_url gw c) = Response 200 body \<and> body (read_limit cap) = Some s \<and> (\<forall>k. put_ok k)
        \<and> car_blocks s \<noteq> [] \<and> end_eof s \<and> end_count s \<le> sint cap \<and> (\<forall>(n, b) \<in> set (car_blocks s). n \<le> sint cap)
        \<longrightarrow> r = None)
   \<and> (puts' = puts \<or> (\<exists>body s ys zs. http (car_url gw c) = Response 200 body \<and> body (read_limit cap) = Some s
        \<and> map snd (car_blocks s) = ys @ zs \<and> batches_from puts puts' ys))"
proof (cases "\<exists>body s. http (car_url gw c) = Response 200 body \<and> body (read_limit cap) = Some s")
  case True
  then obtain body s where b: "http (car_url gw c) = Response 200 body" "body (read_limit cap) = Some s" by blast
  with assms have l: "import_loop put_ok (sint cap) (car_blocks s) (end_count s) (end_eof s) [] 0 puts = (puts', r)"
    by (simp add: fetchCARFromGateway_def car_url_def StatusOK_def)
  from import_loop_spec [OF l batches_refl] import_loop_succeeds [of put_ok "end_eof s" "end_count s" "sint cap" "car_blocks s" 0 "[]" puts]
    l b batch_size_pos show ?thesis by auto
next
  case False
  with assms have "puts' = puts" "r \<noteq> None"
    by (auto simp: fetchCARFromGateway_def car_url_def StatusOK_def Let_def split: response.splits option.splits if_splits)
  with False show ?thesis by auto
qed

theorem car_import_exact_witness:
  "\<exists>puts'. fetchCARFromGateway (\<lambda>_. Response 200 (\<lambda>_. Some one_block)) (\<lambda>_. True) defaultMaxPinBytes ''https://gw'' ''bafy'' [] = (puts', None)
     \<and> batches_from [] puts' [7]"
proof -
  let ?http = "\<lambda>_ :: string. Response 200 (\<lambda>_. Some one_block)"
  obtain puts' r where f: "fetchCARFromGateway ?http (\<lambda>_. True) defaultMaxPinBytes ''https://gw'' ''bafy'' [] = (puts', r)" by fastforce
  have "sint defaultMaxPinBytes = 2 ^ 30" by (simp add: defaultMaxPinBytes_def)
  with car_import_exact [OF f] have "r = None" by (simp add: one_block_def)
  with car_import_exact [OF f] f show ?thesis by (auto simp: one_block_def)
qed

text \<open>
  C26: the order of the fallback chain. With known peers, the chain is a part of the configured
  head (PEvO's gateway, then the operator's), then a part of the peers' gateways, then a part of the
  public defaults; no two entries have the same normalised URL, and every normalised URL that any of
  the three offers is there. Without peers it is the configured list as it stands.
\<close>

theorem fallback_chain_exact:
  fixes pevo extras
  defines "n \<equiv> static_chain pevo extras"
  shows "assembleFallbackChain uni n None = fallbackGateways n
     \<and> assembleFallbackChain uni n (Some []) = fallbackGateways n
     \<and> (peers \<noteq> [] \<longrightarrow> (\<exists>a b c. assembleFallbackChain uni n (Some peers) = a @ b @ c
          \<and> subseq a ((if pevo \<noteq> [] then [pevo] else []) @ extras) \<and> subseq b peers \<and> subseq c defaultFallbackGateways
          \<and> distinct (map (normalizeFallbackURL uni) (a @ b @ c))
          \<and> set (map (normalizeFallbackURL uni) (a @ b @ c))
            = set (map (normalizeFallbackURL uni) (fallbackGateways n @ peers)) - {[]}))"
proof -
  let ?head = "(if pevo \<noteq> [] then [pevo] else []) @ extras"
  have n: "fallbackGateways n = ?head @ defaultFallbackGateways" "staticHeadLen n = length ?head"
    by (simp_all only: n_def static_chain_def Let_def chain_conf.simps)
  let ?s0 = "({}, []) :: string set \<times> string list"
  let ?s1 = "fold (chain_add uni) ?head ?s0"
  let ?s2 = "fold (chain_add uni) peers ?s1"
  let ?s3 = "fold (chain_add uni) defaultFallbackGateways ?s2"
  have "chain_ok uni ?s0" by (simp add: chain_ok_def)
  note f1 = chain_fold [OF this, of ?head]
  note f2 = chain_fold [OF f1 [THEN conjunct1], of peers]
  note f3 = chain_fold [OF f2 [THEN conjunct1], of defaultFallbackGateways]
  from f1 [THEN conjunct2, THEN conjunct2] obtain a where a: "snd ?s1 = a" "subseq a ?head" by (elim exE conjE) simp
  from f2 [THEN conjunct2, THEN conjunct2] obtain b where b: "snd ?s2 = snd ?s1 @ b" "subseq b peers" by (elim exE conjE)
  from f3 [THEN conjunct2, THEN conjunct2] obtain c where c: "snd ?s3 = snd ?s2 @ c" "subseq c defaultFallbackGateways"
    by (elim exE conjE)
  have out: "snd ?s3 = a @ b @ c" using a(1) b(1) c(1) by simp
  have ok: "chain_ok uni ?s3" using f3 by (rule conjunct1)
  have "fst ?s3 = keys uni ?head \<union> keys uni peers \<union> keys uni defaultFallbackGateways"
    using f1 f2 f3 by (elim conjE) (simp only: fst_conv Un_empty_left)
  also have "\<dots> = set (map (normalizeFallbackURL uni) (fallbackGateways n @ peers)) - {[]}"
    unfolding n keys_def by auto
  finally have keys: "set (map (normalizeFallbackURL uni) (a @ b @ c))
      = set (map (normalizeFallbackURL uni) (fallbackGateways n @ peers)) - {[]}"
    using ok unfolding chain_ok_def out by (elim conjE) (simp only:)
  have dist: "distinct (map (normalizeFallbackURL uni) (a @ b @ c))"
    using ok unfolding chain_ok_def out by (elim conjE)
  show ?thesis
  proof (intro conjI impI)
    assume "peers \<noteq> []"
    then have "assembleFallbackChain uni n (Some peers) = snd ?s3"
      unfolding assembleFallbackChain_def n by (simp add: Let_def)
    with out a(2) b(2) c(2) keys dist
    show "\<exists>a b c. assembleFallbackChain uni n (Some peers) = a @ b @ c \<and> subseq a ?head \<and> subseq b peers
        \<and> subseq c defaultFallbackGateways \<and> distinct (map (normalizeFallbackURL uni) (a @ b @ c))
        \<and> set (map (normalizeFallbackURL uni) (a @ b @ c))
          = set (map (normalizeFallbackURL uni) (fallbackGateways n @ peers)) - {[]}"
      by (intro exI [of _ a] exI [of _ b] exI [of _ c] conjI) (simp_all only:)
  qed (simp_all add: assembleFallbackChain_def)
qed

theorem fallback_chain_exact_witness:
  "\<exists>a b c. assembleFallbackChain (\<lambda>s. s) (static_chain ''https://a'' []) (Some [''https://b'']) = a @ b @ c
     \<and> subseq a [''https://a''] \<and> subseq b [''https://b''] \<and> subseq c defaultFallbackGateways"
  using fallback_chain_exact [THEN conjunct2, THEN conjunct2, rule_format, of "[''https://b'']" "\<lambda>s. s" "''https://a''" "[]"]
  by auto

text \<open>
  The gateways are tried in the order of the chain until one succeeds. If \<open>fetchViaCAR\<close> returns
  \<open>nil\<close>, some gateway of the chain succeeded and each one before it had failed; if it returns the
  joined error, that names every gateway of the chain, in order.
\<close>

theorem fetch_tries_in_order:
  assumes "fetchViaCAR uni n mesh http put_ok cap c puts = (puts', r)"
  defines "chain \<equiv> assembleFallbackChain uni n mesh"
    and "try \<equiv> outcome_at (\<lambda>k gw. fetchCARFromGateway (http k) put_ok cap gw c) 0 (assembleFallbackChain uni n mesh) puts"
  shows "(r = None \<longrightarrow> (\<exists>i < length chain. try i = (puts', None) \<and> (\<forall>j < i. snd (try j) \<noteq> None)))
   \<and> (\<forall>es. r = Some (AllFailed es) \<longrightarrow> map fst es = chain \<and> (\<forall>j < length chain. snd (try j) = Some (snd (es ! j))))"
proof (cases "chain = []")
  case False
  with assms have "fetch_loop (\<lambda>k gw. fetchCARFromGateway (http k) put_ok cap gw c) chain [] puts = (puts', r)"
    by (simp add: fetchViaCAR_def Let_def)
  from fetch_loop_spec [OF this] show ?thesis by (auto simp: try_def chain_def)
qed (use assms in \<open>auto simp: fetchViaCAR_def\<close>)

theorem fetch_tries_in_order_witness:
  "\<exists>es. snd (fetchViaCAR (\<lambda>s. s) (static_chain [] []) None (\<lambda>k u. RequestError :: nat response) (\<lambda>_. True) defaultMaxPinBytes ''bafy'' [])
     = Some (AllFailed es) \<and> map fst es = defaultFallbackGateways"
proof -
  obtain puts' r where f: "fetchViaCAR (\<lambda>s. s) (static_chain [] []) None (\<lambda>k u. RequestError :: nat response) (\<lambda>_. True)
      defaultMaxPinBytes ''bafy'' [] = (puts', r)" by fastforce
  then obtain es where "r = Some (AllFailed es)"
    by (auto simp: fetchViaCAR_def assembleFallbackChain_def static_chain_def defaultFallbackGateways_def fetchCARFromGateway_def)
  with fetch_tries_in_order [OF f] show ?thesis unfolding f
    by (simp add: assembleFallbackChain_def static_chain_def)
qed

lemma fetch_loop_all_fail:
  assumes "\<And>k gw p. snd (fetch k gw p) \<noteq> None"
  shows "snd (fetch_loop fetch gws errs puts) \<noteq> None"
proof (induction gws arbitrary: errs puts)
  case (Cons gw gws)
  obtain p e where "fetch (length errs) gw puts = (p, Some e)"
    using assms [of "length errs" gw puts] by (cases "fetch (length errs) gw puts") auto
  with Cons.IH show ?case by simp
qed simp

text \<open>What \<open>io.LimitReader\<close> and the CAR reader promise: no more than the limit is read, and an empty
  body has no CAR header.\<close>

definition reader_limited :: "(int \<Rightarrow> 'b car_stream option) \<Rightarrow> bool" where
  "reader_limited body \<longleftrightarrow> (\<forall>l s. body l = Some s \<longrightarrow>
     0 < l \<and> end_count s \<le> l \<and> (\<forall>(n, b) \<in> set (car_blocks s). 0 < n \<and> n \<le> l))"

text \<open>
  The largest cap lets nothing through. With \<open>MAX_PIN_BYTES\<close> set to the largest \<open>int64\<close>,
  which \<open>ParseConfig\<close> accepts, \<open>maxPinBytes + 1\<close> wraps to the smallest, the limited reader is empty
  from the start, and every gateway fails.
\<close>

theorem largest_cap_fetches_nothing:
  assumes "sint maxPinBytes = 2 ^ 63 - 1" "\<forall>k u st body. http k u = Response st body \<longrightarrow> reader_limited body"
  shows "snd (fetchViaCAR uni n mesh http put_ok maxPinBytes c puts) \<noteq> None"
proof -
  have "sint (maxPinBytes + 1) = - (2 ^ 63)"
  proof -
    have "maxPinBytes = word_of_int (sint maxPinBytes)" by simp
    with assms(1) have "maxPinBytes = word_of_int (2 ^ 63 - 1)" by simp
    then show ?thesis by simp
  qed
  then have limit: "read_limit maxPinBytes \<le> 0" by (simp add: read_limit_def)
  have "snd (fetchCARFromGateway (http k) put_ok maxPinBytes gw c p) \<noteq> None" for k gw p
  proof (cases "http k (car_url gw c)")
    case RequestError
    then show ?thesis by (simp add: fetchCARFromGateway_def car_url_def)
  next
    case (Response st body)
    with assms(2) have "reader_limited body" by blast
    then have "0 < l" if "body l = Some s" for l s using that unfolding reader_limited_def by blast
    with limit have "body (read_limit maxPinBytes) = None" by (meson not_le option.exhaust)
    with Response show ?thesis by (simp add: fetchCARFromGateway_def car_url_def)
  qed
  from fetch_loop_all_fail [OF this] show ?thesis by (simp add: fetchViaCAR_def Let_def del: not_None_eq)
qed

theorem largest_cap_fetches_nothing_witness:
  "snd (fetchViaCAR (\<lambda>s. s) (static_chain [] []) None
     (\<lambda>k u. Response 200 (\<lambda>l. if 100 \<le> l then Some one_block else None)) (\<lambda>_. True)
     (word_of_int (2 ^ 63 - 1)) ''bafy'' []) \<noteq> None"
  by (rule largest_cap_fetches_nothing) (simp_all add: reader_limited_def one_block_def)

end
