(* ===== verification/MeshGuard.thy ===== *)
theory MeshGuard
  imports JsonStruct Url
begin

text \<open>
  The guard of \<open>ipfsnode_pubsub.go\<close> on the gateway URLs that unknown peers advertise:
  \<open>validateMeshGatewayURL\<close>, \<open>isUnsafeHost\<close> and \<open>isUnsafeIP\<close>, against a table of address ranges. The
  resolver behind \<open>net.LookupIP\<close> is an argument.
\<close>

section \<open>The guard on gateway URLs\<close>

type_synonym resolver = "string \<Rightarrow> ip list option"

definition isUnsafeIP :: "ip \<Rightarrow> bool" where
  "isUnsafeIP a =
     (if IsLoopback a \<or> IsLinkLocalUnicast a \<or> IsLinkLocalMulticast a
         \<or> IsInterfaceLocalMulticast a \<or> IsMulticast a \<or> IsUnspecified a then True
      else if IsPrivate a then True
      else False)"

text \<open>\<open>strings.EqualFold\<close> where one side is ASCII: the folding is the one of JSON names.\<close>

definition EqualFold :: "string \<Rightarrow> string \<Rightarrow> bool" where
  "EqualFold s t \<longleftrightarrow> fold_name s = fold_name t"

definition isUnsafeHost :: "resolver \<Rightarrow> string \<Rightarrow> bool" where
  "isUnsafeHost LookupIP host =
     (if EqualFold host ''localhost'' then True
      else (case ParseIP host of
        Some a \<Rightarrow> isUnsafeIP a
      | None \<Rightarrow> (case LookupIP host of
          None \<Rightarrow> True
        | Some ips \<Rightarrow> if length ips = 0 then True else list_ex isUnsafeIP ips)))"

datatype gateway_err =
    BadURL
  | SchemeNotAllowed string
  | EmptyHost
  | UserinfoNotAllowed
  | HostNotAllowed string

definition validateMeshGatewayURL :: "(string \<Rightarrow> string) \<Rightarrow> resolver \<Rightarrow> string \<Rightarrow> bool \<Rightarrow> gateway_err + string" where
  "validateMeshGatewayURL uni LookupIP raw allowPrivate =
     (case Parse (TrimSpace raw) of
        None \<Rightarrow> Inl BadURL
      | Some u \<Rightarrow>
          (let scheme = ToLower uni (Scheme u); host = Hostname u in
           if scheme \<noteq> ''http'' \<and> scheme \<noteq> ''https'' then Inl (SchemeNotAllowed (Scheme u))
           else if host = [] then Inl EmptyHost
           else if User u \<noteq> None then Inl UserinfoNotAllowed
           else if \<not> allowPrivate \<and> isUnsafeHost LookupIP host then Inl (HostNotAllowed host)
           else Inr (url_String (u\<lparr>Host := ToLower uni (Host u), Path := TrimRight (CHR ''/'') (Path u),
                  Fragment := [], RawQuery := []\<rparr>))))"

section \<open>Facts: addresses\<close>

text \<open>An address range: the bytes of a prefix and how many of its bits count.\<close>

definition in_cidr :: "ip \<Rightarrow> ip \<times> nat \<Rightarrow> bool" where
  "in_cidr a r = (case r of (p, n) \<Rightarrow> take (n div 8) a = take (n div 8) p
     \<and> (n mod 8 = 0 \<or> a ! (n div 8) div 2 ^ (8 - n mod 8) = p ! (n div 8) div 2 ^ (8 - n mod 8)))"

definition v4_range :: "nat list \<Rightarrow> nat \<Rightarrow> ip \<times> nat" where
  "v4_range f n = (v4_mapped f, 96 + n)"

text \<open>127/8, 10/8, 172.16/12, 192.168/16, 169.254/16, 224/4, 0.0.0.0, ::1, ::, fe80::/10, ff00::/8, fc00::/7.\<close>

definition blocked_ranges :: "(ip \<times> nat) list" where
  "blocked_ranges =
     [v4_range [127, 0, 0, 0] 8, v4_range [10, 0, 0, 0] 8, v4_range [172, 16, 0, 0] 12, v4_range [192, 168, 0, 0] 16,
      v4_range [169, 254, 0, 0] 16, v4_range [224, 0, 0, 0] 4, v4_range [0, 0, 0, 0] 32,
      (replicate 15 0 @ [1], 128), (replicate 16 0, 128), ([0xfe, 0x80] @ replicate 14 0, 10),
      (0xff # replicate 15 0, 8), (0xfc # replicate 15 0, 7)]"

definition to16 :: "ip \<Rightarrow> ip" where
  "to16 a = (if length a = 4 then v4_mapped a else a)"

definition blocked :: "ip \<Rightarrow> bool" where
  "blocked a = list_ex (in_cidr (to16 a)) blocked_ranges"

lemmas ip_classes = IsLoopback_def IsLinkLocalUnicast_def IsLinkLocalMulticast_def IsInterfaceLocalMulticast_def
  IsMulticast_def IsUnspecified_def IsPrivate_def

lemma in_v4_range:
  assumes "n \<le> 32" "length p = 4" "length f = 4"
  shows "in_cidr (v4_mapped f) (v4_range p n) \<longleftrightarrow> in_cidr f (p, n)"
proof -
  have "(96 + n) div 8 = 12 + n div 8" "(96 + n) mod 8 = n mod 8" by presburger+
  moreover define pre :: "nat list" where "pre = replicate 10 0 @ [255, 255]"
  then have "length pre = 12" "v4_mapped f = pre @ f" "v4_mapped p = pre @ p"
    by (simp_all add: v4_mapped_def)
  ultimately show ?thesis by (simp add: in_cidr_def v4_range_def nth_append)
qed

lemma len4: "length a = 4 \<longleftrightarrow> (\<exists>w x y z. a = [w, x, y, z])"
  by (auto simp: length_Suc_conv numeral_eq_Suc)

lemma isUnsafeIP_iff: "isUnsafeIP a \<longleftrightarrow> IsLoopback a \<or> IsLinkLocalUnicast a \<or> IsLinkLocalMulticast a
   \<or> IsInterfaceLocalMulticast a \<or> IsMulticast a \<or> IsUnspecified a \<or> IsPrivate a"
  by (simp add: isUnsafeIP_def)

lemma unsafe_v4:
  assumes "To4 a = Some [w, x, y, z]" "a ! 0 \<noteq> 0xff \<or> length a \<noteq> 16"
  shows "isUnsafeIP a \<longleftrightarrow> w = 127 \<or> w = 10 \<or> (w = 172 \<and> x div 16 = 1) \<or> (w = 192 \<and> x = 168)
    \<or> (w = 169 \<and> x = 254) \<or> w div 16 = 14 \<or> (w = 0 \<and> x = 0 \<and> y = 0 \<and> z = 0)"
proof -
  have "IsLoopback a \<longleftrightarrow> w = 127" "IsLinkLocalUnicast a \<longleftrightarrow> w = 169 \<and> x = 254"
    "IsUnspecified a \<longleftrightarrow> w = 0 \<and> x = 0 \<and> y = 0 \<and> z = 0" "IsMulticast a \<longleftrightarrow> w div 16 = 14"
    "IsPrivate a \<longleftrightarrow> w = 10 \<or> (w = 172 \<and> x div 16 = 1) \<or> (w = 192 \<and> x = 168)"
    "IsLinkLocalMulticast a \<Longrightarrow> IsMulticast a" "\<not> IsInterfaceLocalMulticast a"
    using assms by (auto simp: ip_classes)
  then show ?thesis unfolding isUnsafeIP_iff by blast
qed

lemma v4_cidr:
  "in_cidr [w, x, y, z] ([p0, p1, p2, p3], 8) \<longleftrightarrow> w = p0"
  "in_cidr [w, x, y, z] ([p0, p1, p2, p3], 12) \<longleftrightarrow> w = p0 \<and> x div 16 = p1 div 16"
  "in_cidr [w, x, y, z] ([p0, p1, p2, p3], 16) \<longleftrightarrow> w = p0 \<and> x = p1"
  "in_cidr [w, x, y, z] ([p0, p1, p2, p3], 4) \<longleftrightarrow> w div 16 = p0 div 16"
  "in_cidr [w, x, y, z] ([p0, p1, p2, p3], 32) \<longleftrightarrow> w = p0 \<and> x = p1 \<and> y = p2 \<and> z = p3"
  by (simp_all add: in_cidr_def)

text \<open>The ranges of IPv4 and of native IPv6 addresses.\<close>

definition v4_blocked :: "(ip \<times> nat) list" where
  "v4_blocked = take 7 blocked_ranges"

definition v6_blocked :: "(ip \<times> nat) list" where
  "v6_blocked = drop 7 blocked_ranges"

lemma blocked_split: "list_ex P blocked_ranges \<longleftrightarrow> list_ex P v4_blocked \<or> list_ex P v6_blocked"
  by (simp add: v4_blocked_def v6_blocked_def flip: list_ex_append)

lemma v4_in_blocked:
  "list_ex (in_cidr (v4_mapped [w, x, y, z])) v4_blocked \<longleftrightarrow> w = 127 \<or> w = 10 \<or> (w = 172 \<and> x div 16 = 1)
    \<or> (w = 192 \<and> x = 168) \<or> (w = 169 \<and> x = 254) \<or> w div 16 = 14 \<or> (w = 0 \<and> x = 0 \<and> y = 0 \<and> z = 0)"
  by (simp add: v4_blocked_def blocked_ranges_def in_v4_range v4_cidr)

lemma mapped_facts:
  "v4_mapped f ! 0 = 0" "v4_mapped f ! 10 = 255" "length (v4_mapped f) = 12 + length f"
  "take 12 (v4_mapped f) = replicate 10 0 @ [255, 255]" "drop 12 (v4_mapped f) = f"
  by (simp_all add: v4_mapped_def nth_append)

lemma v4_mapped_not_v6: "length f = 4 \<Longrightarrow> \<not> list_ex (in_cidr (v4_mapped f)) v6_blocked"
proof -
  assume "length f = 4"
  then have l: "length (v4_mapped f) = 16" by (simp add: mapped_facts)
  have "v4_mapped f \<noteq> replicate 15 0 @ [1]" "v4_mapped f \<noteq> replicate 16 0"
    using mapped_facts(2) [of f] by (auto simp: nth_append)
  moreover have "take 1 (v4_mapped f) = [0]" using mapped_facts(1) [of f] l by (simp add: take_Suc_conv_app_nth)
  ultimately show ?thesis using l mapped_facts(1) [of f]
    by (simp add: v6_blocked_def blocked_ranges_def in_cidr_def)
qed

text \<open>A native IPv6 address.\<close>

lemma unsafe_v6:
  assumes "To4 a = None" "length a = 16"
  shows "isUnsafeIP a \<longleftrightarrow> list_ex (in_cidr a) v6_blocked"
proof -
  have t: "take (Suc 0) a = [c] \<longleftrightarrow> a ! 0 = c" for c using assms(2) by (simp add: take_Suc_conv_app_nth)
  have "a ! 1 div 64 = 2 \<longleftrightarrow> a ! 1 div 64 = 128 div 64" by simp
  then show ?thesis using assms
    by (auto simp: isUnsafeIP_iff ip_classes v6_blocked_def blocked_ranges_def in_cidr_def t)
qed

lemma v6_not_v4:
  assumes "To4 a = None" "length a = 16"
  shows "\<not> list_ex (in_cidr a) v4_blocked"
proof -
  have no: "take 12 a \<noteq> replicate 10 0 @ [255, 255]" using assms by (auto simp: To4_def split: if_splits)
  have "\<not> in_cidr a (v4_mapped p, n)" if "96 \<le> n" for p n
  proof
    assume "in_cidr a (v4_mapped p, n)"
    then have "take 12 (take (n div 8) a) = take 12 (take (n div 8) (v4_mapped p))" by (simp add: in_cidr_def)
    moreover have "12 \<le> n div 8" using that by simp
    ultimately show False using no by (simp add: min_absorb1 mapped_facts)
  qed
  then show ?thesis by (simp add: v4_blocked_def blocked_ranges_def v4_range_def)
qed

lemma To4_Some:
  assumes "To4 a = Some f"
  shows "length f = 4 \<and> (a = f \<or> a = v4_mapped f)"
proof (cases "length a = 4")
  case False
  with assms have a: "length a = 16" "take 12 a = replicate 10 0 @ [255, 255]" "f = drop 12 a"
    by (simp_all add: To4_def split: if_splits)
  have "a = take 12 a @ drop 12 a" by simp
  also have "\<dots> = v4_mapped f" unfolding a(2) a(3) v4_mapped_def by simp
  finally show ?thesis using a(1,3) by simp
qed (use assms in \<open>simp add: To4_def\<close>)

lemma isUnsafeIP_blocked:
  assumes "length a = 4 \<or> length a = 16"
  shows "isUnsafeIP a \<longleftrightarrow> blocked a"
proof (cases "To4 a")
  case None
  with assms have "length a = 16" by (auto simp: To4_def)
  with None show ?thesis by (simp add: blocked_def to16_def blocked_split unsafe_v6 v6_not_v4)
next
  case (Some f)
  from To4_Some [OF Some] have f: "length f = 4" "to16 a = v4_mapped f" "a ! 0 \<noteq> 0xff \<or> length a \<noteq> 16"
    by (auto simp: to16_def mapped_facts)
  from f(1) obtain w x y z where w: "f = [w, x, y, z]" unfolding len4 by (elim exE)
  have "isUnsafeIP a \<longleftrightarrow> list_ex (in_cidr (v4_mapped f)) v4_blocked"
    unfolding w v4_in_blocked by (rule unsafe_v4 [OF Some [unfolded w] f(3)])
  then show ?thesis by (simp only: blocked_def f(2) blocked_split v4_mapped_not_v6 [OF f(1)] simp_thms)
qed

section \<open>Facts: URLs\<close>

lemma parse_ipv4_length: "parse_ipv4 s = Some f \<Longrightarrow> length f = 4"
  by (auto simp: parse_ipv4_def Let_def split: if_splits)

lemma v6_round:
  assumes "v6_groups s bs ell = Some (s', bs', ell')"
  shows "bs' = bs \<or> (\<exists>f. bs' = bs @ f \<and> length f = 4 \<and> length bs + 4 \<le> 16)
    \<or> (length bs < 16 \<and> (\<exists>x y. bs' = bs @ [x, y] \<or> (\<exists>t e. v6_groups t (bs @ [x, y]) e = Some (s', bs', ell'))))"
proof (cases "length bs \<ge> 16")
  case True
  with assms show ?thesis by (simp add: v6_groups.simps [of s])
next
  case False
  let ?g = "takeWhile is_hex s" and ?r = "dropWhile is_hex s"
  let ?b = "bs @ [hex_value ?g div 256, hex_value ?g mod 256]"
  show ?thesis
  proof (cases "HasPrefix ?r ''.''")
    case True
    with assms False have "length bs + 4 \<le> 16 \<and> (\<exists>f. parse_ipv4 s = Some f \<and> bs' = bs @ f)"
      by (subst (asm) v6_groups.simps) (auto simp: Let_def split: if_splits)
    then show ?thesis using parse_ipv4_length by blast
  next
    case dot: False
    with assms False have "bs' = ?b \<or> (\<exists>t e. v6_groups t ?b e = Some (s', bs', ell'))"
      by (subst (asm) v6_groups.simps) (simp add: Let_def split: if_splits, blast+)
    with False show ?thesis by (intro disjI2 conjI) (simp, blast)
  qed
qed

lemma v6_groups_length:
  "v6_groups s bs ell = Some (s', bs', ell') \<Longrightarrow> even (length bs) \<Longrightarrow> length bs \<le> 16 \<Longrightarrow> length bs' \<le> 16"
proof (induction "16 - length bs" arbitrary: s bs ell rule: less_induct)
  case less
  have two: "length bs + 2 \<le> 16" if "length bs < 16" using that less.prems(2) by presburger
  from v6_round [OF less.prems(1)] show ?case
  proof (elim disjE exE conjE)
    fix x y t e assume "length bs < 16" "v6_groups t (bs @ [x, y]) e = Some (s', bs', ell')"
    then show ?thesis using less.hyps [of "bs @ [x, y]" t e] less.prems(2) two by simp
  qed (use less.prems two in auto)
qed

lemma v6_expand_length:
  assumes "v6_expand x = Some a" "length (fst (snd x)) \<le> 16"
  shows "length a = 16"
proof -
  obtain s bs ell where "x = (s, bs, ell)" by (cases x)
  with assms show ?thesis by (cases ell) (auto simp: v6_expand_def split: if_splits)
qed

lemma v6_length: "Option.bind (v6_groups s [] e) v6_expand = Some a \<Longrightarrow> length a = 16"
  using v6_expand_length v6_groups_length [of s "[]"]
  by (fastforce simp: bind_eq_Some_conv)

lemma ParseIP_length:
  assumes "ParseIP s = Some a"
  shows "length a = 16"
proof (cases "ParseAddr s")
  case (Some x)
  show ?thesis
  proof (cases x)
    case (Addr4 f)
    with Some have "parse_ipv4 s = Some f" by (auto simp: ParseAddr_def split: list.splits if_splits)
    with assms Some Addr4 show ?thesis using parse_ipv4_length by (auto simp: ParseIP_def v4_mapped_def)
  next
    case (Addr6 b z)
    with Some have p: "parse_ipv6 s = Some (b, z)" by (auto simp: ParseAddr_def split: list.splits if_splits)
    have "length b = 16"
      using p v6_length by (auto simp: parse_ipv6_def split: prod.splits if_splits)
    with assms Some Addr6 show ?thesis by (auto simp: ParseIP_def split: if_splits)
  qed
qed (use assms in \<open>simp add: ParseIP_def\<close>)

text \<open>Nothing that ends the authority of a URL survives the escaping of a host.\<close>

lemma upper_hex_alphanum: "n < 16 \<Longrightarrow> is_alphanum (upper_hex n)"
proof -
  assume "n < 16"
  then have "n \<in> {0..<16}" by simp
  also have "{0..<16} = set [0..<16::nat]" by simp
  finally have "n \<in> set [0..<16]" .
  moreover have "list_all (\<lambda>n. is_alphanum (upper_hex n)) [0..<16]"
    by (simp add: upt_rec upper_hex_def is_alphanum_def is_upper_def is_lower_def is_digit_def in_range_def less_eq_char_def)
  ultimately show ?thesis by (simp add: list_all_iff del: set_upt)
qed

lemma pct_chars: "c \<in> set (pct x) \<Longrightarrow> c = CHR ''%'' \<or> is_alphanum c"
  using upper_hex_alphanum [of "byte_val x div 16"] upper_hex_alphanum [of "byte_val x mod 16"]
  by (auto simp: pct_def byte_val_def of_char_mod_256 less_mult_imp_div_less)

definition ends_authority :: "char \<Rightarrow> bool" where
  "ends_authority c \<longleftrightarrow> c \<in> {CHR ''/'', CHR ''?'', CHR ''#'', CHR ''@''}"

lemma shouldEscape_ends:
  "shouldEscape encodeHost (CHR ''/'')" "shouldEscape encodeHost (CHR ''?'')"
  "shouldEscape encodeHost (CHR ''#'')" "shouldEscape encodeHost (CHR ''@'')"
  by (simp_all add: shouldEscape_def reserved_escaped_def host_mode_def is_alphanum_def
      is_upper_def is_lower_def is_digit_def in_range_def less_eq_char_def)

lemma alphanum_ends:
  "\<not> is_alphanum (CHR ''/'')" "\<not> is_alphanum (CHR ''?'')" "\<not> is_alphanum (CHR ''#'')" "\<not> is_alphanum (CHR ''@'')"
  by (simp_all add: is_alphanum_def is_upper_def is_lower_def is_digit_def in_range_def less_eq_char_def)

lemma ends_escaped: "ends_authority c \<Longrightarrow> shouldEscape encodeHost c \<and> c \<noteq> CHR ''%'' \<and> \<not> is_alphanum c"
  unfolding ends_authority_def
  by (elim insertE emptyE) (simp_all only: shouldEscape_ends alphanum_ends, simp_all)

lemma escaped_host_chars:
  assumes "c \<in> set (escape encodeHost h)"
  shows "\<not> ends_authority c"
proof
  assume e: "ends_authority c"
  from assms obtain x where "x \<in> set h" "c \<in> set (if shouldEscape encodeHost x then pct x else [x])"
    by (auto simp: escape_def)
  with ends_escaped [OF e] show False using pct_chars [of c x] by (cases "shouldEscape encodeHost x") auto
qed

text \<open>\<open>Parse\<close>: a URL with a host has no opaque part, and its scheme is ASCII in lower case.\<close>

lemma scheme_scan_ascii:
  assumes "scheme_scan i raw s = Some (sch, rest)" "list_all is_ascii (take i raw)" "drop i raw = s"
  shows "list_all is_ascii sch"
  using assms
proof (induction i raw s rule: scheme_scan.induct)
  case (2 i raw c s)
  have ascii: "list_all is_ascii (take (Suc i) raw) \<and> drop (Suc i) raw = s" if "is_ascii c"
  proof -
    from "2.prems"(3) have "i < length raw" by (metis drop_all linorder_not_less list.distinct(1))
    moreover from this have "raw ! i = c" "drop (Suc i) raw = s"
      using "2.prems"(3) by (metis Cons_nth_drop_Suc list.inject)+
    ultimately show ?thesis using that "2.prems"(2) by (simp add: take_Suc_conv_app_nth)
  qed
  have letter: "is_ascii c" if "is_lower c \<or> is_upper c \<or> is_digit c \<or> c \<in> set ''+-.''"
    using that by (auto simp: is_ascii_def is_lower_def is_upper_def is_digit_def in_range_def less_eq_char_def)
  show ?case
  proof (cases "is_lower c \<or> is_upper c")
    case True
    with "2.prems"(1) "2.IH"(1) ascii letter show ?thesis by auto
  next
    case nl: False
    show ?thesis
    proof (cases "is_digit c \<or> c \<in> set ''+-.''")
      case True
      with nl "2.prems"(1) "2.IH"(2) ascii letter show ?thesis by (cases "i = 0") auto
    next
      case False
      with nl "2.prems"(1,2) show ?thesis by (auto split: if_splits)
    qed
  qed
qed auto

definition url_ok :: "URL \<Rightarrow> bool" where
  "url_ok u \<longleftrightarrow> (Opaque u \<noteq> [] \<longrightarrow> Host u = []) \<and> list_all is_ascii (Scheme u)
     \<and> map ascii_lower (Scheme u) = Scheme u"

lemma setPath_ok: "setPath p u = Some v \<Longrightarrow> url_ok u \<Longrightarrow> url_ok v"
  by (auto simp: setPath_def url_ok_def split: option.splits)

lemma setFragment_ok: "setFragment p u = Some v \<Longrightarrow> url_ok u \<Longrightarrow> url_ok v"
  by (auto simp: setFragment_def url_ok_def split: option.splits)

lemma ascii_lower_ascii: "is_ascii c \<Longrightarrow> is_ascii (ascii_lower c)"
  by (auto simp: is_ascii_def ascii_lower_def is_upper_def in_range_def less_eq_char_def of_char_of)

lemma url_ok_base:
  assumes "list_all is_ascii s" "map ascii_lower s = s"
  shows "url_ok (empty_url\<lparr>Scheme := s, ForceQuery := f, RawQuery := q, Opaque := r\<rparr>)"
    "url_ok (empty_url\<lparr>Scheme := s, ForceQuery := f, RawQuery := q, User := w, Host := h\<rparr>)"
    "url_ok (empty_url\<lparr>Scheme := s, ForceQuery := f, RawQuery := q, OmitHost := b\<rparr>)"
  using assms by (simp_all add: url_ok_def empty_url_def)

lemma parse_url_ok: "parse_url raw = Some u \<Longrightarrow> url_ok u"
proof -
  assume p: "parse_url raw = Some u"
  show "url_ok u"
  proof (cases "raw = ''*''")
    case True
    with p show ?thesis by (auto simp: parse_url_def url_ok_def empty_url_def split: if_splits)
  next
    case False
    with p obtain sch0 rest0 where s: "getScheme raw = Some (sch0, rest0)"
      by (auto simp: parse_url_def split: if_splits option.splits)
    then have "list_all is_ascii sch0" using scheme_scan_ascii [of 0 raw raw] by (simp add: getScheme_def)
    then have sch: "list_all is_ascii (map ascii_lower sch0)" "map ascii_lower (map ascii_lower sch0) = map ascii_lower sch0"
      by (auto simp: list_all_iff ascii_lower_ascii)
    from p False s show ?thesis
      by (auto simp: parse_url_def Let_def url_ok_base sch split: if_splits prod.splits option.splits dest!: setPath_ok)
  qed
qed

lemma Parse_ok: "Parse raw = Some u \<Longrightarrow> url_ok u"
  by (auto simp: Parse_def split: prod.splits option.splits if_splits dest: parse_url_ok setFragment_ok)

section \<open>Properties\<close>

text \<open>\<open>strings.Map\<close> with \<open>unicode.ToLower\<close> drops no character.\<close>

definition keeps_characters :: "(string \<Rightarrow> string) \<Rightarrow> bool" where
  "keeps_characters uni \<longleftrightarrow> (\<forall>s. s \<noteq> [] \<longrightarrow> uni s \<noteq> [])"

lemma ToLower_not_Nil: "keeps_characters uni \<Longrightarrow> s \<noteq> [] \<Longrightarrow> ToLower uni s \<noteq> []"
  by (simp add: ToLower_def keeps_characters_def)

text \<open>A URL with a host and without user is its scheme, the escaped host, and a rest that begins with
  a slash or a question mark, if it is not empty.\<close>

lemma url_String_shape:
  assumes "Scheme u \<noteq> []" "Opaque u = []" "User u = None" "Host u \<noteq> []" "RawQuery u = []" "Fragment u = []"
  shows "\<exists>rest. url_String u = Scheme u @ ''://'' @ escape encodeHost (Host u) @ rest
    \<and> (rest = [] \<or> hd rest = CHR ''/'' \<or> hd rest = CHR ''?'')"
proof -
  let ?p = "EscapedPath u"
  let ?s = "if ?p \<noteq> [] \<and> hd ?p \<noteq> CHR ''/'' then ''/'' else []"
  let ?q = "if ForceQuery u then ''?'' else []"
  have "url_String u = Scheme u @ ''://'' @ escape encodeHost (Host u) @ (?s @ ?p @ ?q)"
    using assms by (simp add: url_String_def Let_def)
  moreover have "?s @ ?p @ ?q = [] \<or> hd (?s @ ?p @ ?q) = CHR ''/'' \<or> hd (?s @ ?p @ ?q) = CHR ''?''"
    by (cases ?p) auto
  ultimately show ?thesis by blast
qed

lemma authority_of_shape:
  assumes "rest = [] \<or> hd rest = CHR ''/'' \<or> hd rest = CHR ''?''"
  shows "takeWhile (\<lambda>c. \<not> ends_authority c) (escape encodeHost h @ rest) = escape encodeHost h"
proof -
  have "takeWhile (\<lambda>c. \<not> ends_authority c) rest = []"
    using assms by (cases rest) (auto simp: ends_authority_def)
  then show ?thesis using escaped_host_chars [of _ h] by (simp add: takeWhile_append2)
qed

lemma validate_Inr:
  assumes "validateMeshGatewayURL uni L raw allow = Inr url"
  obtains u where "Parse (TrimSpace raw) = Some u" "Scheme u = ''http'' \<or> Scheme u = ''https''" "Hostname u \<noteq> []"
    "User u = None" "allow \<or> \<not> isUnsafeHost L (Hostname u)"
    "url = url_String (u\<lparr>Host := ToLower uni (Host u), Path := TrimRight (CHR ''/'') (Path u), Fragment := [], RawQuery := []\<rparr>)"
proof -
  obtain u where u: "Parse (TrimSpace raw) = Some u"
    using assms by (auto simp: validateMeshGatewayURL_def split: option.splits)
  have "ToLower uni (Scheme u) = Scheme u" using Parse_ok [OF u] by (simp add: url_ok_def ToLower_def)
  with assms u show ?thesis
    by (intro that [OF u]) (auto simp: validateMeshGatewayURL_def Let_def split: if_splits)
qed

lemma safe_host:
  assumes "\<not> isUnsafeHost L host"
  shows "\<not> EqualFold host ''localhost''" "ParseIP host = Some a \<Longrightarrow> \<not> blocked a"
    "ParseIP host = None \<Longrightarrow> \<exists>ips. L host = Some ips \<and> ips \<noteq> [] \<and> \<not> list_ex isUnsafeIP ips"
  using assms by (auto simp: isUnsafeHost_def isUnsafeIP_blocked ParseIP_length split: if_splits option.splits)

text \<open>What \<open>net.LookupIP\<close> returns are addresses of 4 or 16 bytes.\<close>

definition resolves_to_ips :: "resolver \<Rightarrow> bool" where
  "resolves_to_ips L \<longleftrightarrow> (\<forall>h ips. L h = Some ips \<longrightarrow> (\<forall>a \<in> set ips. length a = 4 \<or> length a = 16))"

text \<open>
  C16: what the guard on advertised gateway URLs lets through. If \<open>validateMeshGatewayURL\<close>, without
  the operator's opt-in, returns a URL, then the advertised text parses as an http or https URL
  without user information whose host is not a case variant of \<open>localhost\<close>; a literal address in it
  is in none of the blocked ranges; any other host resolved at that moment, to at least one address,
  and to none in a blocked range. The URL returned has the vetted host, lowered and escaped, as its
  whole authority: up to the next slash, question mark, hash or at sign, nothing else follows \<open>://\<close>.
\<close>

theorem gateway_url_vetted:
  assumes "validateMeshGatewayURL uni L raw False = Inr url" "keeps_characters uni" "resolves_to_ips L"
  shows "\<exists>u. Parse (TrimSpace raw) = Some u \<and> (Scheme u = ''http'' \<or> Scheme u = ''https'') \<and> User u = None
    \<and> \<not> EqualFold (Hostname u) ''localhost''
    \<and> (case ParseIP (Hostname u) of Some a \<Rightarrow> \<not> blocked a
       | None \<Rightarrow> \<exists>ips. L (Hostname u) = Some ips \<and> ips \<noteq> [] \<and> \<not> list_ex blocked ips)
    \<and> take (length (Scheme u) + 3) url = Scheme u @ ''://''
    \<and> takeWhile (\<lambda>c. \<not> ends_authority c) (drop (length (Scheme u) + 3) url) = escape encodeHost (ToLower uni (Host u))"
proof -
  from assms(1) obtain u where u: "Parse (TrimSpace raw) = Some u" "Scheme u = ''http'' \<or> Scheme u = ''https''"
    "Hostname u \<noteq> []" "User u = None" "\<not> isUnsafeHost L (Hostname u)" and
    url: "url = url_String (u\<lparr>Host := ToLower uni (Host u), Path := TrimRight (CHR ''/'') (Path u), Fragment := [], RawQuery := []\<rparr>)"
    by (auto elim: validate_Inr)
  have "Hostname u = []" if "Host u = []"
    using that by (simp add: Hostname_def splitHostPort_def last_index_def HasPrefix_def)
  with u(3) have h: "Host u \<noteq> []" by blast
  with Parse_ok [OF u(1)] have "Opaque u = []" by (auto simp: url_ok_def)
  with h u(2,4) ToLower_not_Nil [OF assms(2)] obtain rest where
    r: "url = Scheme u @ ''://'' @ escape encodeHost (ToLower uni (Host u)) @ rest"
      "rest = [] \<or> hd rest = CHR ''/'' \<or> hd rest = CHR ''?''"
    using url_String_shape [of "u\<lparr>Host := ToLower uni (Host u), Path := TrimRight (CHR ''/'') (Path u), Fragment := [], RawQuery := []\<rparr>"]
    unfolding url by auto
  have "\<exists>ips. L (Hostname u) = Some ips \<and> ips \<noteq> [] \<and> \<not> list_ex blocked ips" if n: "ParseIP (Hostname u) = None"
  proof -
    obtain ips where i: "L (Hostname u) = Some ips" "ips \<noteq> []" "\<not> list_ex isUnsafeIP ips"
      using safe_host(3) [OF u(5) n] by blast
    have "isUnsafeIP a \<longleftrightarrow> blocked a" if "a \<in> set ips" for a
      using assms(3) i(1) that by (intro isUnsafeIP_blocked) (auto simp: resolves_to_ips_def)
    with i show ?thesis by (auto simp: list_ex_iff)
  qed
  with u r authority_of_shape [OF r(2)] safe_host(1,2) [OF u(5)] show ?thesis
    by (intro exI [of _ u]) (auto split: option.splits)
qed

theorem gateway_url_vetted_witness:
  "\<exists>u. Parse ''https://1.1.1.1/x/'' = Some u \<and> \<not> EqualFold (Hostname u) ''localhost''"
proof -
  have "validateMeshGatewayURL (\<lambda>s. s) (\<lambda>_. None) ''https://1.1.1.1/x/'' False = Inr ''https://1.1.1.1/x''"
    by code_simp
  from gateway_url_vetted [OF this] have "\<exists>u. Parse (TrimSpace ''https://1.1.1.1/x/'') = Some u
      \<and> \<not> EqualFold (Hostname u) ''localhost''"
    by (auto simp: keeps_characters_def resolves_to_ips_def)
  moreover have "TrimSpace ''https://1.1.1.1/x/'' = ''https://1.1.1.1/x/''" by code_simp
  ultimately show ?thesis by simp
qed

end
