(* ===== verification/Mesh.thy ===== *)
theory Mesh
  imports MeshGuard
begin

text \<open>
  \<open>ipfsnode_pubsub.go\<close>: heartbeats, the cache of known peers and the guard on the gateway URLs that
  peers advertise. Every access to the cache is under the manager's mutex and only \<open>recvLoop\<close> and
  \<open>evictLoop\<close> write it, so a run of the mesh is a sequence of received messages, eviction ticks and a
  stop. The peer IDs and multiaddresses are type variables; \<open>decode_id\<close> is \<open>peer.Decode\<close>,
  \<open>multiaddr\<close> is \<open>ma.NewMultiaddr\<close>, and the resolver behind \<open>net.LookupIP\<close> is an argument of every
  message, since its answers change. Times and durations are in nanoseconds.
\<close>

section \<open>Constants and data\<close>

definition defaultMeshInterval :: int where
  "defaultMeshInterval = 30 * 10 ^ 9"

definition defaultMeshTTL :: int where
  "defaultMeshTTL = 5 * 60 * 10 ^ 9"

definition meshMaxMultiaddrs :: nat where
  "meshMaxMultiaddrs = 8"

definition meshMaxPeers :: nat where
  "meshMaxPeers = 1024"

definition mesh_topic :: "string \<Rightarrow> string" where
  "mesh_topic appTag = ''/pevo-pinners/'' @ appTag @ ''/heartbeat/1.0.0''"

record heartbeat =
  hb_PeerID :: string
  hb_Multiaddrs :: "string slice"
  hb_GatewayURL :: string
  hb_Sent :: int

record ('p, 'a) meshPeer =
  addrID :: 'p
  addrs :: "'a list"
  gatewayURL :: string
  lastSeen :: int

record MeshOptions =
  o_AppTag :: string
  o_GatewayURL :: string
  o_Interval :: int
  o_CacheTTL :: int
  o_AdvertiseOff :: bool
  o_AllowPrivateGateways :: bool

datatype mesh_loop = RecvLoop | EvictLoop | AdvertiseLoop

text \<open>\<open>mm_dials\<close> are the \<open>Connect\<close> calls started so far.\<close>

record ('p, 'a) meshManager =
  mm_host :: 'p
  mm_topic :: string
  mm_interval :: int
  mm_ttl :: int
  mm_allowPrivate :: bool
  mm_gatewayURL :: string
  mm_loops :: "mesh_loop list"
  mm_stopped :: bool
  mm_peers :: "('p \<times> ('p, 'a) meshPeer) list"
  mm_dials :: "('p \<times> 'a list) list"

section \<open>Heartbeats on the wire\<close>

definition json_heartbeat :: "heartbeat \<Rightarrow> json" where
  "json_heartbeat hb = JObj
     ([(''peer_id'', JStr (hb_PeerID hb)), (''multiaddrs'', json_slice (hb_Multiaddrs hb))]
      @ (if hb_GatewayURL hb = [] then [] else [(''gateway_url'', JStr (hb_GatewayURL hb))])
      @ [(''sent_unix'', JNum (show_int (hb_Sent hb)))])"

text \<open>The data that \<open>publishHeartbeat\<close> hands to the topic.\<close>

definition publishHeartbeat :: "('p, 'a) meshManager \<Rightarrow> ('p \<Rightarrow> string) \<Rightarrow> ('a \<Rightarrow> string) \<Rightarrow> 'a list \<Rightarrow> int \<Rightarrow> bytes" where
  "publishHeartbeat m show_id show_addr host_addrs now_unix =
     compact (json_heartbeat \<lparr>hb_PeerID = show_id (mm_host m), hb_Multiaddrs = Some (map show_addr host_addrs),
        hb_GatewayURL = mm_gatewayURL m, hb_Sent = now_unix\<rparr>)"

text \<open>What wakes the loop that advertises: its context, or its ticker, with the addresses and the time that it then
  sees. \<open>advertiseLoop\<close> returns the data it published and whether it has ended.\<close>

datatype 'a wake = CtxDone | Ticked "'a list" int

fun advertise_on :: "('a list \<Rightarrow> int \<Rightarrow> bytes) \<Rightarrow> 'a wake list \<Rightarrow> bytes list \<times> bool" where
  "advertise_on publish [] = ([], False)"
| "advertise_on publish (CtxDone # ws) = ([], True)"
| "advertise_on publish (Ticked host_addrs now # ws) =
     (case advertise_on publish ws of (sent, ended) \<Rightarrow> (publish host_addrs now # sent, ended))"

definition advertiseLoop :: "('a list \<Rightarrow> int \<Rightarrow> bytes) \<Rightarrow> 'a list \<Rightarrow> int \<Rightarrow> 'a wake list \<Rightarrow> bytes list \<times> bool" where
  "advertiseLoop publish host_addrs0 now0 wakes =
     (case advertise_on publish wakes of (sent, ended) \<Rightarrow> (publish host_addrs0 now0 # sent, ended))"

lemma advertiseLoop_sends:
  "fst (advertiseLoop publish a t wakes) = map (\<lambda>w. case w of Ticked b u \<Rightarrow> publish b u) (Ticked a t # takeWhile (\<lambda>w. w \<noteq> CtxDone) wakes)"
  "snd (advertiseLoop publish a t wakes) \<longleftrightarrow> CtxDone \<in> set wakes"
  by (induction publish wakes rule: advertise_on.induct) (auto simp: advertiseLoop_def split: prod.splits)

definition zero_heartbeat :: heartbeat where
  "zero_heartbeat = \<lparr>hb_PeerID = [], hb_Multiaddrs = None, hb_GatewayURL = [], hb_Sent = 0\<rparr>"

text \<open>\<open>json.Unmarshal(data, &hb)\<close>: the heartbeat under construction with the array behind its slice.\<close>

definition hb_member :: "string \<times> json \<Rightarrow> heartbeat \<times> string list \<Rightarrow> (heartbeat \<times> string list) option" where
  "hb_member kv st = (case kv of (key, v) \<Rightarrow> case st of (hb, bk) \<Rightarrow>
     if names_field key ''peer_id'' then map_option (\<lambda>s. (hb\<lparr>hb_PeerID := s\<rparr>, bk)) (into_string v (hb_PeerID hb))
     else if names_field key ''multiaddrs'' then map_option (\<lambda>(s, b). (hb\<lparr>hb_Multiaddrs := s\<rparr>, b)) (into_slice v bk)
     else if names_field key ''gateway_url'' then map_option (\<lambda>s. (hb\<lparr>hb_GatewayURL := s\<rparr>, bk)) (into_string v (hb_GatewayURL hb))
     else if names_field key ''sent_unix'' then map_option (\<lambda>i. (hb\<lparr>hb_Sent := i\<rparr>, bk)) (into_int v (hb_Sent hb))
     else Some (hb, bk))"

fun decode_heartbeat :: "json \<Rightarrow> heartbeat option" where
  "decode_heartbeat (JObj ms) = map_option fst (fold_members hb_member ms (zero_heartbeat, []))"
| "decode_heartbeat JNull = Some zero_heartbeat"
| "decode_heartbeat _ = None"

definition unmarshal_heartbeat :: "bytes \<Rightarrow> heartbeat option" where
  "unmarshal_heartbeat d = Option.bind (parse_json d) decode_heartbeat"

section \<open>The cache of known peers\<close>

datatype mesh_err = AppTagRequired | PubsubFailed string | JoinFailed string | SubscribeFailed string

text \<open>\<open>startMesh\<close>; the three errors of the pubsub library are arguments.\<close>

definition startMesh :: "'p \<Rightarrow> MeshOptions \<Rightarrow> string option \<Rightarrow> string option \<Rightarrow> string option
    \<Rightarrow> mesh_err + ('p, 'a) meshManager" where
  "startMesh h opts pubsub_err join_err subscribe_err =
     (if o_AppTag opts = [] then Inl AppTagRequired
      else (let interval = (if o_Interval opts = 0 then defaultMeshInterval else o_Interval opts);
                ttl = (if o_CacheTTL opts = 0 then defaultMeshTTL else o_CacheTTL opts)
            in case pubsub_err of Some e \<Rightarrow> Inl (PubsubFailed e)
             | None \<Rightarrow> (case join_err of Some e \<Rightarrow> Inl (JoinFailed e)
             | None \<Rightarrow> (case subscribe_err of Some e \<Rightarrow> Inl (SubscribeFailed e)
             | None \<Rightarrow> Inr \<lparr>mm_host = h, mm_topic = mesh_topic (o_AppTag opts), mm_interval = interval, mm_ttl = ttl,
                 mm_allowPrivate = o_AllowPrivateGateways opts, mm_gatewayURL = o_GatewayURL opts,
                 mm_loops = [RecvLoop, EvictLoop] @ (if o_AdvertiseOff opts then [] else [AdvertiseLoop]),
                 mm_stopped = False, mm_peers = [], mm_dials = []\<rparr>))))"

text \<open>\<open>Stop\<close>: when it returns, every loop has ended.\<close>

definition mesh_Stop :: "('p, 'a) meshManager \<Rightarrow> ('p, 'a) meshManager" where
  "mesh_Stop m = (if mm_stopped m then m else m\<lparr>mm_stopped := True, mm_loops := []\<rparr>)"

definition KnownPeers :: "('p, 'a) meshManager \<Rightarrow> ('p, 'a) meshPeer list" where
  "KnownPeers m = map snd (mm_peers m)"

definition advertised_gateway :: "(string \<Rightarrow> string) \<Rightarrow> resolver \<Rightarrow> bool \<Rightarrow> heartbeat \<Rightarrow> string" where
  "advertised_gateway uni LookupIP allowPrivate hb =
     (if hb_GatewayURL hb \<noteq> [] then
        (case validateMeshGatewayURL uni LookupIP (hb_GatewayURL hb) allowPrivate of
           Inl _ \<Rightarrow> [] | Inr normalized \<Rightarrow> normalized)
      else [])"

definition applyHeartbeat :: "(string \<Rightarrow> string) \<Rightarrow> (string \<Rightarrow> 'p option) \<Rightarrow> (string \<Rightarrow> 'a option) \<Rightarrow> resolver \<Rightarrow> int
    \<Rightarrow> 'p \<Rightarrow> heartbeat \<Rightarrow> ('p, 'a) meshManager \<Rightarrow> ('p, 'a) meshManager" where
  "applyHeartbeat uni decode_id multiaddr LookupIP now sender hb m =
     (if sender = mm_host m then m
      else if hb_PeerID hb \<noteq> [] \<and> decode_id (hb_PeerID hb) \<noteq> Some sender then m
      else (let listed = (if length (elems (hb_Multiaddrs hb)) > meshMaxMultiaddrs
                          then take meshMaxMultiaddrs (elems (hb_Multiaddrs hb)) else elems (hb_Multiaddrs hb));
                as = List.map_filter multiaddr listed;
                gw = advertised_gateway uni LookupIP (mm_allowPrivate m) hb;
                mp = \<lparr>addrID = sender, addrs = as, gatewayURL = gw, lastSeen = now\<rparr>;
                known = (map_of (mm_peers m) sender \<noteq> None)
            in if \<not> known \<and> length (mm_peers m) \<ge> meshMaxPeers then m
               else m\<lparr>mm_peers := AList.update sender mp (mm_peers m),
                      mm_dials := mm_dials m @ (if \<not> known \<and> length as > 0 then [(sender, as)] else [])\<rparr>))"

text \<open>One round of \<open>recvLoop\<close>.\<close>

definition recv_message :: "(string \<Rightarrow> string) \<Rightarrow> (string \<Rightarrow> 'p option) \<Rightarrow> (string \<Rightarrow> 'a option) \<Rightarrow> resolver \<Rightarrow> int
    \<Rightarrow> 'p \<Rightarrow> bytes \<Rightarrow> ('p, 'a) meshManager \<Rightarrow> ('p, 'a) meshManager" where
  "recv_message uni decode_id multiaddr LookupIP now sender data m =
     (if sender = mm_host m then m
      else (case unmarshal_heartbeat data of
         None \<Rightarrow> m
       | Some hb \<Rightarrow> applyHeartbeat uni decode_id multiaddr LookupIP now sender hb m))"

definition evict_tick :: "int \<Rightarrow> int" where
  "evict_tick interval = (if interval div 2 \<le> 0 then 15 * 10 ^ 9 else interval div 2)"

definition evictExpired :: "int \<Rightarrow> ('p, 'a) meshManager \<Rightarrow> ('p, 'a) meshManager" where
  "evictExpired now m =
     (let cutoff = now - mm_ttl m in m\<lparr>mm_peers := filter (\<lambda>(pid, p). \<not> lastSeen p < cutoff) (mm_peers m)\<rparr>)"

text \<open>What can happen to a mesh. A message needs the receiving loop, a tick the evicting one.\<close>

datatype 'p mesh_event =
    Message resolver int 'p bytes
  | Tick int
  | StopCalled

fun mesh_step :: "(string \<Rightarrow> string) \<Rightarrow> (string \<Rightarrow> 'p option) \<Rightarrow> (string \<Rightarrow> 'a option) \<Rightarrow> 'p mesh_event
    \<Rightarrow> ('p, 'a) meshManager \<Rightarrow> ('p, 'a) meshManager" where
  "mesh_step uni decode_id multiaddr (Message LookupIP now sender data) m =
     (if RecvLoop \<in> set (mm_loops m) then recv_message uni decode_id multiaddr LookupIP now sender data m else m)"
| "mesh_step uni decode_id multiaddr (Tick now) m =
     (if EvictLoop \<in> set (mm_loops m) then evictExpired now m else m)"
| "mesh_step uni decode_id multiaddr StopCalled m = mesh_Stop m"

definition mesh_run :: "(string \<Rightarrow> string) \<Rightarrow> (string \<Rightarrow> 'p option) \<Rightarrow> (string \<Rightarrow> 'a option) \<Rightarrow> 'p mesh_event list
    \<Rightarrow> ('p, 'a) meshManager \<Rightarrow> ('p, 'a) meshManager" where
  "mesh_run uni decode_id multiaddr evs m = fold (mesh_step uni decode_id multiaddr) evs m"

section \<open>Facts: the cache\<close>

lemma length_AList_update: "length (AList.update k v al) = (if map_of al k = None then Suc (length al) else length al)"
  by (induction al) auto

lemma set_AList_update: "set (AList.update k v al) \<subseteq> insert (k, v) (set al)"
  by (induction al) auto

definition entry_ok :: "'p \<Rightarrow> ('p, 'a) meshPeer \<Rightarrow> bool" where
  "entry_ok p e \<longleftrightarrow> addrID e = p \<and> length (addrs e) \<le> meshMaxMultiaddrs"

definition mesh_ok :: "('p, 'a) meshManager \<Rightarrow> bool" where
  "mesh_ok m \<longleftrightarrow> distinct (map fst (mm_peers m)) \<and> length (mm_peers m) \<le> meshMaxPeers
     \<and> mm_host m \<notin> fst ` set (mm_peers m) \<and> (\<forall>(p, e) \<in> set (mm_peers m). entry_ok p e)"

lemma startMesh_ok: "startMesh h opts e1 e2 e3 = Inr m \<Longrightarrow> mesh_ok m"
  by (auto simp: startMesh_def mesh_ok_def Let_def split: if_splits option.splits)

lemma length_map_filter: "length (List.map_filter f xs) \<le> length xs"
  by (simp add: List.map_filter_def)

definition clip :: "string list \<Rightarrow> string list" where
  "clip xs = (if length xs > meshMaxMultiaddrs then take meshMaxMultiaddrs xs else xs)"

lemma clip_length: "length (clip xs) \<le> meshMaxMultiaddrs"
  by (simp add: clip_def)

text \<open>The entry a heartbeat asks for.\<close>

definition entry_of :: "(string \<Rightarrow> string) \<Rightarrow> (string \<Rightarrow> 'a option) \<Rightarrow> resolver \<Rightarrow> bool \<Rightarrow> int \<Rightarrow> 'p \<Rightarrow> heartbeat \<Rightarrow> ('p, 'a) meshPeer" where
  "entry_of uni multiaddr L allow now sender hb =
     \<lparr>addrID = sender, addrs = List.map_filter multiaddr (clip (elems (hb_Multiaddrs hb))),
      gatewayURL = advertised_gateway uni L allow hb, lastSeen = now\<rparr>"

lemma entry_of_ok: "entry_ok sender (entry_of uni multiaddr L allow now sender hb)"
  using order_trans [OF length_map_filter clip_length] by (simp add: entry_ok_def entry_of_def)

definition refused :: "(string \<Rightarrow> 'p option) \<Rightarrow> 'p \<Rightarrow> heartbeat \<Rightarrow> ('p, 'a) meshManager \<Rightarrow> bool" where
  "refused decode_id sender hb m \<longleftrightarrow> sender = mm_host m \<or> (hb_PeerID hb \<noteq> [] \<and> decode_id (hb_PeerID hb) \<noteq> Some sender)
     \<or> (map_of (mm_peers m) sender = None \<and> meshMaxPeers \<le> length (mm_peers m))"

lemma applyHeartbeat_eq:
  "applyHeartbeat uni decode_id multiaddr L now sender hb m =
    (if refused decode_id sender hb m then m
     else (let e = entry_of uni multiaddr L (mm_allowPrivate m) now sender hb in
       m\<lparr>mm_peers := AList.update sender e (mm_peers m),
         mm_dials := mm_dials m @ (if map_of (mm_peers m) sender = None \<and> addrs e \<noteq> [] then [(sender, addrs e)] else [])\<rparr>))"
  unfolding applyHeartbeat_def Let_def refused_def entry_of_def clip_def
  by (cases "length (elems (hb_Multiaddrs hb)) > meshMaxMultiaddrs") simp_all

lemma update_ok:
  assumes "mesh_ok m" "entry_ok p e" "p \<noteq> mm_host m" "map_of (mm_peers m) p \<noteq> None \<or> length (mm_peers m) < meshMaxPeers"
  shows "mesh_ok (m\<lparr>mm_peers := AList.update p e (mm_peers m), mm_dials := ds\<rparr>)"
  using assms set_AList_update [of p e "mm_peers m"]
  by (auto simp: mesh_ok_def distinct_update length_AList_update dom_update split: if_splits)

lemma applyHeartbeat_ok:
  assumes "mesh_ok m"
  shows "mesh_ok (applyHeartbeat uni decode_id multiaddr L now sender hb m)"
proof (cases "refused decode_id sender hb m")
  case False
  with assms show ?thesis
    unfolding applyHeartbeat_eq Let_def if_not_P [OF False]
    by (intro update_ok entry_of_ok) (auto simp: refused_def)
qed (use assms in \<open>simp add: applyHeartbeat_eq\<close>)

lemma evictExpired_ok: "mesh_ok m \<Longrightarrow> mesh_ok (evictExpired now m)"
  by (auto simp: mesh_ok_def evictExpired_def Let_def distinct_map_filter intro: le_trans [OF length_filter_le])

lemma mesh_step_ok: "mesh_ok m \<Longrightarrow> mesh_ok (mesh_step uni decode_id multiaddr ev m)"
proof (cases ev)
  case (Message L now sender data)
  assume "mesh_ok m"
  with Message show ?thesis by (simp add: recv_message_def applyHeartbeat_ok split: option.split)
next
  case StopCalled
  assume "mesh_ok m"
  with StopCalled show ?thesis by (simp add: mesh_Stop_def mesh_ok_def)
qed (simp add: evictExpired_ok)

interpretation mesh: state_invariant "\<lambda>m ev m'. m' = mesh_step uni decode_id multiaddr ev m" mesh_ok
  for uni :: "string \<Rightarrow> string" and decode_id :: "string \<Rightarrow> 'p option" and multiaddr :: "string \<Rightarrow> 'a option"
  by unfold_locales (simp add: mesh_step_ok)

lemma run_of_mesh_run: "run (\<lambda>m ev m'. m' = mesh_step uni decode_id multiaddr ev m) m evs (mesh_run uni decode_id multiaddr evs m)"
  by (induction evs arbitrary: m) (simp_all add: mesh_run_def run_Nil_iff run_Cons_iff)

lemma mesh_step_host [simp]: "mm_host (mesh_step uni decode_id multiaddr ev m) = mm_host m"
  by (cases ev) (auto simp: recv_message_def applyHeartbeat_eq evictExpired_def mesh_Stop_def Let_def split: option.split)

lemma mesh_run_host: "mm_host (mesh_run uni decode_id multiaddr evs m) = mm_host m"
  by (induction evs arbitrary: m) (simp_all add: mesh_run_def)

section \<open>Properties\<close>

text \<open>
  C19: the cache of known peers stays bounded and clean, whatever is received. In every state of
  a mesh, each peer is known once, at most 1024 peers are known, the node itself is not among them,
  and each entry has the ID it is filed under and at most 8 addresses.
\<close>

theorem mesh_cache_bounded:
  assumes "startMesh h opts e1 e2 e3 = Inr m"
  shows "distinct (map addrID (KnownPeers (mesh_run uni decode_id multiaddr evs m)))
    \<and> length (KnownPeers (mesh_run uni decode_id multiaddr evs m)) \<le> 1024
    \<and> h \<notin> addrID ` set (KnownPeers (mesh_run uni decode_id multiaddr evs m))
    \<and> (\<forall>e \<in> set (KnownPeers (mesh_run uni decode_id multiaddr evs m)). length (addrs e) \<le> 8)"
proof -
  let ?r = "mesh_run uni decode_id multiaddr evs m"
  have "mesh_ok ?r" using mesh.run_inv [OF run_of_mesh_run startMesh_ok [OF assms]] .
  moreover have "mm_host ?r = h"
    using assms by (simp add: mesh_run_host) (auto simp: startMesh_def Let_def split: if_splits option.splits)
  moreover from calculation(1) have "map addrID (KnownPeers ?r) = map fst (mm_peers ?r)"
    by (auto simp: mesh_ok_def entry_ok_def KnownPeers_def)
  moreover from calculation(1) have "\<forall>e \<in> set (KnownPeers ?r). length (addrs e) \<le> 8"
    by (auto simp: mesh_ok_def entry_ok_def KnownPeers_def meshMaxMultiaddrs_def)
  moreover have "length (KnownPeers ?r) = length (mm_peers ?r)" by (simp add: KnownPeers_def)
  ultimately show ?thesis by (simp add: mesh_ok_def meshMaxPeers_def flip: set_map)
qed

definition demo_opts :: MeshOptions where
  "demo_opts = \<lparr>o_AppTag = ''pevo'', o_GatewayURL = [], o_Interval = 0, o_CacheTTL = 0, o_AdvertiseOff = False,
     o_AllowPrivateGateways = False\<rparr>"

definition demo_mesh :: "(string, string) meshManager" where
  "demo_mesh = projr (startMesh ''me'' demo_opts None None None)"

lemma start_demo: "startMesh ''me'' demo_opts None None None = Inr demo_mesh"
  by (simp add: demo_mesh_def startMesh_def demo_opts_def)

theorem mesh_cache_bounded_witness:
  "length (KnownPeers (mesh_run (\<lambda>s. s) Some Some [Message (\<lambda>_. None) 5 ''you'' [CHR 0x7B, CHR 0x7D], Tick 7] demo_mesh)) \<le> 1024"
  using mesh_cache_bounded [OF start_demo] by blast

text \<open>Where an entry comes from.\<close>

definition comes_from :: "(string \<Rightarrow> string) \<Rightarrow> (string \<Rightarrow> 'p option) \<Rightarrow> bool \<Rightarrow> 'p mesh_event list \<Rightarrow> ('p, 'a) meshPeer \<Rightarrow> bool" where
  "comes_from uni decode_id allow evs e \<longleftrightarrow> (\<exists>L data hb. Message L (lastSeen e) (addrID e) data \<in> set evs
     \<and> unmarshal_heartbeat data = Some hb \<and> (hb_PeerID hb = [] \<or> decode_id (hb_PeerID hb) = Some (addrID e))
     \<and> (gatewayURL e = [] \<or> validateMeshGatewayURL uni L (hb_GatewayURL hb) allow = Inr (gatewayURL e)))"

lemma comes_from_mono: "comes_from uni decode_id allow evs e \<Longrightarrow> comes_from uni decode_id allow (evs @ [ev]) e"
  by (auto simp: comes_from_def)

lemma entry_comes_from:
  assumes "unmarshal_heartbeat data = Some hb" "\<not> refused decode_id sender hb m"
  shows "comes_from uni decode_id allow (evs @ [Message L now sender data]) (entry_of uni multiaddr L allow now sender hb)"
  using assms by (auto simp: comes_from_def entry_of_def refused_def advertised_gateway_def split: sum.splits)

lemma mesh_step_allow [simp]: "mm_allowPrivate (mesh_step uni decode_id multiaddr ev m) = mm_allowPrivate m"
  by (cases ev) (auto simp: recv_message_def applyHeartbeat_eq evictExpired_def mesh_Stop_def Let_def split: option.split)

lemma mesh_run_snoc: "mesh_run uni decode_id multiaddr (evs @ [ev]) m = mesh_step uni decode_id multiaddr ev (mesh_run uni decode_id multiaddr evs m)"
  by (simp add: mesh_run_def)

lemma mesh_run_allow: "mm_allowPrivate (mesh_run uni decode_id multiaddr evs m) = mm_allowPrivate m"
  by (induction evs arbitrary: m) (simp_all add: mesh_run_def)

text \<open>A step keeps an entry, drops it, or takes it from the message.\<close>

lemma mesh_step_peers:
  assumes "(p, e) \<in> set (mm_peers (mesh_step uni decode_id multiaddr ev m))"
  shows "(p, e) \<in> set (mm_peers m) \<or> (\<exists>L now data hb. ev = Message L now p data \<and> unmarshal_heartbeat data = Some hb
     \<and> \<not> refused decode_id p hb m \<and> e = entry_of uni multiaddr L (mm_allowPrivate m) now p hb)"
proof (cases ev)
  case (Message L now sender data)
  show ?thesis
  proof (cases "RecvLoop \<in> set (mm_loops m) \<and> sender \<noteq> mm_host m \<and> unmarshal_heartbeat data \<noteq> None")
    case True
    then obtain hb where hb: "unmarshal_heartbeat data = Some hb" by blast
    with assms Message True have in_up: "(p, e) \<in> set (mm_peers (applyHeartbeat uni decode_id multiaddr L now sender hb m))"
      by (simp add: recv_message_def)
    show ?thesis
    proof (cases "refused decode_id sender hb m")
      case False
      with in_up have "(p, e) \<in> set (AList.update sender (entry_of uni multiaddr L (mm_allowPrivate m) now sender hb) (mm_peers m))"
        by (simp add: applyHeartbeat_eq Let_def)
      with set_AList_update Message hb False show ?thesis by fastforce
    qed (use in_up in \<open>simp add: applyHeartbeat_eq\<close>)
  next
    case False
    with assms Message show ?thesis by (auto simp: recv_message_def split: if_splits)
  qed
next
  case (Tick now)
  with assms show ?thesis by (auto simp: evictExpired_def Let_def split: if_splits)
next
  case StopCalled
  with assms show ?thesis by (auto simp: mesh_Stop_def split: if_splits)
qed

lemma peers_come_from:
  "mm_peers m = [] \<Longrightarrow> (p, e) \<in> set (mm_peers (mesh_run uni decode_id multiaddr evs m))
   \<Longrightarrow> comes_from uni decode_id (mm_allowPrivate m) evs e"
proof (induction evs arbitrary: p e rule: rev_induct)
  case (snoc ev evs)
  from snoc.prems(2) have "(p, e) \<in> set (mm_peers (mesh_step uni decode_id multiaddr ev (mesh_run uni decode_id multiaddr evs m)))"
    by (simp add: mesh_run_snoc)
  from mesh_step_peers [OF this] show ?case
    using snoc.IH [OF snoc.prems(1)] comes_from_mono entry_comes_from by (fastforce simp: mesh_run_allow)
qed (simp add: mesh_run_def)

text \<open>
  C18: where a known peer comes from. Every entry of the cache was put there by a message that the
  peer itself signed, at the time the entry gives, whose payload claimed no other ID; and its gateway
  URL, if it has one, is what the guard returned for the URL in that message, with the resolver of
  that moment and the operator's setting.
\<close>

theorem known_peers_authentic:
  assumes "startMesh h opts e1 e2 e3 = Inr m" "e \<in> set (KnownPeers (mesh_run uni decode_id multiaddr evs m))"
  shows "\<exists>L data hb. Message L (lastSeen e) (addrID e) data \<in> set evs \<and> unmarshal_heartbeat data = Some hb
     \<and> (hb_PeerID hb = [] \<or> decode_id (hb_PeerID hb) = Some (addrID e))
     \<and> (gatewayURL e = [] \<or> validateMeshGatewayURL uni L (hb_GatewayURL hb) (o_AllowPrivateGateways opts) = Inr (gatewayURL e))"
proof -
  have "mm_peers m = []" "mm_allowPrivate m = o_AllowPrivateGateways opts"
    using assms(1) by (auto simp: startMesh_def Let_def split: if_splits option.splits)
  with assms(2) peers_come_from [of m _ e uni decode_id multiaddr evs] show ?thesis
    by (auto simp: KnownPeers_def comes_from_def)
qed

definition demo_beat :: bytes where
  "demo_beat = compact (json_heartbeat \<lparr>hb_PeerID = ''you'', hb_Multiaddrs = Some [''/ip4/1.1.1.1''],
     hb_GatewayURL = ''https://1.1.1.1/'', hb_Sent = 7\<rparr>)"

definition demo_peer :: "(string, string) meshPeer" where
  "demo_peer = \<lparr>addrID = ''you'', addrs = [''/ip4/1.1.1.1''], gatewayURL = ''https://1.1.1.1'', lastSeen = 5\<rparr>"

lemma demo_known:
  "KnownPeers (mesh_run (\<lambda>s. s) Some Some [Message (\<lambda>_. None) 5 ''you'' demo_beat] demo_mesh) = [demo_peer]"
  by code_simp

theorem known_peers_authentic_witness:
  "\<exists>L hb. Message L 5 ''you'' demo_beat \<in> set [Message (\<lambda>_. None) 5 ''you'' demo_beat] \<and> unmarshal_heartbeat demo_beat = Some hb
     \<and> validateMeshGatewayURL (\<lambda>s. s) L (hb_GatewayURL hb) False = Inr ''https://1.1.1.1''"
proof -
  have "demo_peer \<in> set (KnownPeers (mesh_run (\<lambda>s. s) Some Some [Message (\<lambda>_. None) 5 ''you'' demo_beat] demo_mesh))"
    by (simp add: demo_known)
  from known_peers_authentic [OF start_demo this] show ?thesis by (auto simp: demo_opts_def demo_peer_def)
qed

lemma mesh_step_ttl [simp]: "mm_ttl (mesh_step uni decode_id multiaddr ev m) = mm_ttl m"
  by (cases ev) (auto simp: recv_message_def applyHeartbeat_eq evictExpired_def mesh_Stop_def Let_def split: option.split)

lemma map_of_evictExpired:
  assumes "distinct (map fst (mm_peers m))"
  shows "map_of (mm_peers (evictExpired now m)) p =
    (case map_of (mm_peers m) p of None \<Rightarrow> None | Some e \<Rightarrow> if lastSeen e < now - mm_ttl m then None else Some e)"
proof -
  have "map_of (filter (\<lambda>(q, e). \<not> lastSeen e < c) al) p =
      (case map_of al p of None \<Rightarrow> None | Some e \<Rightarrow> if lastSeen e < c then None else Some e)"
    if "distinct (map fst al)" for c and al :: "('a \<times> ('a, 'b) meshPeer) list"
    using that by (induction al) (auto simp: map_of_eq_None_iff image_iff split: option.splits)
  from this [OF assms] show ?thesis by (simp add: evictExpired_def Let_def)
qed

text \<open>A message changes the entry of its sender at most.\<close>

lemma message_others:
  "p \<noteq> sender \<Longrightarrow> map_of (mm_peers (mesh_step uni decode_id multiaddr (Message L now sender data) m)) p = map_of (mm_peers m) p"
  by (auto simp: recv_message_def applyHeartbeat_eq Let_def update_conv' split: option.split)

lemma message_own:
  assumes "map_of (mm_peers m) sender = Some e"
  shows "\<exists>e'. map_of (mm_peers (mesh_step uni decode_id multiaddr (Message L now sender data) m)) sender = Some e'
    \<and> (e' = e \<or> lastSeen e' = now)"
  using assms by (auto simp: recv_message_def applyHeartbeat_eq Let_def update_conv' entry_of_def split: option.split)

text \<open>Which events a peer heard at time \<open>t\<close> survives: ticks no later than its TTL, messages no earlier.\<close>

fun gentle :: "int \<Rightarrow> int \<Rightarrow> 'p \<Rightarrow> 'p mesh_event \<Rightarrow> bool" where
  "gentle t ttl p (Message L now sender data) = (sender = p \<longrightarrow> t \<le> now)"
| "gentle t ttl p (Tick now) = (now - ttl \<le> t)"
| "gentle t ttl p StopCalled = True"

lemma gentle_step:
  assumes "mesh_ok m" "map_of (mm_peers m) p = Some e" "t \<le> lastSeen e" "gentle t (mm_ttl m) p ev"
  shows "\<exists>e'. map_of (mm_peers (mesh_step uni decode_id multiaddr ev m)) p = Some e' \<and> t \<le> lastSeen e'"
proof (cases ev)
  case (Message L now sender data)
  show ?thesis
  proof (cases "sender = p")
    case True
    with Message assms message_own [OF assms(2), of uni decode_id multiaddr L now data] show ?thesis by auto
  next
    case False
    with Message assms message_others [of p sender uni decode_id multiaddr L now data m] show ?thesis by auto
  qed
next
  case (Tick now)
  with assms show ?thesis by (auto simp: map_of_evictExpired mesh_ok_def)
next
  case StopCalled
  with assms show ?thesis by (simp add: mesh_Stop_def)
qed

lemma gentle_run:
  assumes "mesh_ok m" "map_of (mm_peers m) p = Some e" "t \<le> lastSeen e" "\<forall>ev \<in> set evs. gentle t (mm_ttl m) p ev"
  shows "\<exists>e'. map_of (mm_peers (mesh_run uni decode_id multiaddr evs m)) p = Some e' \<and> t \<le> lastSeen e'"
  using assms
proof (induction evs arbitrary: m e)
  case (Cons ev evs)
  let ?m = "mesh_step uni decode_id multiaddr ev m"
  have "gentle t (mm_ttl m) p ev" "\<forall>ev \<in> set evs. gentle t (mm_ttl ?m) p ev" using Cons.prems(4) by simp_all
  with gentle_step [OF Cons.prems(1,2,3)] obtain e1 where
    e1: "map_of (mm_peers ?m) p = Some e1" "t \<le> lastSeen e1" "\<forall>ev \<in> set evs. gentle t (mm_ttl ?m) p ev" by blast
  have "mesh_run uni decode_id multiaddr (ev # evs) m = mesh_run uni decode_id multiaddr evs ?m" by (simp add: mesh_run_def)
  with Cons.IH [OF mesh_step_ok [OF Cons.prems(1)] e1] show ?case by simp
qed (simp add: mesh_run_def)

text \<open>
  C36: eviction is by age and by nothing else. In every state of a mesh, a tick of the eviction
  loop removes exactly the peers not heard for longer than the TTL; a message changes at most the
  entry of the peer that signed it; and a peer heard at time \<open>t\<close> is still known after any further
  events among which no tick is later than \<open>t\<close> plus the TTL.
\<close>

theorem eviction_by_age:
  assumes "startMesh h opts e1 e2 e3 = Inr m0" "m = mesh_run uni decode_id multiaddr evs m0"
  shows "(EvictLoop \<in> set (mm_loops m) \<longrightarrow> map_of (mm_peers (mesh_step uni decode_id multiaddr (Tick now) m)) p =
      (case map_of (mm_peers m) p of None \<Rightarrow> None | Some e \<Rightarrow> if lastSeen e < now - mm_ttl m then None else Some e))
    \<and> (p \<noteq> sender \<longrightarrow> map_of (mm_peers (mesh_step uni decode_id multiaddr (Message L now sender data) m)) p = map_of (mm_peers m) p)
    \<and> (\<forall>e evs'. map_of (mm_peers m) p = Some e \<and> (\<forall>ev \<in> set evs'. gentle (lastSeen e) (mm_ttl m) p ev)
        \<longrightarrow> map_of (mm_peers (mesh_run uni decode_id multiaddr evs' m)) p \<noteq> None)"
proof -
  have ok: "mesh_ok m" unfolding assms(2) by (rule mesh.run_inv [OF run_of_mesh_run startMesh_ok [OF assms(1)]])
  then have "map_of (mm_peers (evictExpired now m)) p =
      (case map_of (mm_peers m) p of None \<Rightarrow> None | Some e \<Rightarrow> if lastSeen e < now - mm_ttl m then None else Some e)"
    by (simp add: map_of_evictExpired mesh_ok_def)
  moreover have "map_of (mm_peers (mesh_run uni decode_id multiaddr evs' m)) p \<noteq> None"
    if "map_of (mm_peers m) p = Some e" "\<forall>ev \<in> set evs'. gentle (lastSeen e) (mm_ttl m) p ev" for e evs'
    using gentle_run [OF ok that(1) order_refl that(2), of uni decode_id multiaddr] by auto
  moreover note message_others [of p sender uni decode_id multiaddr L now data m]
  ultimately show ?thesis by (simp del: mesh_step.simps(1))
qed

theorem eviction_by_age_witness:
  "map_of (mm_peers (mesh_step (\<lambda>s. s) Some Some (Tick 400000000000)
     (mesh_run (\<lambda>s. s) Some Some [Message (\<lambda>_. None) 5 ''you'' [CHR 0x7B, CHR 0x7D]] demo_mesh))) ''you'' = None"
proof -
  let ?m = "mesh_run (\<lambda>s. s) Some Some [Message (\<lambda>_. None) 5 ''you'' [CHR 0x7B, CHR 0x7D]] demo_mesh"
  have "EvictLoop \<in> set (mm_loops ?m) \<and> mm_ttl ?m = 300000000000
    \<and> map_of (mm_peers ?m) ''you'' = Some \<lparr>addrID = ''you'', addrs = [], gatewayURL = [], lastSeen = 5\<rparr>" by code_simp
  with eviction_by_age [OF start_demo refl, of "\<lambda>s. s" Some Some _ 400000000000 "''you''"] show ?thesis by simp
qed

section \<open>Heartbeats arrive as they were sent\<close>

definition heartbeat_utf8 :: "heartbeat \<Rightarrow> bool" where
  "heartbeat_utf8 hb \<longleftrightarrow> valid_utf8 (hb_PeerID hb) \<and> list_all valid_utf8 (elems (hb_Multiaddrs hb))
     \<and> valid_utf8 (hb_GatewayURL hb) \<and> in_int64 (hb_Sent hb)"

lemma hb_field_names [simp]:
  "fold_name ''peer_id'' = ''peer_id''" "fold_name ''multiaddrs'' = ''multiaddrs''"
  "fold_name ''gateway_url'' = ''gateway_url''" "fold_name ''sent_unix'' = ''sent_unix''"
  by (simp_all add: fold_name.simps HasPrefix_def ascii_lower_def is_upper_def in_range_def less_eq_char_def)

lemma hb_member_keys:
  "hb_member (''peer_id'', v) (hb, bk) = map_option (\<lambda>s. (hb\<lparr>hb_PeerID := s\<rparr>, bk)) (into_string v (hb_PeerID hb))"
  "hb_member (''multiaddrs'', v) (hb, bk) = map_option (\<lambda>(s, b). (hb\<lparr>hb_Multiaddrs := s\<rparr>, b)) (into_slice v bk)"
  "hb_member (''gateway_url'', v) (hb, bk) = map_option (\<lambda>s. (hb\<lparr>hb_GatewayURL := s\<rparr>, bk)) (into_string v (hb_GatewayURL hb))"
  "hb_member (''sent_unix'', v) (hb, bk) = map_option (\<lambda>i. (hb\<lparr>hb_Sent := i\<rparr>, bk)) (into_int v (hb_Sent hb))"
  by (simp_all add: hb_member_def names_field_def)

lemma decode_json_heartbeat: "in_int64 (hb_Sent hb) \<Longrightarrow> decode_heartbeat (json_heartbeat hb) = Some hb"
proof -
  assume i: "in_int64 (hb_Sent hb)"
  obtain b where "into_slice (json_slice (hb_Multiaddrs hb)) [] = Some (hb_Multiaddrs hb, b)"
    using into_slice_json by blast
  with i show ?thesis by (simp add: json_heartbeat_def hb_member_keys zero_heartbeat_def ParseInt_show_int)
qed

lemma unmarshal_marshal_heartbeat:
  assumes "heartbeat_utf8 hb"
  shows "unmarshal_heartbeat (compact (json_heartbeat hb)) = Some hb"
proof -
  have "valid_utf8 ''peer_id''" "valid_utf8 ''multiaddrs''" "valid_utf8 ''gateway_url''" "valid_utf8 ''sent_unix''"
    by (auto intro!: ascii_valid_utf8 simp: byte_def)
  with assms have "writable max_depth (json_heartbeat hb)"
    by (simp add: json_heartbeat_def heartbeat_utf8_def max_depth_def writable_slice)
  with assms show ?thesis
    by (simp add: unmarshal_heartbeat_def parse_json_compact decode_json_heartbeat heartbeat_utf8_def)
qed

text \<open>
  A published heartbeat arrives. What a node publishes (its ID, at most 8 addresses, its
  gateway), received by another node whose cache has room, files the publisher under its own ID with
  exactly those addresses, the gateway as the receiver's guard returns it, and the time of receipt;
  the first time, the receiver dials it.
\<close>

theorem publish_is_received:
  fixes uni :: "string \<Rightarrow> string" and L :: resolver and now :: int
  assumes "decode_id (show_id (mm_host a)) = Some (mm_host a)" "\<forall>x \<in> set host_addrs. multiaddr (show_addr x) = Some x"
    and "heartbeat_utf8 \<lparr>hb_PeerID = show_id (mm_host a), hb_Multiaddrs = Some (map show_addr host_addrs),
           hb_GatewayURL = mm_gatewayURL a, hb_Sent = now_unix\<rparr>"
    and "length host_addrs \<le> 8" "mm_host a \<noteq> mm_host b" "length (mm_peers b) < 1024" "RecvLoop \<in> set (mm_loops b)"
  defines "b' \<equiv> mesh_step uni decode_id multiaddr
      (Message L now (mm_host a) (publishHeartbeat a show_id show_addr host_addrs now_unix)) b"
  shows "map_of (mm_peers b') (mm_host a) = Some \<lparr>addrID = mm_host a, addrs = host_addrs,
      gatewayURL = (if mm_gatewayURL a = [] then [] else
        case validateMeshGatewayURL uni L (mm_gatewayURL a) (mm_allowPrivate b) of Inl _ \<Rightarrow> [] | Inr url \<Rightarrow> url),
      lastSeen = now\<rparr>
    \<and> (map_of (mm_peers b) (mm_host a) = None \<and> host_addrs \<noteq> [] \<longrightarrow> mm_dials b' = mm_dials b @ [(mm_host a, host_addrs)])"
proof -
  let ?hb = "\<lparr>hb_PeerID = show_id (mm_host a), hb_Multiaddrs = Some (map show_addr host_addrs),
           hb_GatewayURL = mm_gatewayURL a, hb_Sent = now_unix\<rparr>"
  have addrs: "List.map_filter multiaddr (clip (map show_addr host_addrs)) = host_addrs"
  proof -
    have "List.map_filter multiaddr (map show_addr host_addrs) = host_addrs"
      using assms(2) by (induction host_addrs) (auto simp: List.map_filter_simps)
    with assms(4) show ?thesis by (simp add: clip_def meshMaxMultiaddrs_def)
  qed
  have "unmarshal_heartbeat (publishHeartbeat a show_id show_addr host_addrs now_unix) = Some ?hb"
    unfolding publishHeartbeat_def by (rule unmarshal_marshal_heartbeat [OF assms(3)])
  then have "b' = applyHeartbeat uni decode_id multiaddr L now (mm_host a) ?hb b"
    using assms(5,7) by (simp add: b'_def recv_message_def)
  moreover have "\<not> refused decode_id (mm_host a) ?hb b"
    using assms(1,5,6) by (simp add: refused_def meshMaxPeers_def)
  ultimately show ?thesis
    by (simp add: applyHeartbeat_eq Let_def update_conv' entry_of_def elems_def addrs advertised_gateway_def)
qed

theorem publish_is_received_witness:
  "map_of (mm_peers (mesh_step (\<lambda>s. s) Some Some
     (Message (\<lambda>_. None) 5 ''me'' (publishHeartbeat demo_mesh (\<lambda>s. s) (\<lambda>s. s) [''/ip4/1.1.1.1''] 7)) (demo_mesh\<lparr>mm_host := ''you''\<rparr>))) ''me''
   = Some \<lparr>addrID = ''me'', addrs = [''/ip4/1.1.1.1''], gatewayURL = [], lastSeen = 5\<rparr>"
proof -
  have d: "mm_host demo_mesh = ''me''" "mm_gatewayURL demo_mesh = []" "mm_peers demo_mesh = []" "RecvLoop \<in> set (mm_loops demo_mesh)"
    by (simp_all add: demo_mesh_def startMesh_def demo_opts_def)
  have "heartbeat_utf8 \<lparr>hb_PeerID = ''me'', hb_Multiaddrs = Some [''/ip4/1.1.1.1''], hb_GatewayURL = [], hb_Sent = 7\<rparr>"
    by code_simp
  then show ?thesis
    using publish_is_received [of Some "\<lambda>s. s" demo_mesh "[''/ip4/1.1.1.1'']" Some "\<lambda>s. s" 7 "demo_mesh\<lparr>mm_host := ''you''\<rparr>" "\<lambda>s. s" "\<lambda>_. None" 5]
    by (simp add: d)
qed

section \<open>What the guard does not see\<close>

definition rebind_beat :: bytes where
  "rebind_beat = compact (json_heartbeat \<lparr>hb_PeerID = [], hb_Multiaddrs = None,
     hb_GatewayURL = ''http://rebind.example'', hb_Sent = 0\<rparr>)"

text \<open>
  The guard resolves a host once. A peer whose host name resolves to a public address when its
  heartbeat arrives is known with that gateway URL; when the name resolves to the loopback address
  afterwards, which \<open>isUnsafeHost\<close> would refuse, and failing names are refused too, the URL stays in
  the list that the fetch chain takes.
\<close>

theorem rebinding_survives:
  "map gatewayURL (KnownPeers (mesh_run (\<lambda>s. s) Some Some [Message (\<lambda>_. Some [[93, 184, 216, 34]]) 5 ''you'' rebind_beat] demo_mesh))
     = [''http://rebind.example'']
   \<and> isUnsafeHost (\<lambda>_. Some [[127, 0, 0, 1]]) ''rebind.example'' \<and> isUnsafeHost (\<lambda>_. None) ''rebind.example''"
  by code_simp

text \<open>A bare question mark survives the normalisation, so such a gateway is one more key for the
  removal of duplicates, and every path appended to it becomes a query.\<close>

lemma question_mark_stays:
  "validateMeshGatewayURL (\<lambda>s. s) (\<lambda>_. None) ''https://1.1.1.1/?'' False = Inr ''https://1.1.1.1?''"
  by code_simp

end
