(* ===== verification/Pinata.thy ===== *)
theory Pinata
  imports Backend JsonStruct Url
begin

text \<open>
  \<open>pinata.go\<close>: the backend over Pinata's REST API. The service is a parameter that answers a request
  with a status and a body, or with a transport error; \<open>'srv\<close> is its state. The backend itself has no
  state, so the operations return the service's next state and the requests they sent.
\<close>

section \<open>Requests\<close>

definition pinataBaseURL :: string where
  "pinataBaseURL = ''https://api.pinata.cloud''"

record PinataBackend =
  apiKey :: string
  secretKey :: string

definition NewPinataBackend :: "string \<Rightarrow> string \<Rightarrow> PinataBackend" where
  "NewPinataBackend key secret = \<lparr>apiKey = key, secretKey = secret\<rparr>"

record http_request =
  rq_method :: string
  rq_url :: string
  rq_header :: "(string \<times> string) list"
  rq_body :: "bytes option"

type_synonym 'srv service = "'srv \<Rightarrow> http_request \<Rightarrow> 'srv \<times> (int \<times> bytes) option"

datatype pinata_err =
    BadCID cid_err
  | RequestFailed
  | StatusErr int bytes
  | DecodeFailed

text \<open>\<open>None\<close> is an error of \<open>NewRequestWithContext\<close>, which parses the URL, or of the transport.\<close>

definition doRequest :: "PinataBackend \<Rightarrow> 'srv service \<Rightarrow> string \<Rightarrow> string \<Rightarrow> bytes option \<Rightarrow> 'srv
    \<Rightarrow> 'srv \<times> http_request list \<times> (int \<times> bytes) option" where
  "doRequest p send meth url body s =
     (if Parse url = None then (s, [], None)
      else (let req = \<lparr>rq_method = meth, rq_url = url,
              rq_header = [(''pinata_api_key'', apiKey p), (''pinata_secret_api_key'', secretKey p)]
                @ (if body \<noteq> None then [(''Content-Type'', ''application/json'')] else []),
              rq_body = body\<rparr>
            in (fst (send s req), [req], snd (send s req))))"

section \<open>Pin, Unpin, IsPinned\<close>

definition pinata_Pin :: "PinataBackend \<Rightarrow> 'srv service \<Rightarrow> string \<Rightarrow> 'srv \<Rightarrow> 'srv \<times> http_request list \<times> pinata_err option" where
  "pinata_Pin p send c s = (case ValidateCID c of
     Some e \<Rightarrow> (s, [], Some (BadCID e))
   | None \<Rightarrow>
      (case doRequest p send ''POST'' (pinataBaseURL @ ''/pinning/pinByHash'') (Some (compact (JObj [(''hashToPin'', JStr c)]))) s of
         (s', rqs, None) \<Rightarrow> (s', rqs, Some RequestFailed)
       | (s', rqs, Some (status, body)) \<Rightarrow>
           if status \<noteq> 200 then (s', rqs, Some (StatusErr status body)) else (s', rqs, None)))"

definition pinata_Unpin :: "PinataBackend \<Rightarrow> 'srv service \<Rightarrow> string \<Rightarrow> 'srv \<Rightarrow> 'srv \<times> http_request list \<times> pinata_err option" where
  "pinata_Unpin p send c s = (case ValidateCID c of
     Some e \<Rightarrow> (s, [], Some (BadCID e))
   | None \<Rightarrow>
      (case doRequest p send ''DELETE'' (pinataBaseURL @ ''/pinning/unpin/'' @ PathEscape c) None s of
         (s', rqs, None) \<Rightarrow> (s', rqs, Some RequestFailed)
       | (s', rqs, Some (status, body)) \<Rightarrow>
           if status \<noteq> 200 then (s', rqs, Some (StatusErr status body)) else (s', rqs, None)))"

text \<open>\<open>json.NewDecoder(body).Decode\<close>: the first value; what follows it is not read.\<close>

definition decode_first :: "bytes \<Rightarrow> json option" where
  "decode_first d = map_option fst (parse_value max_depth d)"

definition count_member :: "string \<times> json \<Rightarrow> int \<Rightarrow> int option" where
  "count_member kv n = (case kv of (key, v) \<Rightarrow> if names_field key ''count'' then into_int v n else Some n)"

fun decode_count :: "json \<Rightarrow> int option" where
  "decode_count (JObj ms) = fold_members count_member ms 0"
| "decode_count JNull = Some 0"
| "decode_count _ = None"

definition pinata_IsPinned :: "PinataBackend \<Rightarrow> 'srv service \<Rightarrow> string \<Rightarrow> 'srv
    \<Rightarrow> 'srv \<times> http_request list \<times> (pinata_err + bool)" where
  "pinata_IsPinned p send c s = (case ValidateCID c of
     Some e \<Rightarrow> (s, [], Inl (BadCID e))
   | None \<Rightarrow>
      (case doRequest p send ''GET'' (pinataBaseURL @ ''/data/pinList?status=pinned&hashContains='' @ QueryEscape c) None s of
         (s', rqs, None) \<Rightarrow> (s', rqs, Inl RequestFailed)
       | (s', rqs, Some (status, body)) \<Rightarrow>
           if status \<noteq> 200 then (s', rqs, Inl (StatusErr status []))
           else (case Option.bind (decode_first body) decode_count of
              None \<Rightarrow> (s', rqs, Inl DecodeFailed)
            | Some count \<Rightarrow> (s', rqs, Inr (count > 0)))))"

section \<open>The list of pins\<close>

text \<open>A row is its \<open>ipfs_pin_hash\<close>. A key that occurs twice is decoded over what was there.\<close>

definition row_member :: "string \<times> json \<Rightarrow> string \<Rightarrow> string option" where
  "row_member kv h = (case kv of (key, v) \<Rightarrow> if names_field key ''ipfs_pin_hash'' then into_string v h else Some h)"

fun into_row :: "json \<Rightarrow> string \<Rightarrow> string option" where
  "into_row (JObj ms) old = fold_members row_member ms old"
| "into_row JNull old = Some old"
| "into_row _ old = None"

fun over_rows :: "json list \<Rightarrow> string list \<Rightarrow> string list option" where
  "over_rows [] bk = Some []"
| "over_rows (v # vs) bk =
     (case into_row v (case bk of [] \<Rightarrow> [] | b # _ \<Rightarrow> b) of
        None \<Rightarrow> None
      | Some s \<Rightarrow> map_option (\<lambda>ss. s # ss) (over_rows vs (tl bk)))"

text \<open>The rows with the array behind them.\<close>

fun into_rows :: "json \<Rightarrow> string list \<Rightarrow> (string list \<times> string list) option" where
  "into_rows JNull bk = Some ([], [])"
| "into_rows (JArr vs) bk =
     (if vs = [] then Some ([], [])
      else map_option (\<lambda>ss. (ss, ss @ drop (length ss) bk)) (over_rows vs bk))"
| "into_rows _ bk = None"

definition list_member :: "string \<times> json \<Rightarrow> int \<times> string list \<times> string list \<Rightarrow> (int \<times> string list \<times> string list) option" where
  "list_member kv st = (case kv of (key, v) \<Rightarrow> case st of (n, rows, bk) \<Rightarrow>
     if names_field key ''count'' then map_option (\<lambda>n. (n, rows, bk)) (into_int v n)
     else if names_field key ''rows'' then map_option (\<lambda>(rows, bk). (n, rows, bk)) (into_rows v bk)
     else Some (n, rows, bk))"

fun decode_list :: "json \<Rightarrow> string list option" where
  "decode_list (JObj ms) = map_option (\<lambda>(n, rows, bk). rows) (fold_members list_member ms (0, [], []))"
| "decode_list JNull = Some []"
| "decode_list _ = None"

definition pageSize :: nat where
  "pageSize = 1000"

definition page_url :: "int \<Rightarrow> string" where
  "page_url offset = pinataBaseURL @ ''/data/pinList?status=pinned&pageLimit='' @ show_int (int pageSize)
     @ ''&pageOffset='' @ show_int offset"

text \<open>The loop of \<open>PinnedCIDs\<close>; it ends only if some page is not full. The offset is an unbounded
  integer here; Go's wraps only after more than nine quadrillion full pages.\<close>

partial_function (option) pages :: "PinataBackend \<Rightarrow> 'srv service \<Rightarrow> string list \<Rightarrow> int \<Rightarrow> 'srv
    \<Rightarrow> ('srv \<times> http_request list \<times> (pinata_err + string list)) option" where
  "pages p send allCIDs offset s =
     (case doRequest p send ''GET'' (page_url offset) None s of
        (s', rqs, None) \<Rightarrow> Some (s', rqs, Inl RequestFailed)
      | (s', rqs, Some (status, body)) \<Rightarrow>
         (case Option.bind (decode_first body) decode_list of
            None \<Rightarrow> Some (s', rqs, Inl DecodeFailed)
          | Some rows \<Rightarrow>
             if length rows < pageSize then Some (s', rqs, Inr (allCIDs @ rows))
             else Option.bind (pages p send (allCIDs @ rows) (offset + int pageSize) s')
                    (\<lambda>(s'', rqs', r). Some (s'', rqs @ rqs', r))))"

definition pinata_PinnedCIDs :: "PinataBackend \<Rightarrow> 'srv service \<Rightarrow> 'srv
    \<Rightarrow> ('srv \<times> http_request list \<times> (pinata_err + string list)) option" where
  "pinata_PinnedCIDs p send s = pages p send [] 0 s"

definition pinata_Drain :: "PinataBackend \<Rightarrow> pinata_err option" where
  "pinata_Drain p = None"

definition pinata_Close :: "PinataBackend \<Rightarrow> pinata_err option" where
  "pinata_Close p = None"

section \<open>The backend interface\<close>

text \<open>One call seen from outside: the environment is the backend's keys and the service.\<close>

definition call_Pin :: "PinataBackend \<times> 'srv service \<Rightarrow> 'srv \<Rightarrow> string \<Rightarrow> 'srv \<times> pinata_err option" where
  "call_Pin env s c = (case pinata_Pin (fst env) (snd env) c s of (s', _, r) \<Rightarrow> (s', r))"

definition call_Unpin :: "PinataBackend \<times> 'srv service \<Rightarrow> 'srv \<Rightarrow> string \<Rightarrow> 'srv \<times> pinata_err option" where
  "call_Unpin env s c = (case pinata_Unpin (fst env) (snd env) c s of (s', _, r) \<Rightarrow> (s', r))"

definition call_IsPinned :: "PinataBackend \<times> 'srv service \<Rightarrow> 'srv \<Rightarrow> string \<Rightarrow> pinata_err + bool" where
  "call_IsPinned env s c = snd (snd (pinata_IsPinned (fst env) (snd env) c s))"

interpretation pinata: ipfs_backend call_Pin call_Unpin call_IsPinned
proof unfold_locales
  fix env :: "PinataBackend \<times> 'a service" and s c
  assume "\<not> cidRegex c"
  then have v: "ValidateCID c = Some (InvalidCID c)" by (simp add: ValidateCID_def)
  show "\<exists>e. call_Pin env s c = (s, Some e)" by (simp add: call_Pin_def pinata_Pin_def v)
  show "\<exists>e. call_Unpin env s c = (s, Some e)" by (simp add: call_Unpin_def pinata_Unpin_def v)
  show "\<exists>e. call_IsPinned env s c = Inl e" by (simp add: call_IsPinned_def pinata_IsPinned_def v)
qed

section \<open>Facts: the URLs of the API\<close>

lemma unescape_plain: "\<forall>c \<in> set s. c \<noteq> CHR ''%'' \<Longrightarrow> unescape encodePath s = Some s"
  by (induction s) (simp_all add: host_mode_def)

definition api_char :: "char \<Rightarrow> bool" where
  "api_char c \<longleftrightarrow> \<not> is_ctl c \<and> c \<notin> {CHR ''#'', CHR ''?'', CHR ''%''}"

lemma alnum_api_char: "is_alnum c \<Longrightarrow> api_char c"
  by (auto simp: api_char_def is_alnum_def is_upper_def is_lower_def is_digit_def in_range_def less_eq_char_def
      is_ctl_def byte_val_def)

lemma api_authority: "parseAuthority ''api.pinata.cloud'' = Some (None, ''api.pinata.cloud'')"
  by code_simp

lemma parse_url_api:
  assumes "\<forall>c \<in> set path. api_char c" "\<forall>c \<in> set q. \<not> is_ctl c" "q = [] \<or> hd q = CHR ''?''" "path \<noteq> []" "hd path = CHR ''/''"
  shows "parse_url (''https://api.pinata.cloud'' @ path @ q) \<noteq> None"
proof -
  let ?raw = "''https://api.pinata.cloud'' @ path @ q" and ?b = "''//api.pinata.cloud'' @ path"
  have ctl: "\<not> list_ex is_ctl ?raw"
    using assms(1,2) by (auto simp: list_ex_iff api_char_def is_ctl_def byte_val_def)
  have sch: "getScheme ?raw = Some (''https'', ?b @ q)"
    by (simp add: getScheme_def is_lower_def is_upper_def is_digit_def in_range_def less_eq_char_def)
  have nq: "CHR ''?'' \<notin> set ?b" using assms(1) by (auto simp: api_char_def)
  have force: "butlast (?b @ q) = ?b" if "last (?b @ q) = CHR ''?''" "count_list (?b @ q) (CHR ''?'') = 1"
  proof (cases q)
    case Nil
    with that(1) have "CHR ''?'' \<in> set ?b" using last_in_set [of ?b] by (simp del: append_Cons append_Nil)
    with nq show ?thesis by blast
  next
    case (Cons x t)
    with assms(3) have x: "x = CHR ''?''" by simp
    with that(2) Cons nq have "CHR ''?'' \<notin> set t" by (simp add: count_list_0_iff)
    moreover have "t \<noteq> [] \<Longrightarrow> last t = CHR ''?''" using that(1) Cons by simp
    ultimately have "t = []" using last_in_set by metis
    with Cons show ?thesis by (simp add: butlast_append)
  qed
  have cut: "fst (Cut (?b @ q) ''?'') = ?b"
  proof (cases q)
    case Nil
    with nq show ?thesis by (simp add: Cut_single)
  next
    case (Cons x t)
    with assms(3) have q: "q = CHR ''?'' # t" by simp
    have "takeWhile (\<lambda>x. x \<noteq> CHR ''?'') (?b @ q) = ?b @ takeWhile (\<lambda>x. x \<noteq> CHR ''?'') q"
      by (rule takeWhile_append2) (use nq in auto)
    moreover have "CHR ''?'' \<in> set (?b @ q)" by (simp add: q)
    ultimately show ?thesis by (simp add: Cut_single q del: append_Cons)
  qed
  obtain t where p: "path = CHR ''/'' # t" using assms(4,5) by (cases path) auto
  have "unescape encodePath path = Some path" by (rule unescape_plain) (use assms(1) in \<open>auto simp: api_char_def\<close>)
  then have sp: "setPath path u \<noteq> None" for u by (simp add: setPath_def)
  have auth: "takeWhile (\<lambda>c. c \<noteq> CHR ''/'') (drop 2 ?b) = ''api.pinata.cloud''"
    "dropWhile (\<lambda>c. c \<noteq> CHR ''/'') (drop 2 ?b) = path" by (simp_all add: p)
  have pre: "HasPrefix ?b ''/''" "HasPrefix ?b ''//''" by (simp_all add: HasPrefix_def)
  have raw: "?raw \<noteq> ''*''" by simp
  define raw b where "raw = ?raw" and "b = ?b"
  note fold = raw_def [symmetric] b_def [symmetric]
  let ?f = "b @ q \<noteq> [] \<and> last (b @ q) = CHR ''?'' \<and> count_list (b @ q) (CHR ''?'') = 1"
  obtain query where rq: "(if ?f then (butlast (b @ q), []) else (case Cut (b @ q) ''?'' of (x, y, _) \<Rightarrow> (x, y))) = (b, query)"
    using force cut unfolding fold by (cases "Cut (b @ q) ''?''"; cases ?f) auto
  have ne: "b \<noteq> []" by (simp add: b_def)
  from ctl sch pre auth raw show ?thesis unfolding fold parse_url_def Let_def
    by (simp only: if_False option.case prod.case rq) (simp add: api_authority sp)
qed

lemma Parse_api:
  assumes "\<forall>c \<in> set path. api_char c" "\<forall>c \<in> set q. \<not> is_ctl c \<and> c \<noteq> CHR ''#''" "q = [] \<or> hd q = CHR ''?''"
    "path \<noteq> []" "hd path = CHR ''/''"
  shows "Parse (pinataBaseURL @ path @ q) \<noteq> None"
proof -
  have "CHR ''#'' \<notin> set (''https://api.pinata.cloud'' @ path @ q)" using assms(1,2) by (auto simp: api_char_def)
  then have "Cut (''https://api.pinata.cloud'' @ path @ q) ''#'' = (''https://api.pinata.cloud'' @ path @ q, [], False)"
    by (simp only: Cut_single if_False)
  moreover have "parse_url (''https://api.pinata.cloud'' @ path @ q) \<noteq> None"
    by (rule parse_url_api) (use assms in auto)
  ultimately show ?thesis unfolding Parse_def pinataBaseURL_def by (simp only: prod.case) (auto split: option.splits)
qed

lemma not_alnum: "\<not> is_alnum (CHR '' '')" "\<not> is_alnum (CHR 0x22)" "\<not> is_alnum (CHR 0x5C)"
  "\<not> is_alnum (CHR ''<'')" "\<not> is_alnum (CHR ''>'')" "\<not> is_alnum (CHR ''&'')"
  by (simp_all add: is_alnum_def is_upper_def is_lower_def is_digit_def in_range_def less_eq_char_def)

lemma alnum_byte: "is_alnum c \<Longrightarrow> 48 \<le> byte c \<and> byte c < 128"
  by (auto simp: is_alnum_def is_upper_def is_lower_def is_digit_def in_range_def less_eq_char_def byte_def)

lemma alnum_alphanum: "is_alnum c \<Longrightarrow> is_alphanum c"
  by (auto simp: is_alnum_def is_alphanum_def)

lemma alnum_escape:
  assumes "\<forall>c \<in> set s. is_alnum c"
  shows "escape mode s = s"
proof -
  have "(if c = CHR '' '' \<and> mode = encodeQueryComponent then ''+''
     else if shouldEscape mode c then pct c else [c]) = [c]" if "is_alnum c" for c
    using alnum_alphanum [OF that] not_alnum(1) that by (auto simp: shouldEscape_def)
  with assms have "map (\<lambda>c. if c = CHR '' '' \<and> mode = encodeQueryComponent then ''+''
     else if shouldEscape mode c then pct c else [c]) s = map (\<lambda>c. [c]) s" by (simp only: map_eq_conv) blast
  then show ?thesis by (simp only: escape_def) simp
qed

lemma alnum_enc_ascii:
  assumes "is_alnum c"
  shows "enc_ascii c = [c]"
proof -
  have "c \<noteq> CHR 0x08" "c \<noteq> CHR 0x0C" "c \<noteq> CHR 0x0A" "c \<noteq> CHR 0x0D" "c \<noteq> CHR 0x09" "\<not> byte c < 32"
    using alnum_byte [OF assms] by (auto simp: byte_def)
  moreover have "c \<noteq> CHR 0x22" "c \<noteq> CHR 0x5C" "c \<noteq> CHR ''<''" "c \<noteq> CHR ''>''" "c \<noteq> CHR ''&''"
    using assms not_alnum by blast+
  ultimately show ?thesis unfolding enc_ascii_def by (simp only: if_False simp_thms)
qed

lemma alnum_enc_str: "\<forall>c \<in> set s. is_alnum c \<Longrightarrow> enc_str s = s"
proof (induction s)
  case (Cons c s)
  then have "is_alnum c" by simp
  with Cons alnum_byte [of c] alnum_enc_ascii [of c] show ?case by (simp add: enc_str.simps)
qed (simp add: enc_str.simps)

lemma Parse_cid_url:
  assumes "\<forall>c \<in> set cid. is_alnum c"
  shows "Parse (pinataBaseURL @ ''/pinning/pinByHash'') \<noteq> None"
    "Parse (pinataBaseURL @ ''/pinning/unpin/'' @ cid) \<noteq> None"
    "Parse (pinataBaseURL @ ''/data/pinList?status=pinned&hashContains='' @ cid) \<noteq> None"
proof -
  have lit: "\<forall>c \<in> set ''/pinning/pinByHash''. api_char c" "\<forall>c \<in> set ''/pinning/unpin/''. api_char c"
    "\<forall>c \<in> set ''/data/pinList''. api_char c"
    "\<forall>c \<in> set ''?status=pinned&hashContains=''. \<not> is_ctl c \<and> c \<noteq> CHR ''#''"
    by (simp_all add: api_char_def is_ctl_def byte_val_def)
  have cid: "\<forall>c \<in> set cid. api_char c" using assms alnum_api_char by blast
  show "Parse (pinataBaseURL @ ''/pinning/pinByHash'') \<noteq> None"
    using Parse_api [of "''/pinning/pinByHash''" "[]"] lit(1) by simp
  show "Parse (pinataBaseURL @ ''/pinning/unpin/'' @ cid) \<noteq> None"
    using Parse_api [of "''/pinning/unpin/'' @ cid" "[]"] lit(2) cid by (simp add: ball_Un del: append_Cons)
  show "Parse (pinataBaseURL @ ''/data/pinList?status=pinned&hashContains='' @ cid) \<noteq> None"
    using Parse_api [of "''/data/pinList''" "''?status=pinned&hashContains='' @ cid"] lit(3,4) cid
    by (simp add: api_char_def)
qed

section \<open>Facts: the operations\<close>

definition api_request :: "PinataBackend \<Rightarrow> string \<Rightarrow> string \<Rightarrow> bytes option \<Rightarrow> http_request" where
  "api_request p meth path body = \<lparr>rq_method = meth, rq_url = pinataBaseURL @ path,
     rq_header = [(''pinata_api_key'', apiKey p), (''pinata_secret_api_key'', secretKey p)]
       @ (if body \<noteq> None then [(''Content-Type'', ''application/json'')] else []), rq_body = body\<rparr>"

lemma doRequest_api:
  "Parse (pinataBaseURL @ path) \<noteq> None \<Longrightarrow> doRequest p send meth (pinataBaseURL @ path) body s
     = (fst (send s (api_request p meth path body)), [api_request p meth path body], snd (send s (api_request p meth path body)))"
  by (simp add: doRequest_def api_request_def Let_def)

definition pin_body :: "string \<Rightarrow> bytes" where
  "pin_body c = [CHR 0x7B, CHR 0x22] @ ''hashToPin'' @ [CHR 0x22, CHR '':'', CHR 0x22] @ c @ [CHR 0x22, CHR 0x7D]"

lemma pin_payload:
  assumes "\<forall>x \<in> set c. is_alnum x"
  shows "compact (JObj [(''hashToPin'', JStr c)]) = pin_body c"
proof -
  have "\<forall>x \<in> set ''hashToPin''. is_alnum x"
    by (simp add: is_alnum_def is_upper_def is_lower_def is_digit_def in_range_def less_eq_char_def)
  with assms show ?thesis by (simp add: quote_def alnum_enc_str pin_body_def)
qed

definition by_status :: "(int \<times> bytes) option \<Rightarrow> pinata_err option" where
  "by_status reply = (case reply of None \<Rightarrow> Some RequestFailed
     | Some (status, body) \<Rightarrow> if status = 200 then None else Some (StatusErr status body))"

section \<open>Properties\<close>

text \<open>
  C25: what reaches Pinata. For a well-formed CID, \<open>Pin\<close>, \<open>Unpin\<close> and \<open>IsPinned\<close> each send exactly one
  request, with the keys in its headers, to the URL that has the CID as it stands, and succeed exactly
  on status 200 (\<open>IsPinned\<close> also needs a \<open>count\<close> that it can read, and answers whether it is
  positive); for any other string they send nothing and return an error.
\<close>

theorem pinata_calls_exact:
  "pinata_Pin p send c s = (if cidRegex c
     then (let rq = api_request p ''POST'' ''/pinning/pinByHash'' (Some (pin_body c))
           in (fst (send s rq), [rq], by_status (snd (send s rq))))
     else (s, [], Some (BadCID (InvalidCID c))))
   \<and> pinata_Unpin p send c s = (if cidRegex c
     then (let rq = api_request p ''DELETE'' (''/pinning/unpin/'' @ c) None
           in (fst (send s rq), [rq], by_status (snd (send s rq))))
     else (s, [], Some (BadCID (InvalidCID c))))
   \<and> pinata_IsPinned p send c s = (if cidRegex c
     then (let rq = api_request p ''GET'' (''/data/pinList?status=pinned&hashContains='' @ c) None
           in (fst (send s rq), [rq], case snd (send s rq) of
                None \<Rightarrow> Inl RequestFailed
              | Some (status, body) \<Rightarrow> if status \<noteq> 200 then Inl (StatusErr status [])
                  else (case Option.bind (decode_first body) decode_count of None \<Rightarrow> Inl DecodeFailed | Some n \<Rightarrow> Inr (0 < n))))
     else (s, [], Inl (BadCID (InvalidCID c))))"
proof (cases "cidRegex c")
  case True
  then have a: "\<forall>x \<in> set c. is_alnum x" by (rule cidRegex_alnum)
  note u = Parse_cid_url [OF a]
  have v: "ValidateCID c = None" using True by simp
  have esc: "PathEscape c = c" "QueryEscape c = c" by (simp_all add: PathEscape_def QueryEscape_def alnum_escape [OF a])
  note unfold = v option.case esc doRequest_api [OF u(1)] doRequest_api [OF u(2)] doRequest_api [OF u(3)]
    pin_payload [OF a] Let_def if_P [OF True] by_status_def prod.case
  show ?thesis unfolding pinata_Pin_def pinata_Unpin_def pinata_IsPinned_def unfold
    by (intro conjI) (auto split: option.split)
next
  case False
  then have v: "ValidateCID c = Some (InvalidCID c)" by simp
  show ?thesis unfolding pinata_Pin_def pinata_Unpin_def pinata_IsPinned_def v option.case if_not_P [OF False] by simp
qed

text \<open>A service that answers the list query for every offset, in any state, with the page of a fixed list.\<close>

definition page_request :: "PinataBackend \<Rightarrow> nat \<Rightarrow> http_request" where
  "page_request p k =
     api_request p ''GET'' (''/data/pinList?status=pinned&pageLimit=1000&pageOffset='' @ show_int (int k)) None"

definition serves_list :: "PinataBackend \<Rightarrow> 'srv service \<Rightarrow> string list \<Rightarrow> bool" where
  "serves_list p send xs \<longleftrightarrow> (\<forall>s k. \<exists>s' status body.
     send s (page_request p k) = (s', Some (status, body)) \<and> Option.bind (decode_first body) decode_list = Some (take 1000 (drop k xs)))"

lemma show_nat_api: "c \<in> set (show_nat n) \<Longrightarrow> is_digit c"
  using show_nat_digits [of n] by (simp add: list_all_iff)

lemma digit_not_special: "is_digit c \<Longrightarrow> \<not> is_ctl c \<and> c \<noteq> CHR ''#''"
  by (auto simp: is_digit_def in_range_def less_eq_char_def is_ctl_def byte_val_def)

lemma thousand: "show_int (int pageSize) = ''1000''"
  by code_simp

lemma doRequest_page:
  "doRequest p send ''GET'' (page_url (int k)) None s
     = (fst (send s (page_request p k)), [page_request p k], snd (send s (page_request p k)))"
proof -
  let ?q = "''?status=pinned&pageLimit=1000&pageOffset='' @ show_int (int k)"
  have d: "\<forall>c \<in> set (show_int (int k)). \<not> is_ctl c \<and> c \<noteq> CHR ''#''"
    using show_nat_api digit_not_special by (simp add: show_int_def)
  have "\<forall>c \<in> set ''?status=pinned&pageLimit=1000&pageOffset=''. \<not> is_ctl c \<and> c \<noteq> CHR ''#''"
    by (simp add: is_ctl_def byte_val_def)
  with d have q: "\<forall>c \<in> set ?q. \<not> is_ctl c \<and> c \<noteq> CHR ''#''" by (metis Un_iff set_append)
  have "\<forall>c \<in> set ''/data/pinList''. api_char c" by (simp add: api_char_def is_ctl_def byte_val_def)
  then have "Parse (pinataBaseURL @ ''/data/pinList'' @ ?q) \<noteq> None"
    by (rule Parse_api [OF _ q]) simp_all
  from doRequest_api [OF this] show ?thesis by (simp add: page_url_def thousand page_request_def)
qed

lemma pages_serves:
  assumes "serves_list p send xs"
  shows "\<exists>s' rqs. pages p send acc (int k) s = Some (s', rqs, Inr (acc @ drop k xs))
     \<and> length rqs = (length xs - k) div 1000 + 1"
proof (induction "length xs - k" arbitrary: acc k s rule: less_induct)
  case less
  let ?rq = "page_request p k"
  from assms obtain s1 status body where r: "send s ?rq = (s1, Some (status, body))"
    "Option.bind (decode_first body) decode_list = Some (take 1000 (drop k xs))"
    unfolding serves_list_def by blast
  have req: "doRequest p send ''GET'' (page_url (int k)) None s = (s1, [?rq], Some (status, body))"
    by (simp add: doRequest_page r(1))
  show ?case
  proof (cases "length xs - k < 1000")
    case True
    then show ?thesis by (subst pages.simps) (simp add: req r(2) pageSize_def)
  next
    case False
    then have l: "length xs - (k + 1000) < length xs - k" by simp
    from less [OF l] obtain s2 rqs where ih:
      "pages p send (acc @ take 1000 (drop k xs)) (int (k + 1000)) s1 = Some (s2, rqs, Inr ((acc @ take 1000 (drop k xs)) @ drop (k + 1000) xs))"
      "length rqs = (length xs - (k + 1000)) div 1000 + 1" by blast
    have xs: "take 1000 (drop k xs) @ drop (k + 1000) xs = drop k xs"
      by (metis add.commute append_take_drop_id drop_drop)
    have "int (k + 1000) = int k + 1000" by simp
    then have "pages p send acc (int k) s = Some (s2, ?rq # rqs, Inr (acc @ drop k xs))"
      using False ih(1) by (subst pages.simps) (simp add: req r(2) pageSize_def xs)
    moreover have "(length xs - k) div 1000 = (length xs - (k + 1000)) div 1000 + 1"
      using False by (simp add: le_div_geq flip: diff_diff_left)
    ultimately show ?thesis using ih(2) by simp
  qed
qed

text \<open>
  C24: listing the pins ends and is complete. If Pinata answers the list query with the pages of a
  fixed list of any length, \<open>PinnedCIDs\<close> returns, with exactly that list, after one request per full
  page and one more.
\<close>

theorem pinned_list_complete:
  assumes "serves_list p send xs"
  shows "\<exists>s' rqs. pinata_PinnedCIDs p send s = Some (s', rqs, Inr xs) \<and> length rqs = length xs div 1000 + 1"
  using pages_serves [OF assms, of "[]" 0 s] by (simp add: pinata_PinnedCIDs_def)

definition pin_page :: bytes where
  "pin_page = compact (JObj [(''rows'', JArr [JObj [(''ipfs_pin_hash'', JStr ''Qm'')]])])"

definition first_only :: "PinataBackend \<Rightarrow> unit service" where
  "first_only p s rq = ((), Some (200, if rq = page_request p 0 then pin_page else [CHR 0x7B, CHR 0x7D]))"

lemma page_request_inj: "page_request p i = page_request p j \<longleftrightarrow> i = j"
proof
  assume "page_request p i = page_request p j"
  then have "show_nat i = show_nat j" by (simp add: page_request_def api_request_def show_int_def)
  then show "i = j" by (metis show_nat_value)
qed simp

theorem pinned_list_complete_witness:
  "\<exists>rqs. pinata_PinnedCIDs (NewPinataBackend ''k'' ''s'') (first_only (NewPinataBackend ''k'' ''s'')) ()
     = Some ((), rqs, Inr [''Qm'']) \<and> length rqs = 1"
proof -
  have "Option.bind (decode_first pin_page) decode_list = Some [''Qm'']"
    "Option.bind (decode_first [CHR 0x7B, CHR 0x7D]) decode_list = Some []" by code_simp+
  then have "serves_list (NewPinataBackend ''k'' ''s'') (first_only (NewPinataBackend ''k'' ''s'')) [''Qm'']"
    by (auto simp: serves_list_def first_only_def page_request_inj)
  from pinned_list_complete [OF this] show ?thesis by fastforce
qed

text \<open>
  An error page looks like the end. \<open>PinnedCIDs\<close> does not look at the status of a page: a service
  that answers every query with status 500 and the body \<open>{}\<close> has, for it, no pins and no error.
\<close>

theorem error_page_ends_list:
  "pinata_PinnedCIDs p (\<lambda>_ rq. ((), Some (500, [CHR 0x7B, CHR 0x7D]))) () =
     Some ((), [page_request p 0], Inr [])"
proof -
  have "decode_first [CHR 0x7B, CHR 0x7D] = Some (JObj [])" by code_simp
  then show ?thesis
    using doRequest_page [of p "\<lambda>_ rq. ((), Some (500, [CHR 0x7B, CHR 0x7D]))" 0] unfolding pinata_PinnedCIDs_def
    by (subst pages.simps) (simp add: pageSize_def)
qed

end
