(* ===== verification/GoTime.thy ===== *)
theory GoTime
  imports Strconv
begin

text \<open>
  Go's \<open>time.Duration\<close> as far as the program uses it: \<open>ParseDuration\<close> with its 64-bit arithmetic and its
  float64 step for fractions, \<open>String\<close> and \<open>Round\<close>. A duration is an integer number of nanoseconds.
\<close>

section \<open>float64\<close>

text \<open>A positive float64 is \<open>m * 2 ^ e\<close> with a mantissa of 53 bits. \<open>fl p q\<close> is the float64 nearest to
  \<open>p / q\<close>, ties to even; exponents out of range do not occur here.\<close>

definition round_half_even :: "int \<Rightarrow> int \<Rightarrow> int" where
  "round_half_even p q = (let d = p div q; r = p mod q in if 2 * r < q \<or> (2 * r = q \<and> even d) then d else d + 1)"

function scale_up :: "int \<Rightarrow> int \<Rightarrow> int \<Rightarrow> int \<times> int \<times> int" where
  "scale_up p q e = (if p \<le> 0 \<or> 2 ^ 52 * q \<le> p then (p, q, e) else scale_up (2 * p) q (e - 1))"
  by pat_completeness auto
termination
  by (relation "measure (\<lambda>(p, q, e). nat (2 ^ 52 * q - p))") auto

function scale_down :: "int \<Rightarrow> int \<Rightarrow> int \<Rightarrow> int \<times> int \<times> int" where
  "scale_down p q e = (if q \<le> 0 \<or> p < 2 ^ 53 * q then (p, q, e) else scale_down p (2 * q) (e + 1))"
  by pat_completeness auto
termination
  by (relation "measure (\<lambda>(p, q, e). nat (p + 1 - q))") auto

declare scale_up.simps [simp del] scale_down.simps [simp del]

type_synonym float64 = "int \<times> int"

definition fl :: "int \<Rightarrow> int \<Rightarrow> int \<Rightarrow> float64" where
  "fl p q e = (case scale_up p q e of (p1, q1, e1) \<Rightarrow> case scale_down p1 q1 e1 of (p2, q2, e2) \<Rightarrow> (round_half_even p2 q2, e2))"

definition fl_mult :: "float64 \<Rightarrow> float64 \<Rightarrow> float64" where
  "fl_mult x y = fl (fst x * fst y) 1 (snd x + snd y)"

definition fl_div :: "float64 \<Rightarrow> float64 \<Rightarrow> float64" where
  "fl_div x y = fl (fst x) (fst y) (snd x - snd y)"

definition fl_trunc :: "float64 \<Rightarrow> int" where
  "fl_trunc x = (if snd x \<ge> 0 then fst x * 2 ^ nat (snd x) else fst x div 2 ^ nat (- snd x))"

section \<open>\<open>ParseDuration\<close>\<close>

text \<open>\<open>leadingInt\<close>: the value of the leading digits and the rest, or an overflow.\<close>

fun leadingInt :: "int \<Rightarrow> string \<Rightarrow> (int \<times> string) option" where
  "leadingInt x [] = Some (x, [])"
| "leadingInt x (c # s) =
     (if \<not> is_digit c then Some (x, c # s)
      else if x > 2 ^ 63 div 10 then None
      else if 10 * x + int (digit_val c) > 2 ^ 63 then None
      else leadingInt (10 * x + int (digit_val c)) s)"

text \<open>\<open>leadingFraction\<close>: the digits that count, how many they are, and the rest.\<close>

fun leadingFraction :: "bool \<Rightarrow> int \<Rightarrow> nat \<Rightarrow> string \<Rightarrow> int \<times> nat \<times> string" where
  "leadingFraction ov x k [] = (x, k, [])"
| "leadingFraction ov x k (c # s) =
     (if \<not> is_digit c then (x, k, c # s)
      else if ov \<or> x > (2 ^ 63 - 1) div 10 \<or> 10 * x + int (digit_val c) > 2 ^ 63 then leadingFraction True x k s
      else leadingFraction False (10 * x + int (digit_val c)) (k + 1) s)"

definition unitMap :: "(string \<times> int) list" where
  "unitMap = [(''ns'', 1), (''us'', 1000), ([CHR 0xC2, CHR 0xB5, CHR ''s''], 1000), ([CHR 0xCE, CHR 0xBC, CHR ''s''], 1000),
     (''ms'', 1000000), (''s'', 1000000000), (''m'', 60000000000), (''h'', 3600000000000)]"

definition not_unit :: "char \<Rightarrow> bool" where
  "not_unit c \<longleftrightarrow> c = CHR ''.'' \<or> is_digit c"

text \<open>\<open>scale\<close> is 10 multiplied up in float64, which is exact for the at most 19 digits that count.\<close>

definition fraction_ns :: "int \<Rightarrow> nat \<Rightarrow> int \<Rightarrow> int" where
  "fraction_ns f k unit = fl_trunc (fl_mult (fl f 1 0) (fl_div (fl unit 1 0) (fl (10 ^ k) 1 0)))"

text \<open>One number with its unit: its nanoseconds and the rest.\<close>

definition duration_part :: "string \<Rightarrow> (int \<times> string) option" where
  "duration_part s =
     (if s = [] \<or> \<not> not_unit (hd s) then None
      else (case leadingInt 0 s of
         None \<Rightarrow> None
       | Some (v, s1) \<Rightarrow>
          (let pre = (length s \<noteq> length s1);
               dot = HasPrefix s1 ''.'';
               (f, k, s2) = (if dot then leadingFraction False 0 0 (tl s1) else (0, 0, s1));
               post = (dot \<and> length (tl s1) \<noteq> length s2);
               u = takeWhile (\<lambda>c. \<not> not_unit c) s2
           in if \<not> pre \<and> \<not> post then None
              else if u = [] then None
              else (case map_of unitMap u of
                 None \<Rightarrow> None
               | Some unit \<Rightarrow>
                   if v > 2 ^ 63 div unit then None
                   else (let v' = (v * unit + (if f > 0 then fraction_ns f k unit else 0)) mod 2 ^ 64 in
                     if f > 0 \<and> v' > 2 ^ 63 then None else Some (v', drop (length u) s2))))))"

lemma leadingInt_length: "leadingInt x s = Some (v, t) \<Longrightarrow> length t \<le> length s"
  by (induction x s rule: leadingInt.induct) (auto split: if_splits)

lemma leadingFraction_length: "leadingFraction ov x k s = (f, j, t) \<Longrightarrow> length t \<le> length s"
  by (induction ov x k s rule: leadingFraction.induct) (auto split: if_splits)

lemma duration_part_length:
  assumes "duration_part s = Some (v, t)"
  shows "length t < length s"
proof -
  obtain w s1 where l: "leadingInt 0 s = Some (w, s1)"
    using assms by (auto simp: duration_part_def split: if_splits option.splits)
  obtain f k s2 where f: "(if HasPrefix s1 ''.'' then leadingFraction False 0 0 (tl s1) else (0, 0, s1)) = (f, k, s2)"
    using prod_cases3 by blast
  have "length s2 \<le> length s1"
    using f leadingFraction_length [of False 0 0 "tl s1" f k s2] by (auto split: if_splits)
  moreover from assms l f have "t = drop (length (takeWhile (\<lambda>c. \<not> not_unit c) s2)) s2" "takeWhile (\<lambda>c. \<not> not_unit c) s2 \<noteq> []"
    by (auto simp: duration_part_def Let_def split: if_splits option.splits)
  moreover from this(2) have "s2 \<noteq> []" by auto
  ultimately show ?thesis using leadingInt_length [OF l] by (cases s2) auto
qed

function duration_parts :: "int \<Rightarrow> string \<Rightarrow> int option" where
  "duration_parts d s =
     (if s = [] then Some d
      else (case duration_part s of
         None \<Rightarrow> None
       | Some (v, t) \<Rightarrow>
          (let d' = (d + v) mod 2 ^ 64 in if d' > 2 ^ 63 then None else duration_parts d' t)))"
  by pat_completeness auto
termination
  by (relation "measure (\<lambda>(d, s). length s)") (auto dest: duration_part_length)

declare duration_parts.simps [simp del]

definition ParseDuration :: "string \<Rightarrow> int option" where
  "ParseDuration s0 =
     (let neg = HasPrefix s0 ''-''; s = (if neg \<or> HasPrefix s0 ''+'' then drop 1 s0 else s0) in
      if s = ''0'' then Some 0
      else if s = [] then None
      else (case duration_parts 0 s of
         None \<Rightarrow> None
       | Some d \<Rightarrow> if neg then Some (- d) else if d > 2 ^ 63 - 1 then None else Some d))"

section \<open>\<open>String\<close> and \<open>Round\<close>\<close>

text \<open>\<open>fmtFrac\<close>: the last \<open>prec\<close> digits without trailing zeros, after a point, if any are left.\<close>

definition pad_left :: "nat \<Rightarrow> string \<Rightarrow> string" where
  "pad_left n s = replicate (n - length s) (CHR ''0'') @ s"

definition fmtFrac :: "int \<Rightarrow> nat \<Rightarrow> string" where
  "fmtFrac u prec = (let ds = TrimRight (CHR ''0'') (pad_left prec (show_int (u mod 10 ^ prec))) in
     if ds = [] then [] else ''.'' @ ds)"

definition small_duration :: "int \<Rightarrow> string" where
  "small_duration u =
     (if u = 0 then ''0s''
      else if u < 1000 then show_int u @ ''ns''
      else if u < 1000000 then show_int (u div 10 ^ 3) @ fmtFrac u 3 @ [CHR 0xC2, CHR 0xB5, CHR ''s'']
      else show_int (u div 10 ^ 6) @ fmtFrac u 6 @ ''ms'')"

definition large_duration :: "int \<Rightarrow> string" where
  "large_duration u =
     (let sec = u div 10 ^ 9; m = sec div 60; h = m div 60 in
      (if m > 0 then (if h > 0 then show_int h @ ''h'' else []) @ show_int (m mod 60) @ ''m'' else [])
      @ show_int (sec mod 60) @ fmtFrac u 9 @ ''s'')"

definition Duration_String :: "int \<Rightarrow> string" where
  "Duration_String d =
     (let u = \<bar>d\<bar>; body = (if u < 10 ^ 9 then small_duration u else large_duration u)
      in if d < 0 then ''-'' @ body else body)"

text \<open>Go's integer division and remainder truncate.\<close>

definition tdiv :: "int \<Rightarrow> int \<Rightarrow> int" where
  "tdiv a b = (if (a < 0) = (b < 0) then \<bar>a\<bar> div \<bar>b\<bar> else - (\<bar>a\<bar> div \<bar>b\<bar>))"

definition tmod :: "int \<Rightarrow> int \<Rightarrow> int" where
  "tmod a b = (if a < 0 then - (\<bar>a\<bar> mod \<bar>b\<bar>) else \<bar>a\<bar> mod \<bar>b\<bar>)"

definition Duration_Round :: "int \<Rightarrow> int \<Rightarrow> int" where
  "Duration_Round d m =
     (if m \<le> 0 then d
      else (let r = tmod d m in
        if d < 0 then (if - r + - r < m then d - r else if in_int64 (d - m + - r) then d - m + - r else - (2 ^ 63))
        else (if r + r < m then d - r else if in_int64 (d + m - r) then d + m - r else 2 ^ 63 - 1)))"

end
