(* ===== verification/GoPath.thy ===== *)
theory GoPath
  imports IpAddr
begin

text \<open>Go's \<open>path\<close> and \<open>path/filepath\<close> on Unix, where they agree: \<open>Clean\<close> and \<open>Join\<close>.\<close>

definition clean_step :: "bool \<Rightarrow> string list \<Rightarrow> string \<Rightarrow> string list" where
  "clean_step rooted out e =
     (if e = [] \<or> e = ''.'' then out
      else if e = ''..'' then
        (if out \<noteq> [] \<and> last out \<noteq> ''..'' then butlast out else if rooted then out else out @ [''..''])
      else out @ [e])"

definition join_with :: "char \<Rightarrow> string list \<Rightarrow> string" where
  "join_with c xs = (if xs = [] then [] else hd xs @ concat (map (\<lambda>x. c # x) (tl xs)))"

definition Clean :: "string \<Rightarrow> string" where
  "Clean p = (let rooted = HasPrefix p ''/''; out = join_with (CHR ''/'') (foldl (clean_step rooted) [] (split_on (CHR ''/'') p)) in
     if rooted then CHR ''/'' # out else if out = [] then ''.'' else out)"

definition filepath_Join :: "string \<Rightarrow> string \<Rightarrow> string" where
  "filepath_Join a b = (if a = [] \<and> b = [] then []
     else Clean (join_with (CHR ''/'') (filter (\<lambda>x. x \<noteq> []) [a, b])))"

end
