(* ===== verification/PinTiers.thy ===== *)
theory PinTiers
  imports Gateway Fetch
begin

text \<open>
  \<open>Pin\<close> of \<open>ipfsnode.go\<close> with its three tiers and the blockstore they fill: bitswap, the CAR fallback of
  \<open>Fetch\<close>, and the offline walk that confirms what the fallback imported. Blocks and CIDs are those of the
  IPLD libraries, types \<open>'b\<close> and \<open>'c\<close>. \<open>EmbeddedNode\<close> has the same operation with the tiers as answers;
  here the answers are computed, and what a pinned CID stands for can be said: its whole graph is in the store.
\<close>

section \<open>Graphs of blocks\<close>

text \<open>The CID that a block hashes to, and the CIDs it links to.\<close>

record ('b, 'c) ipld =
  cid_of :: "'b \<Rightarrow> 'c"
  links :: "'b \<Rightarrow> 'c list"

inductive needed :: "('b, 'c) ipld \<Rightarrow> 'b set \<Rightarrow> 'c \<Rightarrow> 'c \<Rightarrow> bool" for D S r where
  needed_root: "needed D S r r"
| needed_link: "needed D S r c \<Longrightarrow> b \<in> S \<Longrightarrow> cid_of D b = c \<Longrightarrow> l \<in> set (links D b) \<Longrightarrow> needed D S r l"

definition complete_graph :: "('b, 'c) ipld \<Rightarrow> 'b set \<Rightarrow> 'c \<Rightarrow> bool" where
  "complete_graph D S r \<longleftrightarrow> (\<forall>c. needed D S r c \<longrightarrow> (\<exists>b \<in> S. cid_of D b = c))"

section \<open>The tiers\<close>

text \<open>What the libraries and the network answer during one call. \<open>ti_bitswap\<close> and \<open>ti_walk\<close> are \<open>FetchGraph\<close> over the
  online and the offline block service: the blocks that arrived with the result, and the result. \<open>ti_part\<close> is what
  a failed \<open>PutMany\<close> has stored.\<close>

record ('b, 'c) tiers =
  ti_bitswap :: "'b set \<Rightarrow> 'c \<Rightarrow> 'b list \<times> bool"
  ti_mesh :: "string list option"
  ti_http :: "nat \<Rightarrow> string \<Rightarrow> 'b response"
  ti_put_ok :: "nat \<Rightarrow> bool"
  ti_part :: "nat \<Rightarrow> 'b list"
  ti_walk :: "'b set \<Rightarrow> 'c \<Rightarrow> bool"
  ti_order :: map_order
  ti_plan :: io_plan

text \<open>What does not change between calls: go-cid, the configured chain and the cap.\<close>

record 'c pin_conf =
  pc_decode :: "string \<Rightarrow> 'c option"
  pc_string :: "'c \<Rightarrow> string"
  pc_uni :: "string \<Rightarrow> string"
  pc_chain :: chain_conf
  pc_maxPinBytes :: "64 word"

text \<open>What a list of \<open>PutMany\<close> calls has stored.\<close>

definition stored :: "('b, 'c) tiers \<Rightarrow> 'b puts \<Rightarrow> 'b set" where
  "stored ti puts = (\<Union>k < length puts. set (if ti_put_ok ti k then puts ! k else ti_part ti k))"

definition fetch_tiers :: "'c pin_conf \<Rightarrow> ('b, 'c) tiers \<Rightarrow> string \<Rightarrow> 'c \<Rightarrow> 'b set \<Rightarrow> 'b set \<times> node_err option" where
  "fetch_tiers pc ti cidStr c S = (case ti_bitswap ti S c of (got, bswOk) \<Rightarrow>
     (let S1 = S \<union> set got in
      if bswOk then (S1, None)
      else (case fetchViaCAR (pc_uni pc) (pc_chain pc) (ti_mesh ti) (ti_http ti) (ti_put_ok ti) (pc_maxPinBytes pc) (pc_string pc c) [] of
         (puts, Some _) \<Rightarrow> (S1 \<union> stored ti puts, Some (FetchingDAG cidStr))
       | (puts, None) \<Rightarrow>
          (let S2 = S1 \<union> stored ti puts in
           if \<not> ti_walk ti S2 c then (S2, Some (DAGIncomplete cidStr)) else (S2, None)))))"

definition Pin_tiers :: "'c pin_conf \<Rightarrow> ('b, 'c) tiers \<Rightarrow> string \<Rightarrow> 'b set \<times> node \<Rightarrow> ('b set \<times> node) \<times> node_err option" where
  "Pin_tiers pc ti cidStr st = (case st of (S, n) \<Rightarrow>
     if done_closed n then (st, Some ErrPinnerShuttingDown)
     else (case ValidateCID cidStr of
        Some e \<Rightarrow> (st, Some (CidErr e))
      | None \<Rightarrow> (case pc_decode pc cidStr of
          None \<Rightarrow> (st, Some (DecodingCID cidStr))
        | Some c \<Rightarrow> (case fetch_tiers pc ti cidStr c S of
            (S', Some e) \<Rightarrow> ((S', n), Some e)
          | (S', None) \<Rightarrow> ((S', markPinned (ti_order ti) (ti_plan ti) cidStr n), None)))))"

text \<open>The answers that \<open>EmbeddedNode\<close> would be given in a state of the store.\<close>

definition answers_of :: "'c pin_conf \<Rightarrow> ('b, 'c) tiers \<Rightarrow> 'b set \<Rightarrow> fetch_env" where
  "answers_of pc ti S =
     (let got = (\<lambda>c. S \<union> set (fst (ti_bitswap ti S c)));
          car = (\<lambda>c. fetchViaCAR (pc_uni pc) (pc_chain pc) (ti_mesh ti) (ti_http ti) (ti_put_ok ti) (pc_maxPinBytes pc) (pc_string pc c) [])
      in \<lparr>decodes = (\<lambda>s. pc_decode pc s \<noteq> None),
          bitswap_fetch = (\<lambda>s. case pc_decode pc s of None \<Rightarrow> False | Some c \<Rightarrow> snd (ti_bitswap ti S c)),
          car_fetch = (\<lambda>s. case pc_decode pc s of None \<Rightarrow> False | Some c \<Rightarrow> snd (car c) = None),
          offline_walk = (\<lambda>s. case pc_decode pc s of None \<Rightarrow> False
             | Some c \<Rightarrow> ti_walk ti (got c \<union> stored ti (fst (car c))) c)\<rparr>)"

text \<open>No operation of the node deletes a block: \<open>Unpin\<close> only forgets the CID.\<close>

definition Unpin_tiers :: "'c pin_conf \<Rightarrow> ('b, 'c) tiers \<Rightarrow> string \<Rightarrow> 'b set \<times> node \<Rightarrow> ('b set \<times> node) \<times> node_err option" where
  "Unpin_tiers pc ti cidStr st = (case st of (S, n) \<Rightarrow>
     (case node_Unpin (answers_of pc ti S, ti_order ti, ti_plan ti) n cidStr of (n', e) \<Rightarrow> ((S, n'), e)))"

definition tiers_call :: "'c pin_conf \<Rightarrow> ('b, 'c) tiers \<times> backend_op \<Rightarrow> 'b set \<times> node \<Rightarrow> 'b set \<times> node" where
  "tiers_call pc e st = (case e of
     (ti, OpPin c) \<Rightarrow> fst (Pin_tiers pc ti c st)
   | (ti, OpUnpin c) \<Rightarrow> fst (Unpin_tiers pc ti c st))"

section \<open>Facts: graphs\<close>

text \<open>A complete graph stays complete when blocks are added, if blocks with one CID have the same links.\<close>

definition content_addressed :: "('b, 'c) ipld \<Rightarrow> bool" where
  "content_addressed D \<longleftrightarrow> (\<forall>b b'. cid_of D b = cid_of D b' \<longrightarrow> links D b = links D b')"

lemma needed_mono:
  assumes "content_addressed D" "complete_graph D S r" "needed D S' r c"
  shows "needed D S r c"
  using assms(3)
proof induction
  case (needed_link c b l)
  from needed_link.IH assms(2) obtain b0 where "b0 \<in> S" "cid_of D b0 = c" by (auto simp: complete_graph_def)
  with assms(1) needed_link.hyps show ?case unfolding content_addressed_def
    by (metis needed.needed_link needed_link.IH)
qed (rule needed_root)

lemma complete_mono:
  assumes "content_addressed D" "complete_graph D S r" "S \<subseteq> S'"
  shows "complete_graph D S' r"
  using needed_mono [OF assms(1,2)] assms(2,3) unfolding complete_graph_def by blast

section \<open>Facts: the tiers\<close>

text \<open>What \<open>FetchGraph\<close> promises: it visits every link, and succeeds only if it had every block.\<close>

definition fetches_graphs :: "('b, 'c) ipld \<Rightarrow> ('b, 'c) tiers \<Rightarrow> bool" where
  "fetches_graphs D ti \<longleftrightarrow> (\<forall>S c. snd (ti_bitswap ti S c) \<longrightarrow> complete_graph D (S \<union> set (fst (ti_bitswap ti S c))) c)
     \<and> (\<forall>S c. ti_walk ti S c \<longrightarrow> complete_graph D S c)"

lemma fetch_tiers_grows: "S \<subseteq> fst (fetch_tiers pc ti s c S)"
proof -
  obtain got ok where b: "ti_bitswap ti S c = (got, ok)" by fastforce
  obtain puts r where f: "fetchViaCAR (pc_uni pc) (pc_chain pc) (ti_mesh ti) (ti_http ti) (ti_put_ok ti) (pc_maxPinBytes pc) (pc_string pc c) [] = (puts, r)"
    by (rule prod.exhaust)
  show ?thesis by (cases ok; cases r) (simp_all add: fetch_tiers_def b f Let_def le_supI1)
qed

lemma fetch_tiers_complete:
  assumes "fetches_graphs D ti" "fetch_tiers pc ti s c S = (S', None)"
  shows "complete_graph D S' c"
proof -
  obtain got ok where b: "ti_bitswap ti S c = (got, ok)" by fastforce
  have "ok \<Longrightarrow> complete_graph D (S \<union> set got) c" using assms(1) b unfolding fetches_graphs_def by (metis fst_conv snd_conv)
  moreover have "ti_walk ti T c \<Longrightarrow> complete_graph D T c" for T using assms(1) by (simp add: fetches_graphs_def)
  ultimately show ?thesis using assms(2) by (auto simp: fetch_tiers_def b Let_def split: if_splits prod.splits option.splits)
qed

text \<open>A pin that its string decodes to a complete graph.\<close>

definition pins_local :: "('b, 'c) ipld \<Rightarrow> 'c pin_conf \<Rightarrow> 'b set \<times> node \<Rightarrow> bool" where
  "pins_local D pc st \<longleftrightarrow> (\<forall>s \<in> pins (snd st). \<exists>c. pc_decode pc s = Some c \<and> complete_graph D (fst st) c)"

lemma pins_local_mono:
  assumes "content_addressed D" "pins_local D pc (S, n)" "S \<subseteq> S'" "pins n' \<subseteq> pins n"
  shows "pins_local D pc (S', n')"
  unfolding pins_local_def
proof
  fix s
  assume "s \<in> pins (snd (S', n'))"
  with assms(2,4) obtain c where "pc_decode pc s = Some c" "complete_graph D S c" by (auto simp: pins_local_def)
  with complete_mono [OF assms(1) _ assms(3)] show "\<exists>c. pc_decode pc s = Some c \<and> complete_graph D (fst (S', n')) c" by simp
qed

lemma Pin_tiers_local:
  assumes "content_addressed D" "fetches_graphs D ti" "pins_local D pc (S, n)" "Pin_tiers pc ti s (S, n) = ((S', n'), e)"
  shows "pins_local D pc (S', n') \<and> S \<subseteq> S'"
proof (cases "\<exists>c. \<not> done_closed n \<and> ValidateCID s = None \<and> pc_decode pc s = Some c")
  case True
  then obtain c where c: "\<not> done_closed n" "ValidateCID s = None" "pc_decode pc s = Some c" by blast
  obtain S1 e1 where f: "fetch_tiers pc ti s c S = (S1, e1)" by fastforce
  with fetch_tiers_grows [of S pc ti s c] have g: "S \<subseteq> S1" by simp
  show ?thesis
  proof (cases e1)
    case None
    from pins_local_mono [OF assms(1,3) g order_refl] have "pins_local D pc (S1, n)" .
    moreover from fetch_tiers_complete [OF assms(2)] f None have "complete_graph D S1 c" by blast
    moreover have "S' = S1" "pins n' = insert s (pins n)" using assms(4) c None f by (auto simp: Pin_tiers_def)
    ultimately show ?thesis using c g by (auto simp: pins_local_def)
  next
    case (Some x)
    then have "S' = S1" "n' = n" using assms(4) c f by (auto simp: Pin_tiers_def)
    with g pins_local_mono [OF assms(1,3) g order_refl] show ?thesis by simp
  qed
next
  case False
  then have "S' = S" "n' = n" using assms(4) by (auto simp: Pin_tiers_def split: if_splits option.splits)
  with assms(3) show ?thesis by simp
qed

lemma tiers_call_local:
  assumes "content_addressed D" "fetches_graphs D (fst e)" "pins_local D pc st"
  shows "pins_local D pc (tiers_call pc e st) \<and> fst st \<subseteq> fst (tiers_call pc e st)"
proof -
  obtain S n ti oper where st: "st = (S, n)" "e = (ti, oper)" by fastforce
  show ?thesis
  proof (cases oper)
    case (OpPin s)
    obtain S' n' r where p: "Pin_tiers pc ti s (S, n) = ((S', n'), r)" by (metis surj_pair)
    with Pin_tiers_local [OF assms(1) _ _ p] assms(2,3) st OpPin show ?thesis by (simp add: tiers_call_def)
  next
    case (OpUnpin s)
    have "pins (fst (node_Unpin env n s)) \<subseteq> pins n" for env
      by (auto simp: node_Unpin_def split: prod.splits option.splits)
    with pins_local_mono [OF assms(1), of pc S n S "fst (node_Unpin (answers_of pc ti S, ti_order ti, ti_plan ti) n s)"] assms(3) st OpUnpin show ?thesis
      by (simp add: tiers_call_def Unpin_tiers_def split: prod.splits) (metis fst_conv)
  qed
qed

lemma Pin_tiers_refines:
  assumes "Pin_tiers pc ti s (S, n) = ((S', n'), e)"
  shows "node_Pin (answers_of pc ti S, ti_order ti, ti_plan ti) n s = (n', e)"
  using assms
  by (auto simp: Pin_tiers_def node_Pin_def fetch_tiers_def answers_of_def Let_def split: if_splits option.splits prod.splits)

lemma stored_batches:
  assumes "batches_from [] puts blks" "\<forall>k. ti_put_ok ti k"
  shows "stored ti puts = set blks"
proof -
  have "stored ti puts = (\<Union>k < length puts. set (puts ! k))" by (simp add: stored_def assms(2))
  also have "\<dots> = \<Union> (set ` set puts)" by (auto simp: set_conv_nth)
  also have "\<dots> = set (concat puts)" by simp
  also have "concat puts = blks" using assms(1) by (simp add: batches_from_def)
  finally show ?thesis .
qed

lemma stored_http [simp]: "stored (ti\<lparr>ti_http := h\<rparr>) puts = stored ti puts"
  by (simp add: stored_def cong: if_cong)

text \<open>A stream that the import accepts.\<close>

definition clean_stream :: "64 word \<Rightarrow> 'b car_stream \<Rightarrow> bool" where
  "clean_stream cap s \<longleftrightarrow> car_blocks s \<noteq> [] \<and> end_eof s \<and> end_count s \<le> sint cap \<and> (\<forall>(n, b) \<in> set (car_blocks s). n \<le> sint cap)"

lemma first_gateway_decides:
  assumes "assembleFallbackChain uni n mesh = gw # gws" "http 0 (car_url gw c) = Response 200 body" "body (read_limit cap) = Some s"
    "clean_stream cap s" "\<forall>k. put_ok k"
  obtains puts where "fetchViaCAR uni n mesh http put_ok cap c [] = (puts, None)" "batches_from [] puts (map snd (car_blocks s))"
proof -
  obtain puts r where l: "import_loop put_ok (sint cap) (car_blocks s) (end_count s) (end_eof s) [] 0 [] = (puts, r)"
    by (rule prod.exhaust)
  have "r = None"
    using import_loop_succeeds [of put_ok "end_eof s" "end_count s" "sint cap" "car_blocks s" 0 "[]" "[]"] l assms(4,5)
    by (auto simp: clean_stream_def)
  moreover have "batches_from [] puts (map snd (car_blocks s))"
    using import_loop_spec [OF l batches_refl] batch_size_pos \<open>r = None\<close> by simp
  moreover have "fetchViaCAR uni n mesh http put_ok cap c [] = (puts, None)"
    using l \<open>r = None\<close> assms(1-3) by (simp add: fetchViaCAR_def fetchCARFromGateway_def car_url_def StatusOK_def)
  ultimately show ?thesis using that by blast
qed

section \<open>Properties\<close>

text \<open>
  The tiers refine \<open>Pin\<close>. For the node, \<open>Pin\<close> with its tiers and its store is the \<open>Pin\<close> of \<open>EmbeddedNode\<close>,
  with the answers that the tiers compute from what the network sends: same result, same pins, same files.
\<close>

theorem tiers_refine_pin:
  "case Pin_tiers pc ti s (S, n) of ((S', n'), e) \<Rightarrow> node_Pin (answers_of pc ti S, ti_order ti, ti_plan ti) n s = (n', e)"
proof -
  obtain S' n' e where p: "Pin_tiers pc ti s (S, n) = ((S', n'), e)" by (metis surj_pair)
  from Pin_tiers_refines [OF p] p show ?thesis by simp
qed

text \<open>
  C3: what is served is there, whole. Whatever bitswap peers and gateways send, and however many calls fail: if every
  CID that was pinned at first had its whole graph in the blockstore, then after any history of \<open>Pin\<close> and \<open>Unpin\<close> calls
  every \<open>/ipfs/\<close> request that the guard lets through is for a CID whose whole graph is in the blockstore. This rests on blocks
  being addressed by their content and on \<open>FetchGraph\<close> failing if a block is missing.
\<close>

theorem served_content_is_local:
  assumes "content_addressed D" "pins_local D pc (S, n)" "fold (tiers_call pc) es (S, n) = (S', n')"
    "\<And>e. e \<in> set es \<Longrightarrow> fetches_graphs D (fst e)" "gatewayGuard q n' path = ServeNext" "HasPrefix path ''/ipfs/''"
  shows "S \<subseteq> S' \<and> (\<exists>c. pc_decode pc (root_of path) = Some c \<and> complete_graph D S' c)"
proof -
  have "pins_local D pc (fold (tiers_call pc) es st) \<and> fst st \<subseteq> fst (fold (tiers_call pc) es st)"
    if "pins_local D pc st" for st
    using that assms(4)
  proof (induction es arbitrary: st)
    case (Cons e es)
    then have "fetches_graphs D (fst e)" by simp
    from tiers_call_local [OF assms(1) this Cons.prems(1)] Cons.IH [of "tiers_call pc e st"] Cons.prems(2) show ?case by auto
  qed simp
  from this [OF assms(2)] assms(3) have l: "pins_local D pc (S', n')" "S \<subseteq> S'" by simp_all
  from assms(5) guard_ipfs [OF assms(6), of q n'] have "root_of path \<in> pins n'" by (simp split: if_splits)
  with l show ?thesis by (auto simp: pins_local_def)
qed

definition demo_ipld :: "(nat, string) ipld" where
  "demo_ipld = \<lparr>cid_of = (\<lambda>b. if b = 0 then sample_v0 else sample_v1), links = (\<lambda>b. if b = 0 then [sample_v1] else [])\<rparr>"

definition demo_conf :: "string pin_conf" where
  "demo_conf = \<lparr>pc_decode = Some, pc_string = (\<lambda>c. c), pc_uni = (\<lambda>s. s), pc_chain = static_chain ''https://a'' [], pc_maxPinBytes = defaultMaxPinBytes\<rparr>"

text \<open>bitswap finds nothing; the first gateway sends the block \<open>b\<close>.\<close>

definition demo_tiers :: "nat list \<Rightarrow> (nat, string) tiers" where
  "demo_tiers bs = \<lparr>ti_bitswap = (\<lambda>S c. ([], False)), ti_mesh = None,
     ti_http = (\<lambda>k u. Response 200 (\<lambda>l. Some \<lparr>car_blocks = map (Pair 100) bs, end_count = 100, end_eof = True\<rparr>)),
     ti_put_ok = (\<lambda>_. True), ti_part = (\<lambda>_. []), ti_walk = (\<lambda>S c. c = sample_v0 \<and> {0, 1} \<subseteq> S), ti_order = sorted_list_of_set, ti_plan = plan_ok\<rparr>"

lemma demo_content: "content_addressed demo_ipld"
  by (auto simp: content_addressed_def demo_ipld_def split: if_splits)

lemma demo_fetches: "fetches_graphs demo_ipld (demo_tiers bs)"
proof -
  have n: "c \<in> {sample_v0, sample_v1}" if "needed demo_ipld S sample_v0 c" for S c
    using that by induction (auto simp: demo_ipld_def split: if_splits)
  have "complete_graph demo_ipld S sample_v0" if "{0, 1} \<subseteq> S" for S
    unfolding complete_graph_def
  proof (intro allI impI)
    fix c
    assume "needed demo_ipld S sample_v0 c"
    from n [OF this] show "\<exists>b \<in> S. cid_of demo_ipld b = c"
      using that by (auto simp: demo_ipld_def intro: bexI [of _ 0] bexI [of _ 1])
  qed
  then show ?thesis by (auto simp: fetches_graphs_def demo_tiers_def)
qed

lemma demo_chain: "assembleFallbackChain (\<lambda>s. s) (static_chain ''https://a'' []) None = ''https://a'' # defaultFallbackGateways"
  by (simp add: assembleFallbackChain_def static_chain_def)

lemma demo_clean: "clean_stream defaultMaxPinBytes \<lparr>car_blocks = map (Pair 100) bs, end_count = 100, end_eof = True\<rparr> \<longleftrightarrow> bs \<noteq> []"
  by (auto simp: clean_stream_def defaultMaxPinBytes_def)

lemma demo_pin:
  assumes "bs \<noteq> []" "\<not> done_closed n"
  shows "Pin_tiers demo_conf (demo_tiers bs) sample_v0 (S, n)
    = (if {0, 1} \<subseteq> S \<union> set bs then ((S \<union> set bs, markPinned sorted_list_of_set plan_ok sample_v0 n), None)
       else ((S \<union> set bs, n), Some (DAGIncomplete sample_v0)))"
proof -
  let ?ti = "demo_tiers bs"
  obtain puts where f: "fetchViaCAR (\<lambda>s. s) (static_chain ''https://a'' []) None (ti_http ?ti) (ti_put_ok ?ti) defaultMaxPinBytes sample_v0 [] = (puts, None)"
    and b: "batches_from [] puts bs"
  proof (rule first_gateway_decides [where http = "ti_http ?ti" and put_ok = "ti_put_ok ?ti" and cap = defaultMaxPinBytes, OF demo_chain])
    show "ti_http ?ti 0 (car_url ''https://a'' sample_v0)
      = Response 200 (\<lambda>l. Some \<lparr>car_blocks = map (Pair 100) bs, end_count = 100, end_eof = True\<rparr>)" by (simp add: demo_tiers_def)
    show "clean_stream defaultMaxPinBytes \<lparr>car_blocks = map (Pair 100) bs, end_count = 100, end_eof = True\<rparr>"
      using assms(1) demo_clean by blast
    show "\<forall>k. ti_put_ok ?ti k" by (simp add: demo_tiers_def)
    fix puts
    assume "fetchViaCAR (\<lambda>s. s) (static_chain ''https://a'' []) None (ti_http ?ti) (ti_put_ok ?ti) defaultMaxPinBytes sample_v0 [] = (puts, None)"
      "batches_from [] puts (map snd (car_blocks \<lparr>car_blocks = map (Pair 100) bs, end_count = 100, end_eof = True\<rparr>))"
    then show thesis using that by (simp add: comp_def)
  qed simp
  have "stored ?ti puts = set bs" by (rule stored_batches [OF b]) (simp add: demo_tiers_def)
  moreover have "ti_bitswap ?ti S sample_v0 = ([], False)" "ti_mesh ?ti = None" "ti_walk ?ti T sample_v0 \<longleftrightarrow> {0, 1} \<subseteq> T" "ti_order ?ti = sorted_list_of_set" "ti_plan ?ti = plan_ok" for T
    by (simp_all add: demo_tiers_def)
  moreover have v: "ValidateCID sample_v0 = None" by simp
  ultimately show ?thesis using assms(2) f by (simp add: Pin_tiers_def fetch_tiers_def demo_conf_def v Let_def del: insert_subset)
qed

theorem served_content_is_local_witness:
  "\<exists>S n. fold (tiers_call demo_conf) [(demo_tiers [0, 1], OpPin sample_v0)] ({}, open_node empty_fs ''pins.json'') = (S, n)
     \<and> gatewayGuard (\<lambda>s. s) n (''/ipfs/'' @ sample_v0) = ServeNext \<and> complete_graph demo_ipld S sample_v0"
proof -
  let ?n = "open_node empty_fs ''pins.json''"
  obtain n where n: "n = markPinned sorted_list_of_set plan_ok sample_v0 ?n" by blast
  have f: "fold (tiers_call demo_conf) [(demo_tiers [0, 1], OpPin sample_v0)] ({}, ?n) = ({0, 1}, n)"
    by (simp add: tiers_call_def demo_pin n insert_commute)
  have r: "root_of (''/ipfs/'' @ sample_v0) = sample_v0" by code_simp
  have p: "HasPrefix (''/ipfs/'' @ sample_v0) ''/ipfs/''" by (rule HasPrefix_append)
  have g: "gatewayGuard (\<lambda>s. s) n (''/ipfs/'' @ sample_v0) = ServeNext"
    unfolding guard_ipfs [OF p] r using cidRegex_nonempty [of sample_v0] by (auto simp: n)
  have l: "pins_local demo_ipld demo_conf ({}, ?n)" by (simp add: pins_local_def open_node_empty)
  from served_content_is_local [OF demo_content l f _ g p] demo_fetches [of "[0, 1]"]
  have "\<exists>c. pc_decode demo_conf sample_v0 = Some c \<and> complete_graph demo_ipld {0, 1} c" unfolding r by simp
  with f g show ?thesis by (auto simp: demo_conf_def)
qed

text \<open>
  C39: the first clean stream ends the fallback, whatever is in it. If bitswap fails and the first gateway of the
  chain answers with a CAR that is well-formed but does not complete the graph (any block at all will do), the import counts as a
  success, its blocks are stored, the offline walk then fails, and \<open>Pin\<close> returns an error without having
  asked any other gateway, even one that would deliver the graph.
\<close>

theorem foreign_car_ends_fallback:
  assumes "\<not> done_closed n" "cidRegex s" "pc_decode pc s = Some c" "ti_bitswap ti S c = (got, False)"
    "assembleFallbackChain (pc_uni pc) (pc_chain pc) (ti_mesh ti) = gw # gws"
    "ti_http ti 0 (car_url gw (pc_string pc c)) = Response 200 body" "body (read_limit (pc_maxPinBytes pc)) = Some car"
    "clean_stream (pc_maxPinBytes pc) car" "\<forall>k. ti_put_ok ti k" "\<not> ti_walk ti (S \<union> set got \<union> snd ` set (car_blocks car)) c"
    "\<And>u. others 0 u = ti_http ti 0 u"
  shows "Pin_tiers pc (ti\<lparr>ti_http := others\<rparr>) s (S, n)
    = ((S \<union> set got \<union> snd ` set (car_blocks car), n), Some (DAGIncomplete s))"
proof -
  have h: "others 0 (car_url gw (pc_string pc c)) = Response 200 body" using assms(6,11) by simp
  obtain puts where f: "fetchViaCAR (pc_uni pc) (pc_chain pc) (ti_mesh ti) others (ti_put_ok ti) (pc_maxPinBytes pc) (pc_string pc c) [] = (puts, None)"
    and b: "batches_from [] puts (map snd (car_blocks car))"
    by (rule first_gateway_decides [where http = others and put_ok = "ti_put_ok ti" and cap = "pc_maxPinBytes pc", OF assms(5) h assms(7,8,9)])
  have "stored ti puts = snd ` set (car_blocks car)" using stored_batches [OF b assms(9)] by simp
  moreover have v: "ValidateCID s = None" using assms(2) by simp
  ultimately show ?thesis using f assms(1,3,4,10) by (simp add: Pin_tiers_def fetch_tiers_def v Let_def)
qed

theorem foreign_car_ends_fallback_witness:
  "Pin_tiers demo_conf ((demo_tiers [7])\<lparr>ti_http := (\<lambda>k. ti_http (demo_tiers (if k = 0 then [7] else [0, 1])) k)\<rparr>)
      sample_v0 ({}, open_node empty_fs ''pins.json'')
    = (({7}, open_node empty_fs ''pins.json''), Some (DAGIncomplete sample_v0))
   \<and> snd (Pin_tiers demo_conf (demo_tiers [0, 1]) sample_v0 ({}, open_node empty_fs ''pins.json'')) = None"
proof -
  have "assembleFallbackChain (pc_uni demo_conf) (pc_chain demo_conf) (ti_mesh (demo_tiers [7])) = ''https://a'' # defaultFallbackGateways"
    using demo_chain by (simp add: demo_conf_def demo_tiers_def)
  from foreign_car_ends_fallback [OF _ sample_v0_valid _ _ this, of "open_node empty_fs ''pins.json''" sample_v0 "{}" "[]"
      "\<lambda>l. Some \<lparr>car_blocks = map (Pair 100) [7], end_count = 100, end_eof = True\<rparr>" "\<lparr>car_blocks = map (Pair 100) [7], end_count = 100, end_eof = True\<rparr>"
      "\<lambda>k. ti_http (demo_tiers (if k = 0 then [7] else [0, 1])) k"] demo_clean [of "[7]"]
  have "Pin_tiers demo_conf ((demo_tiers [7])\<lparr>ti_http := (\<lambda>k. ti_http (demo_tiers (if k = 0 then [7] else [0, 1])) k)\<rparr>)
      sample_v0 ({}, open_node empty_fs ''pins.json'')
    = (({7}, open_node empty_fs ''pins.json''), Some (DAGIncomplete sample_v0))"
    by (simp add: demo_conf_def demo_tiers_def)
  then show ?thesis by (simp add: demo_pin insert_commute)
qed

end
