(* ===== verification/NodeSetup.thy ===== *)
theory NodeSetup
  imports EmbeddedNode Fetch Mesh GoPath
begin

text \<open>
  How an \<open>EmbeddedNode\<close> starts and stops: \<open>NewEmbeddedNode\<close> and \<open>Close\<close> of \<open>ipfsnode.go\<close>, the peer key and
  the host of \<open>ipfsnode_libp2p.go\<close>, \<open>openRepo\<close> and \<open>startGateway\<close>. flatfs, libp2p, the DHT, bitswap and the
  HTTP server are third-party or I/O: each answers with success or an error, and what the code owes them
  is that everything it opened is closed again. The effects are a trace of what was opened and closed.
\<close>

section \<open>Resources\<close>

datatype resource = Datastore | Libp2pHost | DHTRouting | BitswapExchange | GatewayServer | MeshManager

datatype effect = Opened resource | Closed resource

fun still_open :: "resource set \<Rightarrow> effect list \<Rightarrow> resource set" where
  "still_open R [] = R"
| "still_open R (Opened r # es) = still_open (insert r R) es"
| "still_open R (Closed r # es) = still_open (R - {r}) es"

text \<open>The first error of a list of results.\<close>

fun first_error :: "string option list \<Rightarrow> string option" where
  "first_error [] = None"
| "first_error (Some e # es) = Some e"
| "first_error (None # es) = first_error es"

section \<open>The peer key\<close>

text \<open>\<open>os.WriteFile\<close>: no temporary file, no sync.\<close>

definition os_WriteFile :: "io_plan \<Rightarrow> fs \<Rightarrow> path \<Rightarrow> bytes \<Rightarrow> fs \<times> io_err option" where
  "os_WriteFile pl s p data = (case open_err pl of
     Some e \<Rightarrow> (s, Some e)
   | None \<Rightarrow> (case open_trunc p s of (s1, f) \<Rightarrow>
      (case write_err pl of
         Some (k, e) \<Rightarrow> (write_at f 0 (take k data) s1, Some e)
       | None \<Rightarrow> (write_at f 0 data s1, close_err pl))))"

text \<open>What go-libp2p's \<open>crypto\<close> does to a private key of type \<open>'k\<close>.\<close>

record 'k crypto =
  GenerateEd25519Key :: "'k option"
  MarshalPrivateKey :: "'k \<Rightarrow> bytes option"
  UnmarshalPrivateKey :: "bytes \<Rightarrow> 'k option"

datatype key_err = BadKeyFile | ReadingKey io_err | GeneratingKey | MarshalingKey | PersistingKey io_err

text \<open>\<open>rd\<close> is a read error other than a missing file.\<close>

definition loadOrCreatePeerKey :: "'k crypto \<Rightarrow> io_err option \<Rightarrow> io_plan \<Rightarrow> path \<Rightarrow> fs \<Rightarrow> fs \<times> (key_err + 'k)" where
  "loadOrCreatePeerKey cr rd pl p s = (case rd of
     Some e \<Rightarrow> (s, Inl (ReadingKey e))
   | None \<Rightarrow> (case read_file s p of
       Some data \<Rightarrow> (s, case UnmarshalPrivateKey cr data of None \<Rightarrow> Inl BadKeyFile | Some k \<Rightarrow> Inr k)
     | None \<Rightarrow> (case GenerateEd25519Key cr of
         None \<Rightarrow> (s, Inl GeneratingKey)
       | Some k \<Rightarrow> (case MarshalPrivateKey cr k of
           None \<Rightarrow> (s, Inl MarshalingKey)
         | Some out \<Rightarrow> (case os_WriteFile pl s p out of
             (s', Some e) \<Rightarrow> (s', Inl (PersistingKey e))
           | (s', None) \<Rightarrow> (s', Inr k))))))"

section \<open>The host\<close>

text \<open>What the outside world answers while a node is set up. \<open>a_libp2p\<close> is an error of \<open>libp2p.New\<close>;
  \<open>a_dht\<close> says whether it had called the \<open>Routing\<close> option, and that had constructed the DHT, when it returned.\<close>

record ('p, 'k) setup_answers =
  a_mkdir :: "io_err option"
  a_repo :: "string option"
  a_crypto :: "'k crypto"
  a_key_read :: "io_err option"
  a_key_write :: io_plan
  a_libp2p :: "string option"
  a_dht :: bool
  a_peer_id :: 'p
  a_gateway :: "string option"
  a_pubsub :: "string option"
  a_join :: "string option"
  a_subscribe :: "string option"

datatype setup_err =
    DataDirRequired
  | CreatingRepoDir io_err
  | OpeningRepo string
  | PeerIdentity key_err
  | Libp2pFailed string
  | DHTNotConstructed
  | BitswapFailed string
  | StartingGateway string

text \<open>The options for \<open>libp2p.New\<close>; the addresses are libp2p's own if none are given.\<close>

datatype 'k libp2p_option =
    Identity 'k
  | NATPortMap
  | EnableNATService
  | EnableHolePunching
  | EnableRelay
  | ListenAddrStrings "string list"
  | DHTRoutingClient

definition host_options :: "'k \<Rightarrow> string list \<Rightarrow> 'k libp2p_option list" where
  "host_options priv listenAddrs =
     (let opts = [Identity priv, NATPortMap, EnableNATService, EnableHolePunching, EnableRelay];
          opts = (if 0 < length listenAddrs then opts @ [ListenAddrStrings listenAddrs] else opts)
      in opts @ [DHTRoutingClient])"

text \<open>\<open>addrInfoFromString\<close>: a multiaddress whose tail is \<open>/p2p/<id>\<close>. Both parsers are libp2p's.\<close>

definition addrInfoFromString :: "(string \<Rightarrow> string + 'm) \<Rightarrow> ('m \<Rightarrow> string + 'i) \<Rightarrow> string \<Rightarrow> string + 'i" where
  "addrInfoFromString NewMultiaddr AddrInfoFromP2pAddr s = (case NewMultiaddr s of
     Inl e \<Rightarrow> Inl e
   | Inr addr \<Rightarrow> AddrInfoFromP2pAddr addr)"

text \<open>The bootstrap dial, which runs beside the rest of the start: the peers that are dialled, and the log line.\<close>

datatype 'i dial_log =
    InvalidAddr string string
  | DialFailed string
  | BootstrapConnected 'i

definition bootstrap_dial :: "(string \<Rightarrow> string + 'm) \<Rightarrow> ('m \<Rightarrow> string + 'i) \<Rightarrow> ('i \<Rightarrow> string option) \<Rightarrow> string
    \<Rightarrow> 'i list \<times> 'i dial_log option" where
  "bootstrap_dial NewMultiaddr AddrInfoFromP2pAddr Connect bootstrapAddr =
     (if bootstrapAddr = [] then ([], None)
      else (case addrInfoFromString NewMultiaddr AddrInfoFromP2pAddr bootstrapAddr of
         Inl err \<Rightarrow> ([], Some (InvalidAddr bootstrapAddr err))
       | Inr ai \<Rightarrow> (case Connect ai of
           Some err \<Rightarrow> ([ai], Some (DialFailed err))
         | None \<Rightarrow> ([ai], Some (BootstrapConnected ai)))))"

text \<open>\<open>newLibp2pHost\<close>. It does not wait for the dial; that and a failed bootstrap of the DHT only log.\<close>

definition newLibp2pHost :: "('p, 'k) setup_answers \<Rightarrow> path \<Rightarrow> fs \<Rightarrow> fs \<times> effect list \<times> (setup_err + 'k)" where
  "newLibp2pHost a repoDir s =
     (case loadOrCreatePeerKey (a_crypto a) (a_key_read a) (a_key_write a) (filepath_Join repoDir ''peer.key'') s of
        (s', Inl e) \<Rightarrow> (s', [], Inl (PeerIdentity e))
      | (s', Inr priv) \<Rightarrow> (case a_libp2p a of
          Some e \<Rightarrow> (s', if a_dht a then [Opened DHTRouting] else [], Inl (Libp2pFailed e))
        | None \<Rightarrow>
            if \<not> a_dht a then (s', [Opened Libp2pHost, Closed Libp2pHost], Inl DHTNotConstructed)
            else (s', [Opened Libp2pHost, Opened DHTRouting], Inr priv)))"

text \<open>\<open>openRepo\<close>: an error of flatfs leaves nothing open.\<close>

definition openRepo :: "('p, 'k) setup_answers \<Rightarrow> effect list \<times> string option" where
  "openRepo a = (case a_repo a of Some e \<Rightarrow> ([], Some e) | None \<Rightarrow> ([Opened Datastore], None))"

text \<open>\<open>newBitswap\<close> has an error result but never returns one.\<close>

definition newBitswap :: "effect list \<times> string option" where
  "newBitswap = ([Opened BitswapExchange], None)"

text \<open>\<open>startGateway\<close>: an error of boxo's backend, or of \<open>net.Listen\<close>.\<close>

definition startGateway :: "('p, 'k) setup_answers \<Rightarrow> effect list \<times> string option" where
  "startGateway a = (case a_gateway a of Some e \<Rightarrow> ([], Some e) | None \<Rightarrow> ([Opened GatewayServer], None))"

section \<open>The node\<close>

record IPFSNodeOptions =
  n_DataDir :: string
  n_GatewayBind :: string
  n_Libp2pListen :: "string list"
  n_PEvOMainLibp2pAddr :: string
  n_BitswapTimeout :: int
  n_PEvOMainGatewayURL :: string
  n_FallbackGateways :: "string list"
  n_MaxPinBytes :: "64 word"
  n_MeshAppTag :: string
  n_MeshPublicGatewayURL :: string
  n_MeshHeartbeatInterval :: int
  n_MeshCacheTTL :: int
  n_MeshAdvertiseDisabled :: bool
  n_MeshAllowPrivate :: bool

definition defaultBitswapTimeout :: int where
  "defaultBitswapTimeout = 60 * 10 ^ 9"

definition defaultGatewayBind :: string where
  "defaultGatewayBind = ''127.0.0.1:8080''"

definition with_defaults :: "IPFSNodeOptions \<Rightarrow> IPFSNodeOptions" where
  "with_defaults o1 =
     (let o2 = (if n_GatewayBind o1 = [] then o1\<lparr>n_GatewayBind := defaultGatewayBind\<rparr> else o1);
          o3 = (if n_BitswapTimeout o2 = 0 then o2\<lparr>n_BitswapTimeout := defaultBitswapTimeout\<rparr> else o2)
      in if n_MaxPinBytes o3 = 0 then o3\<lparr>n_MaxPinBytes := defaultMaxPinBytes\<rparr> else o3)"

text \<open>\<open>e_trace\<close> is what has been opened and closed for this node.\<close>

record ('p, 'a, 'k) embedded =
  e_node :: node
  e_gatewayBind :: string
  e_chain :: chain_conf
  e_bitswapTimeout :: int
  e_maxPinBytes :: "64 word"
  e_key :: 'k
  e_mesh :: "('p, 'a) meshManager option"
  e_closed :: bool
  e_trace :: "effect list"

definition mesh_options :: "IPFSNodeOptions \<Rightarrow> MeshOptions" where
  "mesh_options opts = \<lparr>o_AppTag = n_MeshAppTag opts, o_GatewayURL = n_MeshPublicGatewayURL opts,
     o_Interval = n_MeshHeartbeatInterval opts, o_CacheTTL = n_MeshCacheTTL opts,
     o_AdvertiseOff = n_MeshAdvertiseDisabled opts, o_AllowPrivateGateways = n_MeshAllowPrivate opts\<rparr>"

section \<open>Stopping\<close>

text \<open>What the parts answer when they are closed.\<close>

record close_answers =
  c_server :: "string option"
  c_bitswap :: "string option"
  c_dht :: "string option"
  c_host :: "string option"
  c_datastore :: "string option"

definition shutdownInternals :: "close_answers \<Rightarrow> ('p, 'a, 'k) embedded \<Rightarrow> ('p, 'a, 'k) embedded \<times> string option" where
  "shutdownInternals c n =
     (n\<lparr>e_mesh := map_option mesh_Stop (e_mesh n),
        e_trace := e_trace n @ (if e_mesh n \<noteq> None then [Closed MeshManager] else [])
          @ [Closed BitswapExchange, Closed DHTRouting, Closed Libp2pHost, Closed Datastore]\<rparr>,
      first_error [c_bitswap c, c_dht c, c_host c, c_datastore c])"

text \<open>\<open>closeOnce\<close>: only the first call does anything.\<close>

definition node_Close :: "close_answers \<Rightarrow> ('p, 'a, 'k) embedded \<Rightarrow> ('p, 'a, 'k) embedded \<times> string option" where
  "node_Close c n =
     (if e_closed n then (n, None)
      else (let n1 = n\<lparr>e_closed := True, e_node := (e_node n)\<lparr>done_closed := True\<rparr>,
                       e_trace := e_trace n @ [Closed GatewayServer]\<rparr>
            in case shutdownInternals c n1 of (n2, err) \<Rightarrow>
                 (n2, case c_server c of Some e \<Rightarrow> Some e | None \<Rightarrow> err)))"

section \<open>Starting\<close>

definition start_mesh_of :: "('p, 'k) setup_answers \<Rightarrow> IPFSNodeOptions \<Rightarrow> ('p, 'a, 'k) embedded \<Rightarrow> ('p, 'a, 'k) embedded" where
  "start_mesh_of a opts n =
     (if n_MeshAppTag opts = [] then n
      else (case startMesh (a_peer_id a) (mesh_options opts) (a_pubsub a) (a_join a) (a_subscribe a) of
         Inl _ \<Rightarrow> n
       | Inr m \<Rightarrow> n\<lparr>e_mesh := Some m, e_trace := e_trace n @ [Opened MeshManager]\<rparr>))"

text \<open>The file system, what was opened and closed, and the node or the error. The pin file and the key are
  read and written on the file system \<open>s\<close>; \<open>c\<close> is what the parts answer when a failed start closes them.\<close>

definition NewEmbeddedNode :: "('p, 'k) setup_answers \<Rightarrow> close_answers \<Rightarrow> IPFSNodeOptions \<Rightarrow> fs
    \<Rightarrow> fs \<times> effect list \<times> (setup_err + ('p, 'a, 'k) embedded)" where
  "NewEmbeddedNode a c opts0 s =
     (if n_DataDir opts0 = [] then (s, [], Inl DataDirRequired)
      else (let opts = with_defaults opts0; repoDir = filepath_Join (n_DataDir opts) ''ipfs-repo'' in
        case a_mkdir a of
          Some e \<Rightarrow> (s, [], Inl (CreatingRepoDir e))
        | None \<Rightarrow> (case openRepo a of
            (tr1, Some e) \<Rightarrow> (s, tr1, Inl (OpeningRepo e))
          | (tr1, None) \<Rightarrow> (case newLibp2pHost a repoDir s of
              (s', tr2, Inl e) \<Rightarrow> (s', tr1 @ tr2 @ [Closed Datastore], Inl e)
            | (s', tr2, Inr priv) \<Rightarrow> (case newBitswap of
                (tr3, Some e) \<Rightarrow> (s', tr1 @ tr2 @ tr3 @ [Closed Libp2pHost, Closed Datastore], Inl (BitswapFailed e))
              | (tr3, None) \<Rightarrow>
                 (let n = \<lparr>e_node = open_node s' (filepath_Join (n_DataDir opts) ''pins.json''), e_gatewayBind = n_GatewayBind opts,
                        e_chain = static_chain (n_PEvOMainGatewayURL opts) (n_FallbackGateways opts),
                        e_bitswapTimeout = n_BitswapTimeout opts, e_maxPinBytes = n_MaxPinBytes opts, e_key = priv,
                        e_mesh = None, e_closed = False, e_trace = tr1 @ tr2 @ tr3\<rparr>
                  in case startGateway a of
                       (tr4, Some e) \<Rightarrow> (s', e_trace (fst (shutdownInternals c (n\<lparr>e_trace := e_trace n @ tr4\<rparr>))), Inl (StartingGateway e))
                     | (tr4, None) \<Rightarrow>
                        (let n' = start_mesh_of a opts (n\<lparr>e_trace := e_trace n @ tr4\<rparr>) in (s', e_trace n', Inr n'))))))))"

section \<open>Facts\<close>

lemma still_open_append: "still_open R (xs @ ys) = still_open (still_open R xs) ys"
  by (induction R xs rule: still_open.induct) auto

lemma first_error_None: "first_error xs = None \<longleftrightarrow> (\<forall>x \<in> set xs. x = None)"
  by (induction xs rule: first_error.induct) auto

lemma os_WriteFile_ok:
  assumes "os_WriteFile pl s p data = (s', None)"
  shows "read_file s' p = Some data"
proof -
  obtain s1 f where o: "open_trunc p s = (s1, f)" by fastforce
  have "s' = write_at f 0 data s1" using assms o by (auto simp: os_WriteFile_def split: option.splits)
  then show ?thesis
    using open_trunc_names [OF o] open_trunc_content [OF o] by (simp add: read_file_def write_at_def splice_def)
qed

lemma peer_key_persists:
  assumes "loadOrCreatePeerKey cr rd pl p s = (s', Inr k)"
    "\<And>k out. MarshalPrivateKey cr k = Some out \<Longrightarrow> UnmarshalPrivateKey cr out = Some k"
  shows "\<exists>data. read_file s' p = Some data \<and> UnmarshalPrivateKey cr data = Some k"
  using assms(1) by (auto simp: loadOrCreatePeerKey_def dest: os_WriteFile_ok intro: assms(2) split: option.splits prod.splits)

text \<open>The dial goes to the peer of the configured address and to no other.\<close>

lemma bootstrap_dials_configured:
  "set (fst (bootstrap_dial nm ai con addr)) = {i. addr \<noteq> [] \<and> addrInfoFromString nm ai addr = Inr i}"
  "snd (bootstrap_dial nm ai con addr) = None \<longleftrightarrow> addr = []"
  by (auto simp: bootstrap_dial_def split: sum.splits option.splits if_splits)

text \<open>What a start got past when it succeeded.\<close>

lemma NewEmbeddedNode_Inr:
  assumes "NewEmbeddedNode a c opts s = (s', tr, Inr n)"
  obtains n0 where "n_DataDir opts \<noteq> []" "n = start_mesh_of a (with_defaults opts) n0"
    "newLibp2pHost a (filepath_Join (n_DataDir opts) ''ipfs-repo'') s = (s', [Opened Libp2pHost, Opened DHTRouting], Inr (e_key n0))"
    "e_trace n0 = [Opened Datastore, Opened Libp2pHost, Opened DHTRouting, Opened BitswapExchange, Opened GatewayServer]"
    "e_mesh n0 = None" "\<not> e_closed n0" "tr = e_trace n" "e_gatewayBind n0 = n_GatewayBind (with_defaults opts)"
    "e_bitswapTimeout n0 = n_BitswapTimeout (with_defaults opts)" "e_maxPinBytes n0 = n_MaxPinBytes (with_defaults opts)"
    "e_chain n0 = static_chain (n_PEvOMainGatewayURL opts) (n_FallbackGateways opts)"
    "e_node n0 = open_node s' (filepath_Join (n_DataDir opts) ''pins.json'')"
proof -
  have same: "n_DataDir (with_defaults opts) = n_DataDir opts" "n_PEvOMainGatewayURL (with_defaults opts) = n_PEvOMainGatewayURL opts"
    "n_FallbackGateways (with_defaults opts) = n_FallbackGateways opts" by (simp_all add: with_defaults_def Let_def)
  have d: "n_DataDir opts \<noteq> []" using assms by (auto simp: NewEmbeddedNode_def)
  have r: "a_mkdir a = None" "openRepo a = ([Opened Datastore], None)"
    using assms d by (auto simp: NewEmbeddedNode_def openRepo_def Let_def split: option.splits)
  obtain priv where h: "newLibp2pHost a (filepath_Join (n_DataDir opts) ''ipfs-repo'') s = (s', [Opened Libp2pHost, Opened DHTRouting], Inr priv)"
    using assms d r by (auto simp: NewEmbeddedNode_def newLibp2pHost_def Let_def same newBitswap_def startGateway_def
        split: option.splits prod.splits sum.splits if_splits)
  have g: "startGateway a = ([Opened GatewayServer], None)"
    using assms d r h by (auto simp: NewEmbeddedNode_def Let_def same newBitswap_def startGateway_def split: option.splits)
  from assms d r h g show ?thesis
    by (intro that [of "\<lparr>e_node = open_node s' (filepath_Join (n_DataDir opts) ''pins.json''), e_gatewayBind = n_GatewayBind (with_defaults opts),
        e_chain = static_chain (n_PEvOMainGatewayURL opts) (n_FallbackGateways opts),
        e_bitswapTimeout = n_BitswapTimeout (with_defaults opts), e_maxPinBytes = n_MaxPinBytes (with_defaults opts), e_key = priv,
        e_mesh = None, e_closed = False,
        e_trace = [Opened Datastore, Opened Libp2pHost, Opened DHTRouting, Opened BitswapExchange, Opened GatewayServer]\<rparr>"])
       (auto simp: NewEmbeddedNode_def Let_def same newBitswap_def)
qed

text \<open>\<open>os.WriteFile\<close> is not \<open>atomicWriteFile\<close>: if a first start is interrupted while it writes the key, what it
  wrote stays, and when that does not parse, every later start fails until someone removes the file.\<close>

lemma torn_peer_key_is_fatal:
  assumes "loadOrCreatePeerKey cr rd pl p s = (s', Inl (PersistingKey e))" "write_err pl = Some (n, x)"
    "\<And>m out k. MarshalPrivateKey cr k = Some out \<Longrightarrow> UnmarshalPrivateKey cr (take n out) = None" "open_err pl = None"
  shows "loadOrCreatePeerKey cr None pl' p s' = (s', Inl BadKeyFile)"
proof -
  obtain k out where k: "MarshalPrivateKey cr k = Some out" "os_WriteFile pl s p out = (s', Some e)"
    using assms(1) by (auto simp: loadOrCreatePeerKey_def split: option.splits prod.splits)
  obtain s1 f where o: "open_trunc p s = (s1, f)" by fastforce
  have "s' = write_at f 0 (take n out) s1" using k(2) o assms(2,4) by (simp add: os_WriteFile_def)
  then have "read_file s' p = Some (take n out)"
    using open_trunc_names [OF o] open_trunc_content [OF o] by (simp add: read_file_def write_at_def splice_def)
  then show ?thesis using assms(3) [OF k(1)] by (simp add: loadOrCreatePeerKey_def)
qed

text \<open>For a node that was started, however its pins and its mesh have changed since.\<close>

lemma node_Close_releases:
  assumes "NewEmbeddedNode a c0 opts s = (s', tr, Inr n)"
    "e_trace n1 = e_trace n" "e_closed n1 = e_closed n" "e_mesh n1 = None \<longleftrightarrow> e_mesh n = None" "node_Close c n1 = (n2, err)"
  shows "still_open {} (e_trace n2) = {}
   \<and> (\<forall>m. e_mesh n2 = Some m \<longrightarrow> mm_stopped m)
   \<and> node_Pin env (e_node n2) cid = (e_node n2, Some ErrPinnerShuttingDown) \<and> pins (e_node n2) = pins (e_node n1)
   \<and> err = first_error [c_server c, c_bitswap c, c_dht c, c_host c, c_datastore c] \<and> node_Close c' n2 = (n2, None)"
proof -
  obtain n0 where n: "n = start_mesh_of a (with_defaults opts) n0" and
    tr: "e_trace n0 = [Opened Datastore, Opened Libp2pHost, Opened DHTRouting, Opened BitswapExchange, Opened GatewayServer]" and
    m: "e_mesh n0 = None" "\<not> e_closed n0"
    by (rule NewEmbeddedNode_Inr [OF assms(1)]) (rule that)
  have o: "\<not> e_closed n1" using assms(3) m(2) by (auto simp: n start_mesh_of_def split: sum.splits)
  have t: "still_open {} (e_trace n1) = {Datastore, Libp2pHost, DHTRouting, BitswapExchange, GatewayServer}
      \<union> (if e_mesh n1 = None then {} else {MeshManager})"
    using assms(2,4) m by (auto simp: n start_mesh_of_def tr split: sum.splits)
  have n2: "n2 = fst (shutdownInternals c (n1\<lparr>e_closed := True, e_node := (e_node n1)\<lparr>done_closed := True\<rparr>,
      e_trace := e_trace n1 @ [Closed GatewayServer]\<rparr>))"
    and err: "err = first_error [c_server c, c_bitswap c, c_dht c, c_host c, c_datastore c]"
    using assms(5) o by (cases "c_server c"; auto simp: node_Close_def shutdownInternals_def Let_def)+
  have c2: "e_closed n2" "done_closed (e_node n2)" "pins (e_node n2) = pins (e_node n1)"
    "e_mesh n2 = map_option mesh_Stop (e_mesh n1)" by (simp_all add: n2 shutdownInternals_def)
  have "still_open {} (e_trace n2) = {}"
    by (cases "e_mesh n1") (auto simp: n2 shutdownInternals_def still_open_append t)
  moreover have "node_Pin env (e_node n2) cid = (e_node n2, Some ErrPinnerShuttingDown)"
    using c2(2) by (cases env) (simp add: node_Pin_def)
  moreover have "\<forall>m. e_mesh n2 = Some m \<longrightarrow> mm_stopped m" by (cases "e_mesh n1") (use c2(4) in \<open>simp_all add: mesh_Stop_def\<close>)
  ultimately show ?thesis using c2 err by (auto simp: node_Close_def)
qed

section \<open>Properties\<close>

definition demo_crypto :: "bytes crypto" where
  "demo_crypto = \<lparr>GenerateEd25519Key = Some ''seed'', MarshalPrivateKey = (\<lambda>k. Some (CHR ''1'' # k)),
     UnmarshalPrivateKey = (\<lambda>b. if b = [] then None else Some (tl b))\<rparr>"

definition demo_answers :: "(string, bytes) setup_answers" where
  "demo_answers = \<lparr>a_mkdir = None, a_repo = None, a_crypto = demo_crypto, a_key_read = None, a_key_write = plan_ok,
     a_libp2p = None, a_dht = True, a_peer_id = ''me'', a_gateway = None, a_pubsub = None, a_join = None, a_subscribe = None\<rparr>"

lemma demo_parts [simp]:
  "a_mkdir demo_answers = None" "openRepo demo_answers = ([Opened Datastore], None)"
  "startGateway demo_answers = ([Opened GatewayServer], None)"
  "openRepo (demo_answers\<lparr>a_gateway := g\<rparr>) = ([Opened Datastore], None)"
  "startGateway (demo_answers\<lparr>a_gateway := Some e\<rparr>) = ([], Some e)"
  by (simp_all add: demo_answers_def openRepo_def startGateway_def)

definition demo_closing :: close_answers where
  "demo_closing = \<lparr>c_server = None, c_bitswap = None, c_dht = Some ''dht'', c_host = None, c_datastore = Some ''flatfs''\<rparr>"

definition demo_node_options :: IPFSNodeOptions where
  "demo_node_options = \<lparr>n_DataDir = ''/d'', n_GatewayBind = [], n_Libp2pListen = [], n_PEvOMainLibp2pAddr = [], n_BitswapTimeout = 0,
     n_PEvOMainGatewayURL = [], n_FallbackGateways = [], n_MaxPinBytes = 0, n_MeshAppTag = ''app'', n_MeshPublicGatewayURL = [],
     n_MeshHeartbeatInterval = 0, n_MeshCacheTTL = 0, n_MeshAdvertiseDisabled = False, n_MeshAllowPrivate = False\<rparr>"

abbreviation key_file :: "string \<Rightarrow> path" where
  "key_file dir \<equiv> filepath_Join (filepath_Join dir ''ipfs-repo'') ''peer.key''"

abbreviation "start_with \<equiv> (NewEmbeddedNode demo_answers :: close_answers \<Rightarrow> IPFSNodeOptions
    \<Rightarrow> fs \<Rightarrow> fs \<times> effect list \<times> (setup_err + (string, string, bytes) embedded))"

abbreviation "demo_start c \<equiv> start_with c demo_node_options"

lemma demo_starts_with:
  assumes "read_file s (key_file (n_DataDir opts)) \<noteq> Some []" "n_DataDir opts \<noteq> []"
  obtains s' tr n where "start_with c opts s = (s', tr, Inr n)"
proof -
  have dir: "n_DataDir (with_defaults opts) = n_DataDir opts"
    by (simp add: with_defaults_def Let_def)
  obtain s1 where w: "os_WriteFile plan_ok s (key_file (n_DataDir opts)) (CHR ''1'' # ''seed'') = (s1, None)"
    by (cases "open_trunc (key_file (n_DataDir opts)) s") (simp add: os_WriteFile_def plan_ok_def)
  obtain s' k where "loadOrCreatePeerKey demo_crypto None plan_ok (key_file (n_DataDir opts)) s = (s', Inr k)"
    using assms(1) w by (cases "read_file s (key_file (n_DataDir opts))") (auto simp: loadOrCreatePeerKey_def demo_crypto_def)
  then have "newLibp2pHost demo_answers (filepath_Join (n_DataDir opts) ''ipfs-repo'') s = (s', [Opened Libp2pHost, Opened DHTRouting], Inr k)"
    by (simp add: newLibp2pHost_def demo_answers_def)
  then show ?thesis
    using that assms(2) by (simp add: NewEmbeddedNode_def dir Let_def newBitswap_def)
qed

lemma demo_starts:
  assumes "read_file s (key_file ''/d'') \<noteq> Some []"
  obtains s' tr n where "demo_start c s = (s', tr, Inr n)"
  using demo_starts_with [of s demo_node_options c] assms by (auto simp: demo_node_options_def)

lemma demo_fresh: "read_file empty_fs p \<noteq> Some []"
  by (simp add: read_file_def empty_fs_def)

section \<open>Properties\<close>

text \<open>
  C27: a start that fails leaves nothing open. Whatever fails on the way (the directory, the
  repository, the peer key, libp2p, the gateway), every part that was opened before has been closed when
  \<open>NewEmbeddedNode\<close> returns the error. The one exception is a DHT that the \<open>Routing\<close> option had constructed
  before \<open>libp2p.New\<close> failed: nothing of this repository closes it.
\<close>

theorem failed_start_releases_all:
  assumes "NewEmbeddedNode a c opts s = (s', tr, Inl e)"
  shows "still_open {} tr = (case e of Libp2pFailed x \<Rightarrow> if a_dht a then {DHTRouting} else {} | _ \<Rightarrow> {})"
  using assms
  by (auto simp: NewEmbeddedNode_def Let_def openRepo_def newBitswap_def startGateway_def shutdownInternals_def newLibp2pHost_def
      split: if_splits option.splits prod.splits sum.splits)

theorem failed_start_releases_all_witness:
  "\<exists>s' tr. NewEmbeddedNode (demo_answers\<lparr>a_gateway := Some ''address in use''\<rparr>) demo_closing demo_node_options empty_fs
       = (s', tr, Inl (StartingGateway ''address in use'') :: setup_err + (string, string, bytes) embedded)
     \<and> Opened Libp2pHost \<in> set tr \<and> still_open {} tr = {}"
proof -
  obtain s' tr n where "demo_start demo_closing empty_fs = (s', tr, Inr n)" by (rule demo_starts [OF demo_fresh])
  then obtain k where "newLibp2pHost demo_answers (filepath_Join (n_DataDir demo_node_options) ''ipfs-repo'') empty_fs
      = (s', [Opened Libp2pHost, Opened DHTRouting], Inr k)"
    by (rule NewEmbeddedNode_Inr) (rule that)
  moreover have "newLibp2pHost (a\<lparr>a_gateway := g\<rparr>) = newLibp2pHost a" for a :: "(string, bytes) setup_answers" and g
    by (simp add: newLibp2pHost_def fun_eq_iff split: prod.split sum.split option.split)
  ultimately have "newLibp2pHost (demo_answers\<lparr>a_gateway := Some ''address in use''\<rparr>) (filepath_Join (n_DataDir demo_node_options) ''ipfs-repo'') empty_fs
      = (s', [Opened Libp2pHost, Opened DHTRouting], Inr k)"
    by simp
  moreover have "n_DataDir (with_defaults demo_node_options) = n_DataDir demo_node_options" "n_DataDir demo_node_options \<noteq> []"
    by (simp_all add: with_defaults_def demo_node_options_def Let_def)
  ultimately obtain tr' where e: "NewEmbeddedNode (demo_answers\<lparr>a_gateway := Some ''address in use''\<rparr>) demo_closing demo_node_options empty_fs
      = (s', tr', Inl (StartingGateway ''address in use'') :: setup_err + (string, string, bytes) embedded)" "Opened Libp2pHost \<in> set tr'"
    by (simp add: NewEmbeddedNode_def Let_def newBitswap_def shutdownInternals_def)
  with failed_start_releases_all [OF e(1)] show ?thesis by auto
qed

text \<open>
  C30: the node keeps its identity. If marshaled keys unmarshal to themselves, the key that a
  successful start created or read is the key of every later start on a file system whose key file has
  the same content, whatever was generated and answered then.
\<close>

theorem identity_survives_restart:
  assumes "NewEmbeddedNode a c opts s = (s', tr, Inr n)" "NewEmbeddedNode a2 c2 opts2 s2 = (s2', tr2, Inr n2)"
    "\<And>k out. MarshalPrivateKey (a_crypto a) k = Some out \<Longrightarrow> UnmarshalPrivateKey (a_crypto a) out = Some k"
    "UnmarshalPrivateKey (a_crypto a2) = UnmarshalPrivateKey (a_crypto a)" "n_DataDir opts2 = n_DataDir opts"
    "read_file s2 (filepath_Join (filepath_Join (n_DataDir opts) ''ipfs-repo'') ''peer.key'')
      = read_file s' (filepath_Join (filepath_Join (n_DataDir opts) ''ipfs-repo'') ''peer.key'')"
  shows "e_key n2 = e_key n"
proof -
  let ?dir = "filepath_Join (n_DataDir opts) ''ipfs-repo''"
  have key: "e_key (start_mesh_of b opt n) = e_key n" for b opt and n :: "('x, 'y, 'z) embedded"
    by (simp add: start_mesh_of_def split: sum.split)
  obtain h t where "newLibp2pHost a ?dir s = (s', t, Inr (e_key n))"
    by (rule NewEmbeddedNode_Inr [OF assms(1)]) (use that key in metis)
  then have "loadOrCreatePeerKey (a_crypto a) (a_key_read a) (a_key_write a) (filepath_Join ?dir ''peer.key'') s = (s', Inr (e_key n))"
    by (auto simp: newLibp2pHost_def split: prod.splits sum.splits if_splits option.splits)
  from peer_key_persists [OF this assms(3)] obtain data
    where d: "read_file s2 (filepath_Join ?dir ''peer.key'') = Some data" "UnmarshalPrivateKey (a_crypto a2) data = Some (e_key n)"
    using assms(4,6) by auto
  obtain t2 where "newLibp2pHost a2 ?dir s2 = (s2', t2, Inr (e_key n2))"
    by (rule NewEmbeddedNode_Inr [OF assms(2)]) (use that key assms(5) in metis)
  with d show ?thesis
    by (auto simp: newLibp2pHost_def loadOrCreatePeerKey_def split: prod.splits sum.splits if_splits option.splits)
qed

theorem identity_survives_restart_witness:
  "\<exists>s' tr n s2' tr2 n2. demo_start demo_closing empty_fs = (s', tr, Inr n) \<and> demo_start demo_closing s' = (s2', tr2, Inr n2)
     \<and> e_key n2 = e_key n"
proof -
  obtain s' tr n where s: "demo_start demo_closing empty_fs = (s', tr, Inr n)" by (rule demo_starts [OF demo_fresh])
  have law: "UnmarshalPrivateKey (a_crypto demo_answers) out = Some k" if "MarshalPrivateKey (a_crypto demo_answers) k = Some out" for k out
    using that by (auto simp: demo_answers_def demo_crypto_def)
  obtain tr1 where "newLibp2pHost demo_answers (filepath_Join (n_DataDir demo_node_options) ''ipfs-repo'') empty_fs = (s', tr1, Inr (e_key n))"
    by (rule NewEmbeddedNode_Inr [OF s]) (use that in \<open>simp add: start_mesh_of_def split: sum.splits\<close>)
  then have "loadOrCreatePeerKey demo_crypto None plan_ok (key_file ''/d'') empty_fs = (s', Inr (e_key n))"
    by (auto simp: newLibp2pHost_def demo_answers_def demo_node_options_def split: prod.splits sum.splits)
  from peer_key_persists [OF this] have "read_file s' (key_file ''/d'') \<noteq> Some []"
    by (auto simp: demo_crypto_def)
  then obtain s2' tr2 n2 where s2: "demo_start demo_closing s' = (s2', tr2, Inr n2)" by (rule demo_starts)
  from identity_survives_restart [OF s s2 law refl refl refl] s s2 show ?thesis by blast
qed

end
