(* ===== verification/DiscoverySetup.thy ===== *)
theory DiscoverySetup
  imports Discovery Url "HOL-Library.List_Lexorder" "HOL-Library.Char_ord"
begin

text \<open>
  The rest of \<open>discovery.go\<close>: \<open>buildDiscoveryQuery\<close>, which writes the application tag into the text of the
  query, and \<open>NewDiscovery\<close>, which adds \<open>sslmode=disable\<close> to the database URL. \<open>pq.QuoteLiteral\<close> is
  third-party: a parameter. \<open>url.Values\<close> is Go's, modelled as the list of its pairs.
\<close>

section \<open>The query\<close>

definition newline :: string where
  "newline = [CHR 0x0A]"

definition quoted :: "string \<Rightarrow> string" where
  "quoted s = CHR 0x27 # s @ [CHR 0x27]"

definition buildDiscoveryQuery :: "(string \<Rightarrow> string) \<Rightarrow> string \<Rightarrow> string" where
  "buildDiscoveryQuery QuoteLiteral appTag =
     (let t = QuoteLiteral appTag; p = QuoteLiteral (appTag @ ''%'') in
      newline
      @ ''SELECT c.author, c.permlink, c.title,'' @ newline
      @ ''       c.json_metadata -> '' @ t @ '' ->> '' @ quoted ''ipfs_cid'' @ '' AS ipfs_cid,'' @ newline
      @ ''       c.json_metadata -> '' @ t @ '' ->> '' @ quoted ''ipfs_filename'' @ '' AS filename,'' @ newline
      @ ''       c.json_metadata -> '' @ t @ '' ->> '' @ quoted ''discipline'' @ '' AS discipline,'' @ newline
      @ ''       c.json_metadata -> '' @ t @ '' -> '' @ quoted ''supplementary_files'' @ '' AS supplementary_files,'' @ newline
      @ ''       c.body,'' @ newline
      @ ''       '' @ quoted ''paper'' @ '' AS cid_type,'' @ newline
      @ ''       c.created'' @ newline
      @ ''FROM hafsql.comments c'' @ newline
      @ ''WHERE c.parent_author = '' @ quoted [] @ newline
      @ ''  AND c.parent_permlink = '' @ t @ newline
      @ ''  AND (c.json_metadata -> '' @ t @ '' ->> '' @ quoted ''type'' @ '') IN ('' @ quoted ''paper'' @ '', '' @ quoted ''bridge_paper'' @ '')'' @ newline
      @ ''  AND c.json_metadata ->> '' @ quoted ''app'' @ '' LIKE '' @ p @ newline
      @ ''  AND c.json_metadata -> '' @ t @ '' ->> '' @ quoted ''ipfs_cid'' @ '' IS NOT NULL'' @ newline
      @ ''ORDER BY c.created DESC'' @ newline)"

section \<open>The database URL\<close>

type_synonym url_values = "(string \<times> string) list"

text \<open>\<open>url.ParseQuery\<close> as \<open>URL.Query\<close> uses it: a setting with a semicolon or a malformed escape is dropped.\<close>

definition parse_setting :: "string \<Rightarrow> (string \<times> string) option" where
  "parse_setting s =
     (if CHR '';'' \<in> set s \<or> s = [] then None
      else (case Cut s ''='' of (k, v, _) \<Rightarrow>
        (case (unescape encodeQueryComponent k, unescape encodeQueryComponent v) of
           (Some k', Some v') \<Rightarrow> Some (k', v')
         | _ \<Rightarrow> None)))"

definition Query :: "URL \<Rightarrow> url_values" where
  "Query u = List.map_filter parse_setting (split_on (CHR ''&'') (RawQuery u))"

definition values_of :: "string \<Rightarrow> url_values \<Rightarrow> string list" where
  "values_of k vs = map snd (filter (\<lambda>(k', _). k' = k) vs)"

definition Get :: "url_values \<Rightarrow> string \<Rightarrow> string" where
  "Get vs k = (case values_of k vs of [] \<Rightarrow> [] | v # _ \<Rightarrow> v)"

definition Set :: "string \<Rightarrow> string \<Rightarrow> url_values \<Rightarrow> url_values" where
  "Set k v vs = filter (\<lambda>(k', _). k' \<noteq> k) vs @ [(k, v)]"

definition setting_text :: "string \<times> string \<Rightarrow> string" where
  "setting_text kv = QueryEscape (fst kv) @ ''='' @ QueryEscape (snd kv)"

fun join_amp :: "string list \<Rightarrow> string" where
  "join_amp [] = []"
| "join_amp [x] = x"
| "join_amp (x # y # xs) = x @ ''&'' @ join_amp (y # xs)"

text \<open>\<open>Values.Encode\<close>: the keys in order, the values of a key in theirs.\<close>

definition by_key :: "url_values \<Rightarrow> url_values" where
  "by_key vs = concat (map (\<lambda>k. map (Pair k) (values_of k vs)) (sorted_list_of_set (fst ` set vs)))"

definition Encode :: "url_values \<Rightarrow> string" where
  "Encode vs = join_amp (map setting_text (by_key vs))"

definition with_sslmode :: "string \<Rightarrow> string" where
  "with_sslmode databaseURL = (case Parse databaseURL of
     None \<Rightarrow> databaseURL
   | Some u \<Rightarrow>
      if Get (Query u) ''sslmode'' = []
      then url_String (u\<lparr>RawQuery := Encode (Set ''sslmode'' ''disable'' (Query u))\<rparr>)
      else databaseURL)"

section \<open>The service\<close>

datatype db_err = OpeningDatabase string | PingingDatabase string

record DiscoveryConf =
  d_dsn :: string
  d_appTag :: string
  d_interval :: int

text \<open>\<open>open_err\<close> and \<open>ping_err\<close> are what \<open>lib/pq\<close> and the server answer for a data source. The second component
  says how many connection pools have been opened and not closed.\<close>

definition NewDiscovery :: "(string \<Rightarrow> string option) \<Rightarrow> (string \<Rightarrow> string option) \<Rightarrow> string \<Rightarrow> string \<Rightarrow> int
    \<Rightarrow> (db_err + DiscoveryConf) \<times> nat" where
  "NewDiscovery open_err ping_err databaseURL appTag interval =
     (let dsn = with_sslmode databaseURL in
      case open_err dsn of
        Some e \<Rightarrow> (Inl (OpeningDatabase e), 0)
      | None \<Rightarrow> (case ping_err dsn of
          Some e \<Rightarrow> (Inl (PingingDatabase e), 0)
        | None \<Rightarrow> (Inr \<lparr>d_dsn = dsn, d_appTag = appTag, d_interval = interval\<rparr>, 1)))"

section \<open>Facts: the encoding of a query\<close>

lemma hex_char: "n < 16 \<Longrightarrow> hex_digit (upper_hex n) = Some n"
proof -
  have "\<forall>n < 16. hex_digit (upper_hex n) = Some n" by code_simp
  then show "n < 16 \<Longrightarrow> ?thesis" by blast
qed

lemma unescape_pct: "unescape encodeQueryComponent (pct c @ s) = map_option ((#) c) (unescape encodeQueryComponent s)"
proof -
  have b: "byte_val c < 256" by (simp add: byte_val_def)
  have h: "hex_digit (upper_hex (byte_val c div 16)) = Some (byte_val c div 16)" "hex_digit (upper_hex (byte_val c mod 16)) = Some (byte_val c mod 16)"
    using b by (simp_all add: hex_char)
  then have "hex_pair (upper_hex (byte_val c div 16)) (upper_hex (byte_val c mod 16)) = byte_val c" by (simp add: hex_pair_def)
  moreover have "char_of (byte_val c) = c" by (simp add: byte_val_def)
  ultimately show ?thesis by (simp add: pct_def is_hex_def h pct_allowed_def)
qed

lemma unescape_escape: "unescape encodeQueryComponent (QueryEscape s) = Some s"
proof (induction s)
  case (Cons c s)
  have "QueryEscape (c # s) = (if c = CHR '' '' then ''+'' else if shouldEscape encodeQueryComponent c then pct c else [c]) @ QueryEscape s"
    by (simp add: QueryEscape_def escape_def)
  moreover have "shouldEscape encodeQueryComponent (CHR ''%'')" "shouldEscape encodeQueryComponent (CHR ''+'')" by code_simp+
  ultimately show ?case using Cons by (auto simp: unescape_pct host_mode_def)
qed (simp add: QueryEscape_def escape_def)

definition plain_char :: "char \<Rightarrow> bool" where
  "plain_char c \<longleftrightarrow> c \<notin> {CHR ''&'', CHR ''='', CHR '';''}"

lemma escape_plain: "list_all plain_char (QueryEscape s)"
proof (induction s)
  case (Cons c s)
  have "QueryEscape (c # s) = (if c = CHR '' '' then ''+'' else if shouldEscape encodeQueryComponent c then pct c else [c]) @ QueryEscape s"
    by (simp add: QueryEscape_def escape_def)
  moreover have "list_all plain_char (pct c)"
  proof -
    have "\<forall>n < 16. plain_char (upper_hex n)" by code_simp
    moreover have "byte_val c < 256" by (simp add: byte_val_def)
    ultimately show ?thesis by (simp add: pct_def plain_char_def)
  qed
  moreover have "shouldEscape encodeQueryComponent (CHR ''&'')" "shouldEscape encodeQueryComponent (CHR ''='')" "shouldEscape encodeQueryComponent (CHR '';'')"
    by code_simp+
  ultimately show ?case using Cons by (auto simp: plain_char_def list_all_iff)
qed (simp add: QueryEscape_def escape_def)

lemma parse_setting_text: "parse_setting (setting_text kv) = Some kv"
proof -
  have e: "CHR '';'' \<notin> set (QueryEscape x)" "CHR ''='' \<notin> set (QueryEscape x)" for x
    using escape_plain [of x] by (auto simp: list_all_iff plain_char_def)
  have "Cut (setting_text kv) ''='' = (QueryEscape (fst kv), QueryEscape (snd kv), True)"
    unfolding setting_text_def Cut_single using e by (simp add: takeWhile_component dropWhile_component HasPrefix_def)
  with e show ?thesis by (simp add: parse_setting_def setting_text_def unescape_escape)
qed

lemma setting_text_plain: "CHR ''&'' \<notin> set (setting_text kv)"
  using escape_plain by (auto simp: setting_text_def list_all_iff plain_char_def)

lemma split_join: "xs \<noteq> [] \<Longrightarrow> list_all (\<lambda>x. CHR ''&'' \<notin> set x) xs \<Longrightarrow> split_on (CHR ''&'') (join_amp xs) = xs"
proof (induction xs rule: join_amp.induct)
  case (2 x)
  then show ?case using split_on_append [of "CHR ''&''" x "[]"] by (simp add: split_on_def)
next
  case (3 x y xs)
  have "split_on (CHR ''&'') (''&'' @ s) = [] # split_on (CHR ''&'') s" for s by (simp add: split_on_def)
  with 3 show ?case using split_on_append [of "CHR ''&''" x "''&'' @ join_amp (y # xs)"] by simp
qed simp

lemma parse_encode: "by_key vs \<noteq> [] \<Longrightarrow> List.map_filter parse_setting (split_on (CHR ''&'') (Encode vs)) = by_key vs"
proof -
  assume "by_key vs \<noteq> []"
  then have "split_on (CHR ''&'') (Encode vs) = map setting_text (by_key vs)"
    unfolding Encode_def by (intro split_join) (simp_all add: list_all_iff setting_text_plain)
  then show ?thesis by (simp add: List.map_filter_def comp_def parse_setting_text)
qed

lemma values_of_concat:
  "distinct ks \<Longrightarrow> values_of k (concat (map (\<lambda>k. map (Pair k) (f k)) ks)) = (if k \<in> set ks then f k else [])"
  by (induction ks) (auto simp: values_of_def comp_def filter_empty_conv)

lemma values_of_by_key: "values_of k (by_key vs) = values_of k vs"
proof -
  have "values_of k vs = []" if "k \<notin> fst ` set vs" using that by (auto simp: values_of_def filter_empty_conv rev_image_eqI)
  then show ?thesis by (simp add: by_key_def values_of_concat)
qed

lemma values_of_Set: "values_of k (Set k0 v vs) = (if k = k0 then [v] else values_of k vs)"
  by (induction vs) (auto simp: values_of_def Set_def)

lemma values_Query_Set:
  "values_of k (Query (u\<lparr>RawQuery := Encode (Set k0 v vs)\<rparr>)) = (if k = k0 then [v] else values_of k vs)"
proof -
  have "values_of k0 (by_key (Set k0 v vs)) = [v]" by (simp add: values_of_by_key values_of_Set)
  then have "by_key (Set k0 v vs) \<noteq> []" by (auto simp: values_of_def)
  from parse_encode [OF this] show ?thesis by (simp add: Query_def values_of_by_key values_of_Set)
qed

section \<open>Facts: the text of a query\<close>

datatype sql_token = Sym char | Lit string

text \<open>A scanner for SQL: string literals, with or without backslash escapes, and the other characters without
  the blanks. The state is a literal that has been begun: whether it has escapes, and its text so far.\<close>

function sql_lex :: "(bool \<times> string) option \<Rightarrow> string \<Rightarrow> sql_token list" where
  "sql_lex None [] = []"
| "sql_lex None (c # s) =
     (if c = CHR 0x27 then sql_lex (Some (False, [])) s
      else if c = CHR ''E'' \<and> HasPrefix s [CHR 0x27] then sql_lex (Some (True, [])) (tl s)
      else if c = CHR '' '' \<or> c = CHR 0x0A then sql_lex None s
      else Sym c # sql_lex None s)"
| "sql_lex (Some (e, acc)) [] = [Lit acc]"
| "sql_lex (Some (e, acc)) (c # s) =
     (if c = CHR 0x27 then
        (if HasPrefix s [CHR 0x27] then sql_lex (Some (e, acc @ [CHR 0x27])) (tl s) else Lit acc # sql_lex None s)
      else if e \<and> c = CHR 0x5C then sql_lex (Some (e, acc @ take 1 s)) (tl s)
      else sql_lex (Some (e, acc @ [c])) s)"
  by pat_completeness auto
termination
  by (relation "measure (\<lambda>(st, s). length s)") auto

definition literals :: "sql_token list \<Rightarrow> string list" where
  "literals ts = concat (map (\<lambda>t. case t of Lit s \<Rightarrow> [s] | Sym c \<Rightarrow> []) ts)"

definition shape :: "sql_token list \<Rightarrow> char option list" where
  "shape ts = map (\<lambda>t. case t of Lit s \<Rightarrow> None | Sym c \<Rightarrow> Some c) ts"

text \<open>What \<open>pq.QuoteLiteral\<close> is for: the text of a literal with the given value.\<close>

definition quotes_literals :: "(string \<Rightarrow> string) \<Rightarrow> bool" where
  "quotes_literals q \<longleftrightarrow> (\<forall>s rest. CHR 0x00 \<notin> set s \<longrightarrow> \<not> HasPrefix rest [CHR 0x27]
     \<longrightarrow> sql_lex None (q s @ rest) = Lit s # sql_lex None rest)"

text \<open>The query as the list of its parts.\<close>

datatype part = Fixed string | Const string | Tag string

fun render :: "(string \<Rightarrow> string) \<Rightarrow> string \<Rightarrow> part \<Rightarrow> string" where
  "render q tag (Fixed x) = x"
| "render q tag (Const s) = quoted s"
| "render q tag (Tag x) = q (tag @ x)"

fun scanned_part :: "string \<Rightarrow> part \<Rightarrow> sql_token list" where
  "scanned_part tag (Fixed x) = map Sym (filter (\<lambda>c. c \<noteq> CHR '' '' \<and> c \<noteq> CHR 0x0A) x)"
| "scanned_part tag (Const s) = [Lit s]"
| "scanned_part tag (Tag x) = [Lit (tag @ x)]"

fun fixed_next :: "part list \<Rightarrow> bool" where
  "fixed_next (Fixed x # ps) = (x \<noteq> [])"
| "fixed_next ps = (ps = [])"

fun parts_ok :: "part list \<Rightarrow> bool" where
  "parts_ok [] = True"
| "parts_ok (Fixed x # ps) = (CHR 0x27 \<notin> set x \<and> (x \<noteq> [] \<longrightarrow> last x \<noteq> CHR ''E'') \<and> parts_ok ps)"
| "parts_ok (Const s # ps) = (CHR 0x27 \<notin> set s \<and> fixed_next ps \<and> parts_ok ps)"
| "parts_ok (Tag x # ps) = (CHR 0x00 \<notin> set x \<and> fixed_next ps \<and> parts_ok ps)"

lemma fixed_next_rest: "fixed_next ps \<Longrightarrow> parts_ok ps \<Longrightarrow> \<not> HasPrefix (concat (map (render q tag) ps)) [CHR 0x27]"
proof (cases ps rule: parts_ok.cases)
  case (2 x qs)
  then show "fixed_next ps \<Longrightarrow> parts_ok ps \<Longrightarrow> ?thesis" by (cases x) (auto simp: HasPrefix_def)
qed (auto simp: HasPrefix_def)

lemma lex_fixed:
  "CHR 0x27 \<notin> set x \<Longrightarrow> x \<noteq> [] \<longrightarrow> last x \<noteq> CHR ''E''
     \<Longrightarrow> sql_lex None (x @ rest) = map Sym (filter (\<lambda>c. c \<noteq> CHR '' '' \<and> c \<noteq> CHR 0x0A) x) @ sql_lex None rest"
proof (induction x)
  case (Cons c x)
  have "\<not> (c = CHR ''E'' \<and> HasPrefix (x @ rest) [CHR 0x27])"
    using Cons.prems by (cases x) (auto simp: HasPrefix_def)
  moreover have "x \<noteq> [] \<longrightarrow> last x \<noteq> CHR ''E''" "CHR 0x27 \<notin> set x" "c \<noteq> CHR 0x27" using Cons.prems by auto
  ultimately show ?case using Cons.IH by (cases "c = CHR ''E''") simp_all
qed simp

lemma lex_const_from:
  "CHR 0x27 \<notin> set s \<Longrightarrow> \<not> HasPrefix rest [CHR 0x27]
     \<Longrightarrow> sql_lex (Some (False, acc)) (s @ CHR 0x27 # rest) = Lit (acc @ s) # sql_lex None rest"
  by (induction s arbitrary: acc) auto

lemma lex_parts:
  assumes "quotes_literals q" "CHR 0x00 \<notin> set tag"
  shows "parts_ok ps \<Longrightarrow> sql_lex None (concat (map (render q tag) ps)) = concat (map (scanned_part tag) ps)"
proof (induction ps rule: parts_ok.induct)
  case (2 x ps)
  then show ?case by (simp add: lex_fixed)
next
  case (3 s ps)
  with fixed_next_rest [of ps q tag] show ?case by (simp add: quoted_def lex_const_from)
next
  case (4 x ps)
  with fixed_next_rest [of ps q tag] assms show ?case by (simp add: quotes_literals_def)
qed simp

definition query_parts :: "part list" where
  "query_parts =
     [Fixed (newline @ ''SELECT c.author, c.permlink, c.title,'' @ newline @ ''       c.json_metadata -> ''), Tag [],
      Fixed '' ->> '', Const ''ipfs_cid'', Fixed ('' AS ipfs_cid,'' @ newline @ ''       c.json_metadata -> ''), Tag [],
      Fixed '' ->> '', Const ''ipfs_filename'', Fixed ('' AS filename,'' @ newline @ ''       c.json_metadata -> ''), Tag [],
      Fixed '' ->> '', Const ''discipline'', Fixed ('' AS discipline,'' @ newline @ ''       c.json_metadata -> ''), Tag [],
      Fixed '' -> '', Const ''supplementary_files'', Fixed ('' AS supplementary_files,'' @ newline @ ''       c.body,'' @ newline @ ''       ''),
      Const ''paper'', Fixed ('' AS cid_type,'' @ newline @ ''       c.created'' @ newline @ ''FROM hafsql.comments c'' @ newline @ ''WHERE c.parent_author = ''),
      Const [], Fixed (newline @ ''  AND c.parent_permlink = ''), Tag [], Fixed (newline @ ''  AND (c.json_metadata -> ''), Tag [],
      Fixed '' ->> '', Const ''type'', Fixed '') IN ('', Const ''paper'', Fixed '', '', Const ''bridge_paper'',
      Fixed ('')'' @ newline @ ''  AND c.json_metadata ->> ''), Const ''app'', Fixed '' LIKE '', Tag ''%'',
      Fixed (newline @ ''  AND c.json_metadata -> ''), Tag [], Fixed '' ->> '', Const ''ipfs_cid'',
      Fixed ('' IS NOT NULL'' @ newline @ ''ORDER BY c.created DESC'' @ newline)]"

lemma query_parts_render: "buildDiscoveryQuery q tag = concat (map (render q tag) query_parts)"
  by (simp add: buildDiscoveryQuery_def query_parts_def newline_def quoted_def Let_def)

lemma query_parts_ok: "parts_ok query_parts"
  by code_simp

lemma shape_part: "shape (scanned_part tag p) = shape (scanned_part tag' p)"
  by (cases p) (simp_all add: shape_def)

lemma shape_append: "shape (xs @ ys) = shape xs @ shape ys"
  by (simp add: shape_def)

lemma shape_parts: "shape (concat (map (scanned_part tag) ps)) = shape (concat (map (scanned_part tag') ps))"
proof (induction ps)
  case (Cons p ps)
  with shape_part [of tag p tag'] show ?case by (simp add: shape_append)
qed simp

lemma literals_fixed: "literals (scanned_part tag (Fixed x)) = []"
  by (induction x) (auto simp: literals_def)

lemma literals_append: "literals (xs @ ys) = literals xs @ literals ys"
  by (simp add: literals_def)

lemma literals_parts: "literals (concat (map (scanned_part tag) ps))
    = concat (map (\<lambda>p. case p of Fixed x \<Rightarrow> [] | Const s \<Rightarrow> [s] | Tag x \<Rightarrow> [tag @ x]) ps)"
proof (induction ps)
  case (Cons p ps)
  then show ?case using literals_fixed [of tag] by (cases p) (simp_all add: literals_append, simp_all add: literals_def)
qed (simp add: literals_def)

section \<open>Properties\<close>

text \<open>
  C29: the tag cannot change the query. For a tag without a zero byte, the query is one fixed text in which
  the tag appears only as the value of string literals: its literals are the ones that the code
  writes, with the tag, or the tag and a percent sign, in the places meant for them, and whatever is
  outside of them is the same for every tag.
\<close>

theorem query_is_one_template:
  assumes "quotes_literals q" "CHR 0x00 \<notin> set tag"
  shows "literals (sql_lex None (buildDiscoveryQuery q tag)) =
      [tag, ''ipfs_cid'', tag, ''ipfs_filename'', tag, ''discipline'', tag, ''supplementary_files'', ''paper'', [],
       tag, tag, ''type'', ''paper'', ''bridge_paper'', ''app'', tag @ ''%'', tag, ''ipfs_cid'']
    \<and> shape (sql_lex None (buildDiscoveryQuery q tag)) = shape (sql_lex None (buildDiscoveryQuery q ''pevo''))"
proof -
  have lex: "sql_lex None (buildDiscoveryQuery q x) = concat (map (scanned_part x) query_parts)" if "CHR 0x00 \<notin> set x" for x
    unfolding query_parts_render by (rule lex_parts [OF assms(1) that query_parts_ok])
  have "CHR 0x00 \<notin> set ''pevo''" by simp
  have "literals (sql_lex None (buildDiscoveryQuery q tag)) =
      [tag, ''ipfs_cid'', tag, ''ipfs_filename'', tag, ''discipline'', tag, ''supplementary_files'', ''paper'', [],
       tag, tag, ''type'', ''paper'', ''bridge_paper'', ''app'', tag @ ''%'', tag, ''ipfs_cid'']"
    unfolding lex [OF assms(2)] literals_parts by (simp add: query_parts_def)
  moreover have "shape (sql_lex None (buildDiscoveryQuery q tag)) = shape (sql_lex None (buildDiscoveryQuery q ''pevo''))"
    unfolding lex [OF assms(2)] lex [OF \<open>CHR 0x00 \<notin> set ''pevo''\<close>] by (rule shape_parts)
  ultimately show ?thesis by blast
qed

text \<open>A quoting function of the kind: quotes are doubled, and backslashes too, in a literal with escapes.\<close>

definition demo_quote :: "string \<Rightarrow> string" where
  "demo_quote s = CHR 0x27 # concat (map (\<lambda>c. if c = CHR 0x27 then [c, c] else [c]) s) @ [CHR 0x27]"

lemma demo_quotes: "quotes_literals demo_quote"
proof -
  have "\<not> HasPrefix rest [CHR 0x27] \<Longrightarrow>
      sql_lex (Some (False, acc)) (concat (map (\<lambda>c. if c = CHR 0x27 then [c, c] else [c]) s) @ CHR 0x27 # rest) = Lit (acc @ s) # sql_lex None rest"
    for s acc rest
    by (induction s arbitrary: acc) (auto simp: HasPrefix_def)
  then show ?thesis by (simp add: quotes_literals_def demo_quote_def)
qed

theorem query_is_one_template_witness:
  "hd (literals (sql_lex None (buildDiscoveryQuery demo_quote (CHR 0x27 # ''; DROP TABLE x; --'')))) = CHR 0x27 # ''; DROP TABLE x; --''"
proof -
  have "CHR 0x00 \<notin> set (CHR 0x27 # ''; DROP TABLE x; --'')" by simp
  from query_is_one_template [OF demo_quotes this] show ?thesis by simp
qed

text \<open>
  What is connected to. A URL that sets \<open>sslmode\<close>, or does not parse, is used as it stands; any
  other keeps its parts and gets a query in which \<open>sslmode\<close> is \<open>disable\<close> and every other setting has the values it
  had, as far as \<open>URL.Query\<close> reads it. A pool that does not answer the first ping is closed.
\<close>

theorem sslmode_is_defaulted:
  "case Parse databaseURL of
     None \<Rightarrow> with_sslmode databaseURL = databaseURL
   | Some u \<Rightarrow>
      if Get (Query u) ''sslmode'' \<noteq> [] then with_sslmode databaseURL = databaseURL
      else (\<exists>raw. with_sslmode databaseURL = url_String (u\<lparr>RawQuery := raw\<rparr>)
        \<and> (\<forall>k. values_of k (Query (u\<lparr>RawQuery := raw\<rparr>)) = (if k = ''sslmode'' then [''disable''] else values_of k (Query u))))"
proof (cases "Parse databaseURL")
  case (Some u)
  let ?raw = "Encode (Set ''sslmode'' ''disable'' (Query u))"
  have "\<forall>k. values_of k (Query (u\<lparr>RawQuery := ?raw\<rparr>)) = (if k = ''sslmode'' then [''disable''] else values_of k (Query u))"
    by (simp add: values_Query_Set)
  then show ?thesis using Some by (auto simp: with_sslmode_def)
qed (simp add: with_sslmode_def)

text \<open>What the rewriting does to two data sources that \<open>lib/pq\<close> accepts: one in keyword form becomes a host name
  with a space and a question mark in it, and a setting with a semicolon is lost.\<close>

theorem data_source_mangled:
  "with_sslmode ''host=db dbname=haf'' = ''host=db%20dbname=haf?sslmode=disable''
   \<and> with_sslmode ''postgres://db/haf?options=a;b'' = ''postgres://db/haf?sslmode=disable''"
  by code_simp

end
