(* ===== verification/Http.thy ===== *)
theory Http
  imports Url GoPath "HOL-Library.List_Lexorder" "HOL-Library.Char_ord"
begin

text \<open>
  What \<open>server.go\<close> uses of \<open>net\<close> and \<open>net/http\<close>: the response writer with the header that is frozen by
  the first write, \<open>Error\<close>, \<open>Redirect\<close>, \<open>SplitHostPort\<close>, and \<open>ServeMux\<close> with patterns of a method and
  path segments.
\<close>

section \<open>Responses\<close>

record request =
  q_method :: string
  q_path :: string
  q_query :: string
  q_host :: string
  q_body :: string

text \<open>\<open>q_path\<close> is \<open>r.URL.EscapedPath()\<close>; \<open>r.URL.Path\<close> is what it unescapes to.\<close>

definition url_path :: "request \<Rightarrow> string" where
  "url_path r = (case unescape encodePath (q_path r) of None \<Rightarrow> q_path r | Some p \<Rightarrow> p)"

type_synonym header = "(string \<times> string) list"

definition header_get :: "header \<Rightarrow> string \<Rightarrow> string option" where
  "header_get h k = map_of h k"

record writer =
  wr_header :: header
  wr_sent :: "(int \<times> header) option"
  wr_body :: string

definition new_writer :: writer where
  "new_writer = \<lparr>wr_header = [], wr_sent = None, wr_body = []\<rparr>"

definition Header_Set :: "string \<Rightarrow> string \<Rightarrow> writer \<Rightarrow> writer" where
  "Header_Set k v w = w\<lparr>wr_header := (k, v) # filter (\<lambda>(k', _). k' \<noteq> k) (wr_header w)\<rparr>"

text \<open>The first call takes a copy of the header; what is set later is not sent.\<close>

definition WriteHeader :: "int \<Rightarrow> writer \<Rightarrow> writer" where
  "WriteHeader code w = (if wr_sent w = None then w\<lparr>wr_sent := Some (code, wr_header w)\<rparr> else w)"

definition Write :: "string \<Rightarrow> writer \<Rightarrow> writer" where
  "Write data w = (let w = WriteHeader 200 w in w\<lparr>wr_body := wr_body w @ data\<rparr>)"

definition http_Error :: "string \<Rightarrow> int \<Rightarrow> writer \<Rightarrow> writer" where
  "http_Error msg code w =
     Write (msg @ [CHR 0x0A]) (WriteHeader code
       (Header_Set ''X-Content-Type-Options'' ''nosniff'' (Header_Set ''Content-Type'' ''text/plain; charset=utf-8'' w)))"

definition html_escape :: "string \<Rightarrow> string" where
  "html_escape s = concat (map (\<lambda>c. if c = CHR ''&'' then ''&amp;'' else if c = CHR ''<'' then ''&lt;''
     else if c = CHR ''>'' then ''&gt;'' else if c = CHR 0x22 then ''&#34;'' else if c = CHR 0x27 then ''&#39;'' else [c]) s)"

definition lower_hex :: "nat \<Rightarrow> char" where
  "lower_hex n = (if n < 10 then char_of (48 + n) else char_of (87 + n))"

definition hex_escape_non_ascii :: "string \<Rightarrow> string" where
  "hex_escape_non_ascii s = concat (map (\<lambda>c. if byte_val c \<ge> 128
     then [CHR ''%'', lower_hex (byte_val c div 16), lower_hex (byte_val c mod 16)] else [c]) s)"

text \<open>\<open>Redirect\<close> to a URL that has a scheme, or whose path is clean.\<close>

definition http_Redirect :: "request \<Rightarrow> string \<Rightarrow> int \<Rightarrow> string \<Rightarrow> writer \<Rightarrow> writer" where
  "http_Redirect r url code status_text w =
     (let hadCT = header_get (wr_header w) ''Content-Type'' \<noteq> None;
          w1 = Header_Set ''Location'' (hex_escape_non_ascii url) w;
          w2 = (if \<not> hadCT \<and> q_method r \<in> {''GET'', ''HEAD''}
                then Header_Set ''Content-Type'' ''text/html; charset=utf-8'' w1 else w1);
          w3 = WriteHeader code w2
      in if \<not> hadCT \<and> q_method r = ''GET''
         then Write (''<a href='' @ [CHR 0x22] @ html_escape url @ [CHR 0x22] @ ''>'' @ status_text @ ''</a>.'' @ [CHR 0x0A, CHR 0x0A]) w3
         else w3)"

text \<open>What is sent when the handler has returned. The body of an answer to \<open>HEAD\<close> is dropped; a
  \<open>Content-Type\<close> that the header lacks is guessed from the body by \<open>net/http\<close>, which is left out.\<close>

record response =
  rs_status :: int
  rs_header :: header
  rs_body :: string

definition finish :: "request \<Rightarrow> writer \<Rightarrow> response" where
  "finish r w = (case wr_sent (WriteHeader 200 w) of
     Some (code, h) \<Rightarrow> \<lparr>rs_status = code, rs_header = h, rs_body = (if q_method r = ''HEAD'' then [] else wr_body w)\<rparr>
   | None \<Rightarrow> \<lparr>rs_status = 200, rs_header = [], rs_body = []\<rparr>)"

section \<open>Host and port\<close>

text \<open>\<open>net.SplitHostPort\<close>.\<close>

definition SplitHostPort :: "string \<Rightarrow> (string \<times> string) option" where
  "SplitHostPort hostport = (case last_index (CHR '':'') hostport of
     None \<Rightarrow> None
   | Some i \<Rightarrow>
      (let port = drop (i + 1) hostport in
       if HasPrefix hostport ''['' then
         (let cls = length (takeWhile (\<lambda>c. c \<noteq> CHR '']'') hostport) in
          if cls = length hostport \<or> cls + 1 \<noteq> i then None
          else if CHR ''['' \<in> set (drop 1 hostport) \<or> CHR '']'' \<in> set (drop (cls + 1) hostport) then None
          else Some (take (cls - 1) (drop 1 hostport), port))
       else if CHR '':'' \<in> set (take i hostport) then None
       else if CHR ''['' \<in> set hostport \<or> CHR '']'' \<in> set hostport then None
       else Some (take i hostport, port)))"

section \<open>The mux\<close>

text \<open>A pattern ends with its last segment, or with \<open>Rest\<close>, the trailing slash that matches what
  follows.\<close>

datatype segment = Lit string | Wild | Rest

record 'r pattern =
  pt_method :: string
  pt_segments :: "segment list"
  pt_route :: 'r

definition path_unescape :: "string \<Rightarrow> string" where
  "path_unescape s = (case unescape encodePathSegment s of None \<Rightarrow> s | Some t \<Rightarrow> t)"

text \<open>The segments of a path that starts with a slash; a trailing slash is a segment of its own.\<close>

function segments :: "string \<Rightarrow> string list" where
  "segments p = (if p = [] then [] else if p = ''/'' then [''/'']
     else path_unescape (takeWhile (\<lambda>c. c \<noteq> CHR ''/'') (tl p)) # segments (dropWhile (\<lambda>c. c \<noteq> CHR ''/'') (tl p)))"
  by pat_completeness auto
termination
proof (relation "measure length", goal_cases)
  case (2 p)
  have "length (dropWhile (\<lambda>c. c \<noteq> CHR ''/'') (tl p)) \<le> length (tl p)" by (rule length_dropWhile_le)
  also have "\<dots> < length p" using 2 by (cases p) auto
  finally show ?case by simp
qed simp

declare segments.simps [simp del]

fun match_segments :: "segment list \<Rightarrow> string list \<Rightarrow> string list option" where
  "match_segments [] [] = Some []"
| "match_segments (Lit l # ps) (s # ss) = (if s = l then match_segments ps ss else None)"
| "match_segments (Wild # ps) (s # ss) = (if s = ''/'' then None else map_option (\<lambda>vs. s # vs) (match_segments ps ss))"
| "match_segments [Rest] (s # ss) = Some []"
| "match_segments _ _ = None"

definition method_matches :: "string \<Rightarrow> 'r pattern \<Rightarrow> bool" where
  "method_matches meth pt \<longleftrightarrow> pt_method pt = meth \<or> (meth = ''HEAD'' \<and> pt_method pt = ''GET'')"

text \<open>The first pattern of the table that matches. Where two match, Go takes the more specific one; the
  table of \<open>NewServer\<close> has only one overlap, of \<open>GET /\<close> with the other patterns, and it comes last.\<close>

fun find_pattern :: "'r pattern list \<Rightarrow> string \<Rightarrow> string \<Rightarrow> ('r pattern \<times> string list) option" where
  "find_pattern [] meth path = None"
| "find_pattern (pt # pts) meth path =
     (case (if method_matches meth pt then match_segments (pt_segments pt) (segments path) else None) of
        Some vs \<Rightarrow> Some (pt, vs)
      | None \<Rightarrow> find_pattern pts meth path)"

text \<open>\<open>exactMatch\<close>.\<close>

definition exact_match :: "('r pattern \<times> string list) option \<Rightarrow> string \<Rightarrow> bool" where
  "exact_match m path = (case m of
     None \<Rightarrow> False
   | Some (pt, _) \<Rightarrow>
      if pt_segments pt = [] \<or> last (pt_segments pt) \<noteq> Rest then True
      else path \<noteq> [] \<and> last path = CHR ''/'' \<and> length (pt_segments pt) = count_list path (CHR ''/''))"

definition cleanPath :: "string \<Rightarrow> string" where
  "cleanPath p =
     (if p = [] then ''/''
      else (let p = (if hd p \<noteq> CHR ''/'' then CHR ''/'' # p else p); np = Clean p in
        if last p = CHR ''/'' \<and> np \<noteq> ''/'' then np @ ''/'' else np))"

datatype 'r target =
    Handle 'r "string list"
  | MovedTo string
  | MethodNotAllowed "string list"
  | NotFound

definition allowed_methods :: "'r pattern list \<Rightarrow> string \<Rightarrow> string list" where
  "allowed_methods pts path =
     (let hits = filter (\<lambda>pt. match_segments (pt_segments pt) (segments path) \<noteq> None
            \<or> (\<not> (path \<noteq> [] \<and> last path = CHR ''/'') \<and> match_segments (pt_segments pt) (segments (path @ ''/'')) \<noteq> None)) pts;
          ms = map pt_method hits
      in sort (remdups (ms @ (if ''GET'' \<in> set ms then [''HEAD''] else []))))"

text \<open>\<open>findHandler\<close> and \<open>matchOrRedirect\<close>, for patterns without a host.\<close>

definition find_handler :: "'r pattern list \<Rightarrow> request \<Rightarrow> 'r target" where
  "find_handler pts r =
     (let escaped = q_path r;
          path = (if q_method r = ''CONNECT'' then escaped else cleanPath escaped);
          m = find_pattern pts (q_method r) path
      in if \<not> exact_match m path \<and> \<not> (path \<noteq> [] \<and> last path = CHR ''/'')
            \<and> exact_match (find_pattern pts (q_method r) (path @ ''/'')) (path @ ''/'')
         then MovedTo (url_String (empty_url\<lparr>Path := cleanPath (url_path r) @ ''/'', RawQuery := q_query r\<rparr>))
         else if path \<noteq> escaped then MovedTo (url_String (empty_url\<lparr>Path := path, RawQuery := q_query r\<rparr>))
         else (case m of
            Some (pt, vs) \<Rightarrow> Handle (pt_route pt) vs
          | None \<Rightarrow> if allowed_methods pts path \<noteq> [] then MethodNotAllowed (allowed_methods pts path) else NotFound))"

section \<open>Facts: routing\<close>

lemma find_pattern_SomeD:
  "find_pattern pts meth path = Some (pt, vs) \<Longrightarrow> pt \<in> set pts \<and> method_matches meth pt"
  by (induction pts meth path rule: find_pattern.induct) (auto split: option.splits if_splits)

lemma find_handler_HandleD:
  assumes "find_handler pts r = Handle t vs"
  obtains pt where "pt \<in> set pts" "method_matches (q_method r) pt" "pt_route pt = t"
proof -
  define path where "path = (if q_method r = ''CONNECT'' then q_path r else cleanPath (q_path r))"
  from assms obtain pt where "find_pattern pts (q_method r) path = Some (pt, vs)" "pt_route pt = t"
    unfolding find_handler_def Let_def path_def [symmetric] by (auto split: if_splits option.splits)
  with that find_pattern_SomeD show ?thesis by blast
qed

text \<open>A path that is clean as it stands.\<close>

definition abs_path :: "string list \<Rightarrow> string" where
  "abs_path xs = concat (map (\<lambda>x. CHR ''/'' # x) xs)"

definition plain_segment :: "string \<Rightarrow> bool" where
  "plain_segment x \<longleftrightarrow> x \<noteq> [] \<and> x \<noteq> ''.'' \<and> x \<noteq> ''..'' \<and> CHR ''/'' \<notin> set x"

lemma split_on_abs: "list_all plain_segment xs \<Longrightarrow> split_on (CHR ''/'') (abs_path xs) = [] # xs"
proof (induction xs)
  case Nil
  show ?case by (simp add: abs_path_def split_on_def)
next
  case (Cons x xs)
  have "split_on (CHR ''/'') (abs_path (x # xs)) = [] # split_on (CHR ''/'') (x @ abs_path xs)"
    by (simp add: abs_path_def split_on_def)
  with Cons show ?case by (simp add: split_on_append plain_segment_def)
qed

lemma clean_steps: "list_all plain_segment xs \<Longrightarrow> foldl (clean_step True) out xs = out @ xs"
  by (induction xs arbitrary: out) (auto simp: clean_step_def plain_segment_def)

lemma join_abs: "xs \<noteq> [] \<Longrightarrow> CHR ''/'' # join_with (CHR ''/'') xs = abs_path xs"
  by (cases xs) (auto simp: join_with_def abs_path_def)

lemma last_abs: "list_all plain_segment xs \<Longrightarrow> xs \<noteq> [] \<Longrightarrow> last (abs_path xs) \<noteq> CHR ''/''"
proof (induction xs rule: rev_induct)
  case (snoc x xs)
  then have "x \<noteq> []" "CHR ''/'' \<notin> set x" by (simp_all add: plain_segment_def)
  then have "last x \<noteq> CHR ''/''" by (metis last_in_set)
  with \<open>x \<noteq> []\<close> show ?case by (simp add: abs_path_def)
qed simp

lemma cleanPath_abs:
  assumes "list_all plain_segment xs" "xs \<noteq> []"
  shows "cleanPath (abs_path xs) = abs_path xs"
proof -
  obtain t where t: "abs_path xs = CHR ''/'' # t" using assms(2) by (cases xs) (auto simp: abs_path_def)
  have "Clean (abs_path xs) = abs_path xs"
    unfolding Clean_def split_on_abs [OF assms(1)] using t clean_steps [OF assms(1), of "[]"] join_abs [OF assms(2)]
    by (simp add: clean_step_def HasPrefix_single Let_def)
  with t last_abs [OF assms] show ?thesis by (simp add: cleanPath_def Let_def)
qed

lemma segments_abs: "list_all plain_segment xs \<Longrightarrow> segments (abs_path xs) = map path_unescape xs"
proof (induction xs)
  case Nil
  show ?case by (subst segments.simps) (simp add: abs_path_def)
next
  case (Cons x xs)
  then have x: "x \<noteq> []" "CHR ''/'' \<notin> set x" by (simp_all add: plain_segment_def)
  have "abs_path xs = [] \<or> (\<exists>t. abs_path xs = CHR ''/'' # t)" by (cases xs) (auto simp: abs_path_def)
  then have tw: "takeWhile (\<lambda>c. c \<noteq> CHR ''/'') (x @ abs_path xs) = x" "dropWhile (\<lambda>c. c \<noteq> CHR ''/'') (x @ abs_path xs) = abs_path xs"
    using takeWhile_component [OF x(2)] dropWhile_component [OF x(2)] by (auto simp: HasPrefix_single)
  have e: "abs_path (x # xs) = CHR ''/'' # (x @ abs_path xs)" by (simp add: abs_path_def)
  have "segments (abs_path (x # xs)) = path_unescape x # segments (abs_path xs)"
    unfolding e by (subst segments.simps) (simp only: list.sel tw, simp add: x)
  with Cons show ?case by simp
qed

text \<open>A clean path without a trailing slash is handled by the first pattern that matches its segments,
  if that is not a prefix pattern.\<close>

lemma find_handler_abs:
  assumes "list_all plain_segment xs" "xs \<noteq> []" "q_path r = abs_path xs"
    "find_pattern pts (q_method r) (abs_path xs) = Some (pt, vs)" "last (pt_segments pt) \<noteq> Rest"
  shows "find_handler pts r = Handle (pt_route pt) vs"
  using assms by (simp add: find_handler_def Let_def cleanPath_abs exact_match_def)

lemma path_unescape_plain: "\<forall>c \<in> set s. c \<noteq> CHR ''%'' \<Longrightarrow> path_unescape s = s"
proof -
  assume "\<forall>c \<in> set s. c \<noteq> CHR ''%''"
  then have "unescape encodePathSegment s = Some s" by (induction s) (simp_all add: host_mode_def)
  then show ?thesis by (simp add: path_unescape_def)
qed

end
