(* ===== verification/Server.thy ===== *)
theory Server
  imports Runner AutoPin Gateway Pinata Config Http
begin

text \<open>
  \<open>server.go\<close>: the management API. Every handler is a function from the server's state and the request
  to the next state and the response; the mux in front of them is that of \<open>Http\<close>. What the outside
  world answers during a request (the network and the file system of the backend, the file system of
  the rules, random bytes, the clock) is an argument. Handlers are taken one at a time; the backend
  calls of concurrent ones interleave as in \<open>PinLifecycle\<close> and \<open>Runner\<close>.
\<close>

section \<open>The backend behind the interface\<close>

text \<open>A value of the interface type: the embedded node with its \<open>gatewayBind\<close>, or the Pinata backend
  with the state of the service. A probe is answered from the service's state; each call has its own
  answers, so that the service may change between calls.\<close>

datatype 'srv backend =
    Embedded node string
  | Remote PinataBackend 'srv

record 'srv world =
  w_fetch :: fetch_env
  w_order :: map_order
  w_plan :: io_plan
  w_send :: "'srv service"

datatype backend_err = NodeErr node_err | RemoteErr pinata_err

definition backend_Pin :: "'srv world \<Rightarrow> 'srv backend \<Rightarrow> string \<Rightarrow> 'srv backend \<times> backend_err option" where
  "backend_Pin w b c = (case b of
     Embedded n bind \<Rightarrow> (case node_Pin (w_fetch w, w_order w, w_plan w) n c of
       (n', e) \<Rightarrow> (Embedded n' bind, map_option NodeErr e))
   | Remote p s \<Rightarrow> (case pinata_Pin p (w_send w) c s of
       (s', _, e) \<Rightarrow> (Remote p s', map_option RemoteErr e)))"

definition backend_Unpin :: "'srv world \<Rightarrow> 'srv backend \<Rightarrow> string \<Rightarrow> 'srv backend \<times> backend_err option" where
  "backend_Unpin w b c = (case b of
     Embedded n bind \<Rightarrow> (case node_Unpin (w_fetch w, w_order w, w_plan w) n c of
       (n', e) \<Rightarrow> (Embedded n' bind, map_option NodeErr e))
   | Remote p s \<Rightarrow> (case pinata_Unpin p (w_send w) c s of
       (s', _, e) \<Rightarrow> (Remote p s', map_option RemoteErr e)))"

definition backend_IsPinned :: "'srv world \<Rightarrow> 'srv backend \<Rightarrow> string \<Rightarrow> backend_err + bool" where
  "backend_IsPinned w b c = (case b of
     Embedded n bind \<Rightarrow> (case node_IsPinned (w_fetch w, w_order w, w_plan w) n c of
       Inl e \<Rightarrow> Inl (NodeErr e) | Inr v \<Rightarrow> Inr v)
   | Remote p s \<Rightarrow> (case pinata_IsPinned p (w_send w) c s of
       (_, _, Inl e) \<Rightarrow> Inl (RemoteErr e) | (_, _, Inr v) \<Rightarrow> Inr v))"

definition backendMode :: "'srv backend \<Rightarrow> string" where
  "backendMode b = (case b of Embedded n bind \<Rightarrow> ''embedded'' | Remote p s \<Rightarrow> ''pinata'')"

section \<open>State\<close>

record 'srv server =
  discovery_items :: "DiscoveredItem list"
  srv_backend :: "'srv backend"
  autopin :: manager
  autopinRunner :: AutoPinRunner
  startTime :: int
  srv_refresh :: int
  autoPinConcurrency :: int
  autoPinAuthorCap :: int
  srv_mode :: string

text \<open>Error texts, the quoting of \<open>%q\<close>, the JSON of a \<open>time.Time\<close> (which fails for a year beyond
  9999) and the Unicode part of \<open>strings.ToLower\<close>.\<close>

record texts =
  tx_backend :: "backend_err \<Rightarrow> string"
  tx_rules :: "mgr_err \<Rightarrow> string"
  tx_json :: "bytes \<Rightarrow> string"
  tx_quote :: "string \<Rightarrow> string"
  tx_time :: "int \<Rightarrow> string option"
  tx_lower :: "string \<Rightarrow> string"

text \<open>What the outside world answers during one request.\<close>

record 'srv outside =
  out_call :: "'srv world"
  out_item :: "DiscoveredItem \<Rightarrow> 'srv world"
  out_plan :: io_plan
  out_random :: bytes
  out_now :: int

definition NewServer :: "DiscoveredItem list \<Rightarrow> 'srv backend \<Rightarrow> manager \<Rightarrow> AutoPinRunner \<Rightarrow> int \<Rightarrow> int \<Rightarrow> int \<Rightarrow> int \<Rightarrow> 'srv server" where
  "NewServer items b m r now refreshInterval conc cap =
     \<lparr>discovery_items = items, srv_backend = b, autopin = m, autopinRunner = r, startTime = now,
      srv_refresh = refreshInterval, autoPinConcurrency = conc, autoPinAuthorCap = cap, srv_mode = backendMode b\<rparr>"

section \<open>Answers\<close>

text \<open>\<open>None\<close> is a value that the encoder refuses: the error is logged, and the body stays empty.\<close>

definition writeJSON :: "json option \<Rightarrow> writer \<Rightarrow> writer" where
  "writeJSON v w = (let w = Header_Set ''Content-Type'' ''application/json'' w in
     case v of None \<Rightarrow> w | Some j \<Rightarrow> Write (compact j @ [CHR 0x0A]) w)"

definition json_int :: "int \<Rightarrow> json" where
  "json_int i = JNum (show_int i)"

definition json_paper :: "texts \<Rightarrow> DiscoveredItem \<Rightarrow> bool \<Rightarrow> json option" where
  "json_paper tx item pinned = map_option (\<lambda>created. JObj
     [(''author'', JStr (item_Author item)), (''permlink'', JStr (item_Permlink item)), (''title'', JStr (item_Title item)),
      (''cid'', JStr (item_CID item)), (''filename'', JStr (item_Filename item)), (''cid_type'', JStr (item_CIDType item)),
      (''discipline'', JStr (item_Discipline item)), (''created'', JStr created), (''pinned'', JBool pinned)])
     (tx_time tx (item_Created item))"

definition run_counts :: "AutoPinResult \<Rightarrow> json" where
  "run_counts res = JObj
     [(''failed'', json_int (int (Failed res))), (''is_pinned_errors'', json_int (int (IsPinnedErrors res))),
      (''matched'', json_int (int (Matched res))), (''pinned'', json_int (int (Pinned res))), (''shed'', json_int (int (Shed res)))]"

definition json_rules :: "AutoPinRule list \<Rightarrow> json" where
  "json_rules rs = JArr (map json_rule rs)"

text \<open>\<open>int(d.Hours())\<close> and so on truncate.\<close>

definition formatDuration :: "int \<Rightarrow> string" where
  "formatDuration d0 =
     (let d = Duration_Round d0 (10 ^ 9);
          h = tdiv d (3600 * 10 ^ 9); m = tmod (tdiv d (60 * 10 ^ 9)) 60; s = tmod (tdiv d (10 ^ 9)) 60
      in if h > 0 then show_int h @ ''h'' @ show_int m @ ''m''
         else if m > 0 then show_int m @ ''m'' @ show_int s @ ''s''
         else show_int s @ ''s'')"

section \<open>Handlers\<close>

text \<open>The value of a failed probe is \<open>false\<close>.\<close>

definition shown_pinned :: "'srv outside \<Rightarrow> 'srv server \<Rightarrow> DiscoveredItem \<Rightarrow> bool" where
  "shown_pinned out s item = (case backend_IsPinned (out_item out item) (srv_backend s) (item_CID item) of
     Inl _ \<Rightarrow> False | Inr b \<Rightarrow> b)"

definition handlePapers :: "texts \<Rightarrow> 'srv outside \<Rightarrow> 'srv server \<Rightarrow> writer \<Rightarrow> writer" where
  "handlePapers tx out s w =
     writeJSON (map_option JArr (those (map (\<lambda>item. json_paper tx item (shown_pinned out s item)) (discovery_items s)))) w"

definition handlePin :: "texts \<Rightarrow> 'srv outside \<Rightarrow> string \<Rightarrow> 'srv server \<Rightarrow> writer \<Rightarrow> 'srv server \<times> writer" where
  "handlePin tx out cid s w =
     (if cid = [] then (s, http_Error ''missing CID'' 400 w)
      else (case ValidateCID cid of
         Some e \<Rightarrow> (s, http_Error (cid_err_text (tx_quote tx) e) 400 w)
       | None \<Rightarrow> (case backend_Pin (out_call out) (srv_backend s) cid of
           (b, Some e) \<Rightarrow> (s\<lparr>srv_backend := b\<rparr>, http_Error (tx_backend tx e) 500 w)
         | (b, None) \<Rightarrow> (s\<lparr>srv_backend := b\<rparr>,
             writeJSON (Some (JObj [(''cid'', JStr cid), (''status'', JStr ''pinned'')])) w))))"

definition handleUnpin :: "texts \<Rightarrow> 'srv outside \<Rightarrow> string \<Rightarrow> 'srv server \<Rightarrow> writer \<Rightarrow> 'srv server \<times> writer" where
  "handleUnpin tx out cid s w =
     (if cid = [] then (s, http_Error ''missing CID'' 400 w)
      else (case ValidateCID cid of
         Some e \<Rightarrow> (s, http_Error (cid_err_text (tx_quote tx) e) 400 w)
       | None \<Rightarrow> (case backend_Unpin (out_call out) (srv_backend s) cid of
           (b, Some e) \<Rightarrow> (s\<lparr>srv_backend := b\<rparr>, http_Error (tx_backend tx e) 500 w)
         | (b, None) \<Rightarrow> (s\<lparr>srv_backend := b\<rparr>,
             writeJSON (Some (JObj [(''cid'', JStr cid), (''status'', JStr ''unpinned'')])) w))))"

text \<open>The run of a batch in the schedule of \<open>Run_seq\<close>.\<close>

definition run_batch :: "'srv outside \<Rightarrow> DiscoveredItem list \<Rightarrow> 'srv server \<Rightarrow> 'srv server \<times> AutoPinResult" where
  "run_batch out items s = (case Run_seq backend_Pin backend_IsPinned (autopinRunner s) (out_item out) (srv_backend s) items of
     (b, res) \<Rightarrow> (s\<lparr>srv_backend := b\<rparr>, res))"

definition handlePinAll :: "'srv outside \<Rightarrow> 'srv server \<Rightarrow> writer \<Rightarrow> 'srv server \<times> writer" where
  "handlePinAll out s w = (case run_batch out (discovery_items s) s of
     (s', res) \<Rightarrow> (s', writeJSON (Some (run_counts res)) w))"

text \<open>\<open>None\<close>: the remainder by an interval of zero panics.\<close>

definition handleStatus :: "'srv outside \<Rightarrow> 'srv server \<Rightarrow> writer \<Rightarrow> writer option" where
  "handleStatus out s w =
     (let pinnedCount = length (filter (shown_pinned out s) (discovery_items s));
          elapsed = out_now out - startTime s
      in if srv_refresh s = 0 then None
         else (let remaining = srv_refresh s - tmod elapsed (srv_refresh s) in
           Some (writeJSON (Some (JObj
             [(''total_discovered'', json_int (int (length (discovery_items s)))), (''pinned_count'', json_int (int pinnedCount)),
              (''next_refresh'', JStr (formatDuration remaining)), (''mode'', JStr (srv_mode s)),
              (''refresh_interval'', JStr (Duration_String (srv_refresh s))),
              (''autopin_concurrency'', json_int (autoPinConcurrency s)), (''autopin_author_cap'', json_int (autoPinAuthorCap s))])) w)))"

definition handleIPFSProxy :: "texts \<Rightarrow> request \<Rightarrow> 'srv server \<Rightarrow> writer \<Rightarrow> writer" where
  "handleIPFSProxy tx r s w =
     (let raw = drop (length ''/ipfs/'') (url_path r) in
      case Cut raw ''/'' of (cidPart, _, _) \<Rightarrow>
        if cidPart = [] then http_Error ''missing CID'' 400 w
        else (case ValidateCID cidPart of
           Some e \<Rightarrow> http_Error (cid_err_text (tx_quote tx) e) 400 w
         | None \<Rightarrow> (case srv_backend s of
             Remote p srv \<Rightarrow> http_Redirect r (''https://gateway.pinata.cloud/ipfs/'' @ raw) 307 ''Temporary Redirect'' w
           | Embedded n bind \<Rightarrow>
              (let target = (case SplitHostPort (q_host r) of
                   Some (h, _) \<Rightarrow> (case SplitHostPort bind of
                      Some (_, gwPort) \<Rightarrow> ''http://'' @ h @ '':'' @ gwPort
                    | None \<Rightarrow> ''http://'' @ q_host r)
                 | None \<Rightarrow> ''http://'' @ q_host r)
               in http_Redirect r (target @ url_path r) 307 ''Temporary Redirect'' w))))"

definition handleGetRules :: "'srv server \<Rightarrow> writer \<Rightarrow> writer" where
  "handleGetRules s w = writeJSON (Some (json_rules (Rules (autopin s)))) w"

text \<open>\<open>json.NewDecoder(r.Body).Decode(&rule)\<close>.\<close>

definition decode_body :: "bytes \<Rightarrow> AutoPinRule option" where
  "decode_body body = Option.bind (decode_first body) decode_rule"

definition handleAddRule :: "texts \<Rightarrow> 'srv outside \<Rightarrow> request \<Rightarrow> 'srv server \<Rightarrow> writer \<Rightarrow> 'srv server \<times> writer" where
  "handleAddRule tx out r s w = (case decode_body (q_body r) of
     None \<Rightarrow> (s, http_Error (''invalid JSON: '' @ tx_json tx (q_body r)) 400 w)
   | Some rule \<Rightarrow> (case AddRule (out_random out) (out_plan out) rule (autopin s) of
       (m, Inl e) \<Rightarrow> (s\<lparr>autopin := m\<rparr>, http_Error (tx_rules tx e) 500 w)
     | (m, Inr created) \<Rightarrow> (s\<lparr>autopin := m\<rparr>, writeJSON (Some (json_rule created)) (WriteHeader 201 w))))"

definition handleUpdateRule :: "texts \<Rightarrow> 'srv outside \<Rightarrow> request \<Rightarrow> string \<Rightarrow> 'srv server \<Rightarrow> writer \<Rightarrow> 'srv server \<times> writer" where
  "handleUpdateRule tx out r ident s w = (case decode_body (q_body r) of
     None \<Rightarrow> (s, http_Error (''invalid JSON: '' @ tx_json tx (q_body r)) 400 w)
   | Some rule \<Rightarrow> (case UpdateRule (out_plan out) ident rule (autopin s) of
       (m, Inl e) \<Rightarrow> (s\<lparr>autopin := m\<rparr>, http_Error (tx_rules tx e) 404 w)
     | (m, Inr updated) \<Rightarrow> (s\<lparr>autopin := m\<rparr>, writeJSON (Some (json_rule updated)) w)))"

definition handleDeleteRule :: "texts \<Rightarrow> 'srv outside \<Rightarrow> string \<Rightarrow> 'srv server \<Rightarrow> writer \<Rightarrow> 'srv server \<times> writer" where
  "handleDeleteRule tx out ident s w = (case DeleteRule (out_plan out) ident (autopin s) of
     (m, Some e) \<Rightarrow> (s\<lparr>autopin := m\<rparr>, http_Error (tx_rules tx e) 404 w)
   | (m, None) \<Rightarrow> (s\<lparr>autopin := m\<rparr>, writeJSON (Some (JObj [(''status'', JStr ''deleted'')])) w))"

text \<open>\<open>handleEnableAllRules\<close> and \<open>handleDisableAllRules\<close>.\<close>

definition handleSetAllRules :: "texts \<Rightarrow> 'srv outside \<Rightarrow> bool \<Rightarrow> 'srv server \<Rightarrow> writer \<Rightarrow> 'srv server \<times> writer" where
  "handleSetAllRules tx out enabled s w = (case SetAllEnabled (out_plan out) enabled (autopin s) of
     (m, Some e) \<Rightarrow> (s\<lparr>autopin := m\<rparr>, http_Error (tx_rules tx e) 500 w)
   | (m, None) \<Rightarrow> (s\<lparr>autopin := m\<rparr>, writeJSON (Some (json_rules (Rules m))) w))"

definition handleEvaluateRules :: "texts \<Rightarrow> 'srv outside \<Rightarrow> 'srv server \<Rightarrow> writer \<Rightarrow> 'srv server \<times> writer" where
  "handleEvaluateRules tx out s w =
     (let matched = MatchingItems (tx_lower tx) (autopin s) (discovery_items s) in
      case run_batch out matched s of (s', res) \<Rightarrow> (s', writeJSON (Some (run_counts res)) w))"

section \<open>The routes\<close>

datatype route =
    Papers | PinOne | UnpinOne | PinAll | Status | GetRules | AddOne | UpdateOne | DeleteOne
  | EnableAll | DisableAll | Evaluate | IPFSProxy | Static

definition routes :: "route pattern list" where
  "routes = map (\<lambda>(m, segs, t). \<lparr>pt_method = m, pt_segments = segs, pt_route = t\<rparr>)
     [(''GET'', [Lit ''api'', Lit ''papers''], Papers),
      (''POST'', [Lit ''api'', Lit ''pin'', Wild], PinOne),
      (''POST'', [Lit ''api'', Lit ''unpin'', Wild], UnpinOne),
      (''POST'', [Lit ''api'', Lit ''pin-all''], PinAll),
      (''GET'', [Lit ''api'', Lit ''status''], Status),
      (''GET'', [Lit ''api'', Lit ''autopin'', Lit ''rules''], GetRules),
      (''POST'', [Lit ''api'', Lit ''autopin'', Lit ''rules''], AddOne),
      (''PUT'', [Lit ''api'', Lit ''autopin'', Lit ''rules'', Wild], UpdateOne),
      (''DELETE'', [Lit ''api'', Lit ''autopin'', Lit ''rules'', Wild], DeleteOne),
      (''POST'', [Lit ''api'', Lit ''autopin'', Lit ''enable-all''], EnableAll),
      (''POST'', [Lit ''api'', Lit ''autopin'', Lit ''disable-all''], DisableAll),
      (''POST'', [Lit ''api'', Lit ''autopin'', Lit ''evaluate''], Evaluate),
      (''GET'', [Lit ''ipfs'', Rest], IPFSProxy),
      (''GET'', [Rest], Static)]"

text \<open>One handler call; \<open>files\<close> is the file server of the embedded management UI. A handler of a pattern
  with a wildcard gets its value.\<close>

definition call_route :: "texts \<Rightarrow> (request \<Rightarrow> writer \<Rightarrow> writer) \<Rightarrow> 'srv outside \<Rightarrow> request \<Rightarrow> route \<Rightarrow> string \<Rightarrow> 'srv server
    \<Rightarrow> 'srv server \<times> writer option" where
  "call_route tx ui out r t v s =
     (let w = new_writer; pass = (\<lambda>(s, w). (s, Some w)) in
      case t of
        Papers \<Rightarrow> (s, Some (handlePapers tx out s w))
      | PinOne \<Rightarrow> pass (handlePin tx out v s w)
      | UnpinOne \<Rightarrow> pass (handleUnpin tx out v s w)
      | PinAll \<Rightarrow> pass (handlePinAll out s w)
      | Status \<Rightarrow> (s, handleStatus out s w)
      | GetRules \<Rightarrow> (s, Some (handleGetRules s w))
      | AddOne \<Rightarrow> pass (handleAddRule tx out r s w)
      | UpdateOne \<Rightarrow> pass (handleUpdateRule tx out r v s w)
      | DeleteOne \<Rightarrow> pass (handleDeleteRule tx out v s w)
      | EnableAll \<Rightarrow> pass (handleSetAllRules tx out True s w)
      | DisableAll \<Rightarrow> pass (handleSetAllRules tx out False s w)
      | Evaluate \<Rightarrow> pass (handleEvaluateRules tx out s w)
      | IPFSProxy \<Rightarrow> (s, Some (handleIPFSProxy tx r s w))
      | Static \<Rightarrow> (s, Some (ui r w)))"

text \<open>\<open>None\<close> for the response: the handler panicked and the connection was closed.\<close>

definition ServeHTTP :: "texts \<Rightarrow> (request \<Rightarrow> writer \<Rightarrow> writer) \<Rightarrow> 'srv outside \<Rightarrow> request \<Rightarrow> 'srv server
    \<Rightarrow> 'srv server \<times> response option" where
  "ServeHTTP tx ui out r s = (case find_handler routes r of
     Handle t vs \<Rightarrow> (case call_route tx ui out r t (case vs of [] \<Rightarrow> [] | v # _ \<Rightarrow> v) s of
       (s', w) \<Rightarrow> (s', map_option (finish r) w))
   | MovedTo url \<Rightarrow> (s, Some (finish r (http_Redirect r url 301 ''Moved Permanently'' new_writer)))
   | MethodNotAllowed ms \<Rightarrow> (s, Some (finish r (http_Error ''Method Not Allowed'' 405
        (Header_Set ''Allow'' (concat (map (\<lambda>m. m @ '', '') (butlast ms)) @ last ms) new_writer))))
   | NotFound \<Rightarrow> (s, Some (finish r (http_Error ''404 page not found'' 404 new_writer))))"

section \<open>Facts: a posted rule\<close>

lemma decode_body_utf8:
  assumes "decode_body d = Some r"
  shows "rule_utf8 r"
  using assms parse_utf8(1) by (auto simp: decode_body_def decode_first_def bind_eq_Some_conv intro: decode_rule_utf8)

section \<open>Facts: the backend\<close>

interpretation iface: ipfs_backend backend_Pin backend_Unpin backend_IsPinned
proof
  fix c and w :: "'srv world" and b :: "'srv backend"
  assume c: "\<not> cidRegex c"
  show "\<exists>e. backend_Pin w b c = (b, Some e)"
  proof (cases b)
    case (Embedded n bind)
    from node.pin_invalid [OF c, of "(w_fetch w, w_order w, w_plan w)" n] Embedded show ?thesis
      by (auto simp: backend_Pin_def)
  next
    case (Remote p s)
    from c Remote show ?thesis by (simp add: backend_Pin_def pinata_Pin_def split: option.split)
  qed
  show "\<exists>e. backend_Unpin w b c = (b, Some e)"
  proof (cases b)
    case (Embedded n bind)
    from node.unpin_invalid [OF c, of "(w_fetch w, w_order w, w_plan w)" n] Embedded show ?thesis
      by (auto simp: backend_Unpin_def)
  next
    case (Remote p s)
    from c Remote show ?thesis by (simp add: backend_Unpin_def pinata_Unpin_def split: option.split)
  qed
  show "\<exists>e. backend_IsPinned w b c = Inl e"
  proof (cases b)
    case (Embedded n bind)
    from node.is_pinned_invalid [OF c, of "(w_fetch w, w_order w, w_plan w)" n] Embedded show ?thesis
      by (auto simp: backend_IsPinned_def)
  next
    case (Remote p s)
    from c Remote show ?thesis by (simp add: backend_IsPinned_def pinata_IsPinned_def split: option.split)
  qed
qed

section \<open>Facts: routing\<close>

definition reads_only :: "route \<Rightarrow> bool" where
  "reads_only t \<longleftrightarrow> t \<in> {Papers, Status, GetRules, IPFSProxy, Static}"

text \<open>The methods that may change something.\<close>

definition writes :: "string \<Rightarrow> bool" where
  "writes meth \<longleftrightarrow> meth \<in> {''POST'', ''PUT'', ''DELETE''}"

lemma routes_safe: "\<forall>pt \<in> set routes. writes (pt_method pt) \<or> reads_only (pt_route pt)"
  by (simp add: routes_def reads_only_def writes_def)

lemma safe_routes:
  assumes "pt \<in> set routes" "method_matches meth pt" "\<not> writes meth"
  shows "reads_only (pt_route pt)"
proof -
  have "\<not> writes ''GET''" by (simp add: writes_def)
  with assms(2,3) have "\<not> writes (pt_method pt)" unfolding method_matches_def by metis
  with routes_safe assms(1) show ?thesis by blast
qed

lemma reads_only_keeps: "reads_only t \<Longrightarrow> fst (call_route tx ui out r t v s) = s"
  by (auto simp: reads_only_def call_route_def)

end
