(* ===== verification/Api.thy ===== *)
theory Api
  imports Server
begin

text \<open>
  Facts about the management API of \<open>Server\<close>: what reaches which handler, and what the answers of pinning,
  of the rules, of the status and of the gateway redirect say.
\<close>

section \<open>Facts: one request\<close>

lemma literal_segments:
  "path_unescape ''api'' = ''api''" "path_unescape ''pin'' = ''pin''" "path_unescape ''unpin'' = ''unpin''"
  "path_unescape ''autopin'' = ''autopin''" "path_unescape ''rules'' = ''rules''" "path_unescape ''status'' = ''status''"
  "plain_segment ''api''" "plain_segment ''pin''" "plain_segment ''unpin''" "plain_segment ''autopin''"
  "plain_segment ''rules''" "plain_segment ''status''"
  by (simp_all add: path_unescape_plain plain_segment_def)

lemma api_path:
  "''/api/pin/'' @ v = abs_path [''api'', ''pin'', v]"
  "''/api/unpin/'' @ v = abs_path [''api'', ''unpin'', v]"
  "''/api/autopin/rules/'' @ v = abs_path [''api'', ''autopin'', ''rules'', v]"
  "''/api/autopin/rules'' = abs_path [''api'', ''autopin'', ''rules'']"
  "''/api/status'' = abs_path [''api'', ''status'']"
  by (simp_all add: abs_path_def)

text \<open>The value that a wildcard takes from an escaped segment.\<close>

definition value_segment :: "string \<Rightarrow> bool" where
  "value_segment v \<longleftrightarrow> plain_segment v \<and> path_unescape v \<noteq> ''/''"

lemma cid_segment: "cidRegex c \<Longrightarrow> value_segment c \<and> path_unescape c = c"
proof -
  assume c: "cidRegex c"
  have "path_unescape c = c" by (rule path_unescape_plain) (use cidRegex_no_special(5) [OF c] in auto)
  moreover have "c \<noteq> ''/''" "c \<noteq> ''.''" "c \<noteq> ''..''" using cidRegex_no_special(1,2) [OF c] by auto
  ultimately show ?thesis using cidRegex_no_special(1) [OF c] cidRegex_nonempty [OF c]
    by (simp add: value_segment_def plain_segment_def)
qed

lemmas route_simps = routes_def method_matches_def literal_segments value_segment_def

lemma route_value:
  assumes "value_segment v"
  shows "q_method r = ''POST'' \<Longrightarrow> q_path r = ''/api/pin/'' @ v \<Longrightarrow> find_handler routes r = Handle PinOne [path_unescape v]"
    and "q_method r = ''POST'' \<Longrightarrow> q_path r = ''/api/unpin/'' @ v \<Longrightarrow> find_handler routes r = Handle UnpinOne [path_unescape v]"
    and "q_method r = ''DELETE'' \<Longrightarrow> q_path r = ''/api/autopin/rules/'' @ v
      \<Longrightarrow> find_handler routes r = Handle DeleteOne [path_unescape v]"
proof -
  have p: "list_all plain_segment [''api'', ''pin'', v]" "list_all plain_segment [''api'', ''unpin'', v]"
    "list_all plain_segment [''api'', ''autopin'', ''rules'', v]"
    using assms by (simp_all add: literal_segments value_segment_def)
  show "q_method r = ''POST'' \<Longrightarrow> q_path r = ''/api/pin/'' @ v \<Longrightarrow> find_handler routes r = Handle PinOne [path_unescape v]"
    unfolding api_path using find_handler_abs [OF p(1), of r routes] segments_abs [OF p(1)] assms by (simp add: route_simps)
  show "q_method r = ''POST'' \<Longrightarrow> q_path r = ''/api/unpin/'' @ v \<Longrightarrow> find_handler routes r = Handle UnpinOne [path_unescape v]"
    unfolding api_path using find_handler_abs [OF p(2), of r routes] segments_abs [OF p(2)] assms by (simp add: route_simps)
  show "q_method r = ''DELETE'' \<Longrightarrow> q_path r = ''/api/autopin/rules/'' @ v
      \<Longrightarrow> find_handler routes r = Handle DeleteOne [path_unescape v]"
    unfolding api_path using find_handler_abs [OF p(3), of r routes] segments_abs [OF p(3)] assms by (simp add: route_simps)
qed

lemma route_fixed:
  "q_method r = ''GET'' \<Longrightarrow> q_path r = ''/api/autopin/rules'' \<Longrightarrow> find_handler routes r = Handle GetRules []"
  "q_method r = ''POST'' \<Longrightarrow> q_path r = ''/api/autopin/rules'' \<Longrightarrow> find_handler routes r = Handle AddOne []"
  "q_method r = ''GET'' \<Longrightarrow> q_path r = ''/api/status'' \<Longrightarrow> find_handler routes r = Handle Status []"
proof -
  have p: "list_all plain_segment [''api'', ''autopin'', ''rules'']" "list_all plain_segment [''api'', ''status'']"
    by (simp_all add: literal_segments)
  show "q_method r = ''GET'' \<Longrightarrow> q_path r = ''/api/autopin/rules'' \<Longrightarrow> find_handler routes r = Handle GetRules []"
    "q_method r = ''POST'' \<Longrightarrow> q_path r = ''/api/autopin/rules'' \<Longrightarrow> find_handler routes r = Handle AddOne []"
    unfolding api_path using find_handler_abs [OF p(1), of r routes] segments_abs [OF p(1)] by (simp_all add: route_simps)
  show "q_method r = ''GET'' \<Longrightarrow> q_path r = ''/api/status'' \<Longrightarrow> find_handler routes r = Handle Status []"
    unfolding api_path using find_handler_abs [OF p(2), of r routes] segments_abs [OF p(2)] by (simp add: route_simps)
qed

text \<open>What is sent for an error and for a value.\<close>

lemma finish_Error:
  "rs_status (finish r (http_Error msg code new_writer)) = code"
  "rs_body (finish r (http_Error msg code new_writer)) = (if q_method r = ''HEAD'' then [] else msg @ [CHR 0x0A])"
  by (simp_all add: finish_def http_Error_def Write_def WriteHeader_def Header_Set_def new_writer_def Let_def)

lemma finish_JSON:
  "finish r (writeJSON (Some j) new_writer) = \<lparr>rs_status = 200, rs_header = [(''Content-Type'', ''application/json'')],
     rs_body = (if q_method r = ''HEAD'' then [] else compact j @ [CHR 0x0A])\<rparr>"
  "finish r (writeJSON (Some j) (WriteHeader code new_writer)) = \<lparr>rs_status = code, rs_header = [],
     rs_body = (if q_method r = ''HEAD'' then [] else compact j @ [CHR 0x0A])\<rparr>"
  by (simp_all add: finish_def writeJSON_def Write_def WriteHeader_def Header_Set_def new_writer_def Let_def)

lemma parse_json_line:
  assumes "writable max_depth v"
  shows "parse_json (compact v @ [CHR 0x0A]) = Some v"
proof -
  have "num_end [CHR 0x0A]" by (simp add: num_end_def is_digit_def in_range_def less_eq_char_def)
  from parse_compact(1) [OF assms this] show ?thesis by (simp add: parse_json_def skip_ws_def is_ws_def)
qed

lemma ascii_names:
  "valid_utf8 ''id''" "valid_utf8 ''name''" "valid_utf8 ''enabled''" "valid_utf8 ''disciplines''"
  "valid_utf8 ''authors''" "valid_utf8 ''cid_types''" "valid_utf8 ''title_pattern''"
  "valid_utf8 ''created_after''" "valid_utf8 ''created_before''" "valid_utf8 ''cid''" "valid_utf8 ''status''"
  "valid_utf8 ''pinned''" "valid_utf8 ''unpinned''"
  by (auto intro!: ascii_valid_utf8 simp: byte_def)

lemma parse_rules_line:
  assumes "list_all rule_utf8 rs"
  shows "unmarshal_rules (compact (json_rules rs) @ [CHR 0x0A]) = Some (Some rs)"
proof -
  have "writable (max_depth - 1) (json_rule r)" if "rule_utf8 r" for r
    using that by (simp add: json_rule_def rule_utf8_def ascii_names max_depth_def writable_slice)
  with assms have "writable max_depth (json_rules rs)"
    by (auto simp: json_rules_def list_all_iff max_depth_def)
  then show ?thesis by (simp add: unmarshal_rules_def parse_json_line) (simp add: json_rules_def)
qed

lemma embedded_pin:
  assumes "backend_Pin w (Embedded n bind) c = (b, e)"
  shows "\<exists>n'. b = Embedded n' bind \<and> (e = None \<longrightarrow> pins n' = insert c (pins n)) \<and> (e \<noteq> None \<longrightarrow> n' = n)"
proof -
  obtain n' e' where p: "node_Pin (w_fetch w, w_order w, w_plan w) n c = (n', e')" by fastforce
  have "n' = n" if "e' = Some x" for x
    using p that by (auto simp: node_Pin_def split: option.splits if_splits)
  with p assms node.pin_ok [of "(w_fetch w, w_order w, w_plan w)" n c n'] show ?thesis
    by (cases e') (auto simp: backend_Pin_def)
qed

definition pin_reply :: "string \<Rightarrow> json" where
  "pin_reply c = JObj [(''cid'', JStr c), (''status'', JStr ''pinned'')]"

definition pin_response :: "texts \<Rightarrow> request \<Rightarrow> string \<Rightarrow> backend_err option \<Rightarrow> response" where
  "pin_response tx r c e = finish r (case e of None \<Rightarrow> writeJSON (Some (pin_reply c)) new_writer
     | Some x \<Rightarrow> http_Error (tx_backend tx x) 500 new_writer)"

lemma serve_pin:
  assumes "q_method r = ''POST''" "cidRegex c" "q_path r = ''/api/pin/'' @ c"
  shows "ServeHTTP tx ui out r s = (case backend_Pin (out_call out) (srv_backend s) c of
    (b, e) \<Rightarrow> (s\<lparr>srv_backend := b\<rparr>, Some (pin_response tx r c e)))"
proof -
  have h: "find_handler routes r = Handle PinOne [c]" using route_value(1) [OF _ assms(1,3)] cid_segment [OF assms(2)] by simp
  have c: "c \<noteq> []" "ValidateCID c = None" using assms(2) by auto
  obtain b e where "backend_Pin (out_call out) (srv_backend s) c = (b, e)" by fastforce
  with c(1) show ?thesis
    by (cases e) (simp_all add: c(2) ServeHTTP_def h call_route_def handlePin_def pin_response_def pin_reply_def)
qed

lemma pin_response_body:
  assumes "cidRegex c" "q_method r \<noteq> ''HEAD''"
  shows "case e of None \<Rightarrow> rs_status (pin_response tx r c e) = 200
      \<and> parse_json (rs_body (pin_response tx r c e)) = Some (JObj [(''cid'', JStr c), (''status'', JStr ''pinned'')])
    | Some x \<Rightarrow> rs_status (pin_response tx r c e) = 500 \<and> rs_body (pin_response tx r c e) = tx_backend tx x @ [CHR 0x0A]"
proof -
  have "writable max_depth (pin_reply c)"
    using assms(1) cid_valid_utf8 by (simp add: pin_reply_def ascii_names max_depth_def)
  from parse_json_line [OF this] assms(2) show ?thesis
    by (simp add: pin_response_def finish_JSON finish_Error pin_reply_def [symmetric] split: option.split)
qed

section \<open>Properties\<close>

text \<open>
  C20: reading the API changes nothing. Whatever the path, the headers and the body, a request whose
  method is not \<open>POST\<close>, \<open>PUT\<close> or \<open>DELETE\<close> leaves the backend, the rules, their file and the rest of the
  server as they were: the mux gives it no handler that writes.
\<close>

theorem reads_change_nothing:
  assumes "q_method r \<notin> {''POST'', ''PUT'', ''DELETE''}"
  shows "fst (ServeHTTP tx ui out r s) = s"
proof (cases "find_handler routes r")
  case (Handle t vs)
  then obtain pt where "pt \<in> set routes" "method_matches (q_method r) pt" "pt_route pt = t" by (rule find_handler_HandleD)
  with safe_routes assms have "reads_only t" by (auto simp: writes_def)
  with Handle reads_only_keeps [of t tx ui out r _ s] show ?thesis
    by (simp add: ServeHTTP_def prod.case_eq_if)
qed (simp_all add: ServeHTTP_def)

text \<open>
  C21: pinning over the API. \<open>POST /api/pin/<cid>\<close> for a well-formed CID makes exactly the backend's
  \<open>Pin\<close> call and answers 200 with the CID and \<open>pinned\<close> if it succeeded, else 500 with the error; with
  the embedded node the pin set grows by that CID in the first case and nothing changes in the
  second. Any other value of the segment, for \<open>pin\<close> and for \<open>unpin\<close>, is answered 400, and the backend
  is not called.
\<close>

theorem pin_endpoint_exact:
  assumes "q_method r = ''POST''" "value_segment v"
  shows "(cidRegex v \<and> q_path r = ''/api/pin/'' @ v \<longrightarrow> (\<exists>b e resp. backend_Pin (out_call out) (srv_backend s) v = (b, e)
       \<and> ServeHTTP tx ui out r s = (s\<lparr>srv_backend := b\<rparr>, Some resp)
       \<and> (case e of
            None \<Rightarrow> rs_status resp = 200 \<and> parse_json (rs_body resp) = Some (JObj [(''cid'', JStr v), (''status'', JStr ''pinned'')])
          | Some x \<Rightarrow> rs_status resp = 500 \<and> rs_body resp = tx_backend tx x @ [CHR 0x0A])
       \<and> (\<forall>n bind. srv_backend s = Embedded n bind \<longrightarrow> (\<exists>n'. b = Embedded n' bind
            \<and> (e = None \<longrightarrow> pins n' = insert v (pins n)) \<and> (e \<noteq> None \<longrightarrow> n' = n)))))
   \<and> (\<not> cidRegex (path_unescape v) \<and> (q_path r = ''/api/pin/'' @ v \<or> q_path r = ''/api/unpin/'' @ v)
       \<longrightarrow> (\<exists>resp. ServeHTTP tx ui out r s = (s, Some resp) \<and> rs_status resp = 400))"
proof (intro conjI impI)
  assume a: "cidRegex v \<and> q_path r = ''/api/pin/'' @ v"
  obtain b e where b: "backend_Pin (out_call out) (srv_backend s) v = (b, e)" by fastforce
  have run: "ServeHTTP tx ui out r s = (s\<lparr>srv_backend := b\<rparr>, Some (pin_response tx r v e))"
    using serve_pin [OF assms(1), of v tx ui out s] a b by simp
  have emb: "\<forall>n bind. srv_backend s = Embedded n bind \<longrightarrow> (\<exists>n'. b = Embedded n' bind
            \<and> (e = None \<longrightarrow> pins n' = insert v (pins n)) \<and> (e \<noteq> None \<longrightarrow> n' = n))"
    using embedded_pin b by metis
  from a have "(case e of
        None \<Rightarrow> rs_status (pin_response tx r v e) = 200
          \<and> parse_json (rs_body (pin_response tx r v e)) = Some (JObj [(''cid'', JStr v), (''status'', JStr ''pinned'')])
      | Some x \<Rightarrow> rs_status (pin_response tx r v e) = 500 \<and> rs_body (pin_response tx r v e) = tx_backend tx x @ [CHR 0x0A])"
    using pin_response_body [of v r tx e] assms(1) by simp
  with b run emb show "\<exists>b e resp. backend_Pin (out_call out) (srv_backend s) v = (b, e) \<and> ServeHTTP tx ui out r s = (s\<lparr>srv_backend := b\<rparr>, Some resp)
       \<and> (case e of
            None \<Rightarrow> rs_status resp = 200 \<and> parse_json (rs_body resp) = Some (JObj [(''cid'', JStr v), (''status'', JStr ''pinned'')])
          | Some x \<Rightarrow> rs_status resp = 500 \<and> rs_body resp = tx_backend tx x @ [CHR 0x0A])
       \<and> (\<forall>n bind. srv_backend s = Embedded n bind \<longrightarrow> (\<exists>n'. b = Embedded n' bind
            \<and> (e = None \<longrightarrow> pins n' = insert v (pins n)) \<and> (e \<noteq> None \<longrightarrow> n' = n)))"
    by blast
next
  assume a: "\<not> cidRegex (path_unescape v) \<and> (q_path r = ''/api/pin/'' @ v \<or> q_path r = ''/api/unpin/'' @ v)"
  then have h: "find_handler routes r = Handle PinOne [path_unescape v] \<or> find_handler routes r = Handle UnpinOne [path_unescape v]"
    using route_value(1,2) [OF assms(2,1)] by blast
  have v: "ValidateCID (path_unescape v) = Some (InvalidCID (path_unescape v))" using a by simp
  from h show "\<exists>resp. ServeHTTP tx ui out r s = (s, Some resp) \<and> rs_status resp = 400"
    by (elim disjE) (simp_all add: v ServeHTTP_def call_route_def handlePin_def handleUnpin_def finish_Error)
qed

text \<open>Concrete texts, requests and answers.\<close>

definition demo_texts :: texts where
  "demo_texts = \<lparr>tx_backend = (\<lambda>_. ''backend''), tx_rules = (\<lambda>_. ''rules''), tx_json = (\<lambda>_. ''json''),
     tx_quote = (\<lambda>s. s), tx_time = (\<lambda>_. Some ''2026-01-01T00:00:00Z''), tx_lower = (\<lambda>s. s)\<rparr>"

definition demo_request :: "string \<Rightarrow> string \<Rightarrow> string \<Rightarrow> request" where
  "demo_request meth path body = \<lparr>q_method = meth, q_path = path, q_query = [], q_host = ''localhost:8421'', q_body = body\<rparr>"

definition demo_world :: "unit world" where
  "demo_world = \<lparr>w_fetch = fetch_all, w_order = (\<lambda>_. []), w_plan = plan_ok, w_send = (\<lambda>s _. (s, None))\<rparr>"

definition demo_outside :: "io_plan \<Rightarrow> unit outside" where
  "demo_outside pl = \<lparr>out_call = demo_world, out_item = (\<lambda>_. demo_world), out_plan = pl, out_random = replicate 16 (CHR 0x00), out_now = 5\<rparr>"

definition demo_server :: "unit server" where
  "demo_server = NewServer [] (Embedded (open_node empty_fs ''pins.json'') ''127.0.0.1:8080'') (demo_saved [zero_rule\<lparr>r_ID := ''a''\<rparr>])
     (NewAutoPinRunner 4 20) 0 7 4 20"

theorem reads_change_nothing_witness:
  "fst (ServeHTTP demo_texts (\<lambda>r w. w) (demo_outside plan_ok) (demo_request ''GET'' ''/api/autopin/rules'' []) demo_server) = demo_server"
  by (rule reads_change_nothing) (simp add: demo_request_def)

theorem pin_endpoint_exact_witness:
  "\<exists>resp. ServeHTTP demo_texts (\<lambda>r w. w) (demo_outside plan_ok) (demo_request ''POST'' ''/api/pin/hello'' []) demo_server = (demo_server, Some resp)
    \<and> rs_status resp = 400"
proof -
  have "value_segment ''hello'' \<and> \<not> cidRegex (path_unescape ''hello'')" by code_simp
  then show ?thesis
    using pin_endpoint_exact [of "demo_request ''POST'' ''/api/pin/hello'' []" "''hello''" "demo_outside plan_ok" demo_server demo_texts "\<lambda>r w. w"]
    by (simp add: demo_request_def)
qed

text \<open>
  C22: a rule that is added is listed. If the server's rules are UTF-8, \<open>POST\<close> to
  the rules answers 201 or 500, and a following \<open>GET\<close> answers 200 with a JSON list that decodes to the
  rules before, in their order, followed in the first case by the posted rule under its new identifier.
\<close>

theorem added_rule_is_listed:
  assumes "list_all rule_utf8 (Rules (autopin s))" "decode_body (q_body r1) = Some rule"
    "q_method r1 = ''POST''" "q_path r1 = ''/api/autopin/rules''" "q_method r2 = ''GET''" "q_path r2 = ''/api/autopin/rules''"
    "ServeHTTP tx ui out1 r1 s = (s1, a1)"
  shows "\<exists>x y rs. a1 = Some x \<and> ServeHTTP tx ui out2 r2 s1 = (s1, Some y) \<and> rs_status y = 200
    \<and> unmarshal_rules (rs_body y) = Some (Some rs)
    \<and> (rs_status x = 201 \<and> rs = Rules (autopin s) @ [rule\<lparr>r_ID := newID (out_random out1)\<rparr>]
       \<or> rs_status x = 500 \<and> rs = Rules (autopin s))"
proof -
  note h1 = route_fixed(2) [OF assms(3,4)] and h2 = route_fixed(1) [OF assms(5,6)]
  obtain m res where add: "AddRule (out_random out1) (out_plan out1) rule (autopin s) = (m, res)" by fastforce
  let ?new = "rule\<lparr>r_ID := newID (out_random out1)\<rparr>"
  have new: "rule_utf8 ?new" using decode_body_utf8 [OF assms(2)] newID_utf8 by (simp add: rule_utf8_def)
  have rules: "Rules m = (case res of Inl _ \<Rightarrow> Rules (autopin s) | Inr _ \<Rightarrow> Rules (autopin s) @ [?new])"
    using add by (auto simp: AddRule_def Rules_def Let_def dest!: saveLocked_rules split: prod.splits option.splits sum.splits)
  have get: "ServeHTTP tx ui out2 r2 s1 = (s1, Some (finish r2 (writeJSON (Some (json_rules (Rules (autopin s1)))) new_writer)))"
    by (simp add: ServeHTTP_def h2 call_route_def handleGetRules_def)
  have s1: "s1 = s\<lparr>autopin := m\<rparr>" and a1: "a1 = Some (finish r1 (case res of
      Inl e \<Rightarrow> http_Error (tx_rules tx e) 500 new_writer | Inr c \<Rightarrow> writeJSON (Some (json_rule c)) (WriteHeader 201 new_writer)))"
    using assms(7) by (cases res; simp add: ServeHTTP_def h1 call_route_def handleAddRule_def assms(2) add)+
  have "list_all rule_utf8 (Rules m)" using assms(1) new rules by (simp split: sum.splits)
  from parse_rules_line [OF this] assms(5) show ?thesis
    unfolding s1 a1 by (cases res) (simp_all add: get [unfolded s1] finish_JSON finish_Error rules)
qed

definition demo_rule :: string where
  "demo_rule = [CHR 0x7B, CHR 0x22, CHR ''n'', CHR ''a'', CHR ''m'', CHR ''e'', CHR 0x22, CHR '':'', CHR 0x22, CHR ''x'', CHR 0x22, CHR 0x7D]"

theorem added_rule_is_listed_witness:
  "\<exists>y rs. snd (ServeHTTP demo_texts (\<lambda>r w. w) (demo_outside plan_ok) (demo_request ''GET'' ''/api/autopin/rules'' [])
      (fst (ServeHTTP demo_texts (\<lambda>r w. w) (demo_outside plan_ok) (demo_request ''POST'' ''/api/autopin/rules'' demo_rule) demo_server)))
    = Some y \<and> unmarshal_rules (rs_body y) = Some (Some rs)"
proof -
  have d: "decode_body demo_rule = Some (zero_rule\<lparr>r_Name := ''x''\<rparr>)" by code_simp
  have u: "rule_utf8 (zero_rule\<lparr>r_ID := ''a''\<rparr>)"
    by (auto simp: rule_utf8_def zero_rule_def byte_def intro!: ascii_valid_utf8)
  have "Rules (autopin demo_server) = [zero_rule\<lparr>r_ID := ''a''\<rparr>]"
    by (simp add: demo_server_def NewServer_def demo_saved_def Rules_def)
  then have r: "list_all rule_utf8 (Rules (autopin demo_server))" using u by simp
  let ?r1 = "demo_request ''POST'' ''/api/autopin/rules'' demo_rule" and ?r2 = "demo_request ''GET'' ''/api/autopin/rules'' []"
  obtain s1 a1 where s1: "ServeHTTP demo_texts (\<lambda>r w. w) (demo_outside plan_ok) ?r1 demo_server = (s1, a1)" by fastforce
  have q: "q_body ?r1 = demo_rule" "q_method ?r1 = ''POST''" "q_path ?r1 = ''/api/autopin/rules''"
    "q_method ?r2 = ''GET''" "q_path ?r2 = ''/api/autopin/rules''" by (simp_all add: demo_request_def)
  have d': "decode_body (q_body ?r1) = Some (zero_rule\<lparr>r_Name := ''x''\<rparr>)" unfolding q(1) by (rule d)
  from added_rule_is_listed [OF r d' q(2-5) s1, of "demo_outside plan_ok"] s1 show ?thesis by auto
qed

text \<open>
  The answer that a rule was created is not declared as JSON. \<open>handleAddRule\<close> writes the status
  before \<open>writeJSON\<close> sets the header, so the 201 has no \<open>Content-Type\<close>, which every other JSON answer of
  the API has (the list of the rules here).
\<close>

theorem created_lacks_content_type:
  assumes "decode_body (q_body r) = Some rule" "q_method r = ''POST''" "q_path r = ''/api/autopin/rules''"
    "snd (AddRule (out_random out) (out_plan out) rule (autopin s)) = Inr created"
    "q_method r2 = ''GET''" "q_path r2 = ''/api/autopin/rules''"
  shows "\<exists>x y. snd (ServeHTTP tx ui out r s) = Some x \<and> rs_status x = 201 \<and> header_get (rs_header x) ''Content-Type'' = None
    \<and> snd (ServeHTTP tx ui out r2 s) = Some y \<and> header_get (rs_header y) ''Content-Type'' = Some ''application/json''"
proof -
  obtain m where "AddRule (out_random out) (out_plan out) rule (autopin s) = (m, Inr created)" using assms(4) by (metis prod.collapse)
  then show ?thesis
    by (simp add: ServeHTTP_def route_fixed(2) [OF assms(2,3)] route_fixed(1) [OF assms(5,6)] call_route_def
        handleAddRule_def handleGetRules_def assms(1) finish_JSON header_get_def)
qed

theorem created_lacks_content_type_witness:
  "\<exists>x. snd (ServeHTTP demo_texts (\<lambda>r w. w) (demo_outside plan_ok) (demo_request ''POST'' ''/api/autopin/rules'' demo_rule) demo_server) = Some x
    \<and> rs_status x = 201 \<and> header_get (rs_header x) ''Content-Type'' = None"
proof -
  have d: "decode_body demo_rule = Some (zero_rule\<lparr>r_Name := ''x''\<rparr>)" by code_simp
  have "\<exists>c. snd (AddRule (replicate 16 (CHR 0x00)) plan_ok (zero_rule\<lparr>r_Name := ''x''\<rparr>) (autopin demo_server)) = Inr c"
  proof -
    have "\<not> isl (snd (AddRule (replicate 16 (CHR 0x00)) plan_ok (zero_rule\<lparr>r_Name := ''x''\<rparr>) (autopin demo_server)))" by code_simp
    then show ?thesis by (cases "snd (AddRule (replicate 16 (CHR 0x00)) plan_ok (zero_rule\<lparr>r_Name := ''x''\<rparr>) (autopin demo_server))") auto
  qed
  then obtain c where c: "snd (AddRule (replicate 16 (CHR 0x00)) plan_ok (zero_rule\<lparr>r_Name := ''x''\<rparr>) (autopin demo_server)) = Inr c" ..
  have q: "q_body (demo_request m p b) = b" "q_method (demo_request m p b) = m" "q_path (demo_request m p b) = p" for m p b
    by (simp_all add: demo_request_def)
  have o': "out_random (demo_outside plan_ok) = replicate 16 (CHR 0x00)" "out_plan (demo_outside plan_ok) = plan_ok"
    by (simp_all add: demo_outside_def)
  show ?thesis
    using created_lacks_content_type [of "demo_request ''POST'' ''/api/autopin/rules'' demo_rule" "zero_rule\<lparr>r_Name := ''x''\<rparr>"
      "demo_outside plan_ok" demo_server c "demo_request ''GET'' ''/api/autopin/rules'' []" demo_texts "\<lambda>r w. w"]
    unfolding q o' using d c by blast
qed

text \<open>
  A rule whose deletion could not be saved is reported as not found. The rule is there, the file
  cannot be written: the answer is 404, the rule is gone from memory, and the file still has it.
\<close>

theorem unsaved_delete_answers_404:
  assumes "q_method r = ''DELETE''" "value_segment v" "q_path r = ''/api/autopin/rules/'' @ v"
    "rule_index (path_unescape v) (Rules (autopin s)) = Some i" "DeleteRule (out_plan out) (path_unescape v) (autopin s) = (m, Some e)"
    "fs_wf (m_files (autopin s))"
  shows "\<exists>x. ServeHTTP tx ui out r s = (s\<lparr>autopin := m\<rparr>, Some x) \<and> rs_status x = 404
    \<and> Rules m = take i (Rules (autopin s)) @ drop (i + 1) (Rules (autopin s))
    \<and> read_file (m_files m) (m_filePath (autopin s)) = read_file (m_files (autopin s)) (m_filePath (autopin s))"
proof -
  from mgr_call_spec [of "out_plan out" "OpDelete (path_unescape v)" "autopin s" m "Some e"] assms(5,6)
  have f: "read_file (m_files m) (m_filePath (autopin s)) = read_file (m_files (autopin s)) (m_filePath (autopin s))"
    by (simp add: mgr_call_def)
  have "Rules m = take i (Rules (autopin s)) @ drop (i + 1) (Rules (autopin s))"
    using assms(4,5) by (auto simp: DeleteRule_def Rules_def dest: saveLocked_rules)
  with f show ?thesis
    by (simp add: ServeHTTP_def route_value(3) [OF assms(2,1,3)] call_route_def handleDeleteRule_def assms(5) finish_Error)
qed

theorem unsaved_delete_answers_404_witness:
  "\<exists>x. snd (ServeHTTP demo_texts (\<lambda>r w. w) (demo_outside plan_full) (demo_request ''DELETE'' ''/api/autopin/rules/a'' []) demo_server) = Some x
    \<and> rs_status x = 404"
proof -
  let ?r = "demo_request ''DELETE'' ''/api/autopin/rules/a'' []"
  have v: "value_segment ''a''" "path_unescape ''a'' = ''a''" by code_simp+
  have "rule_index ''a'' (Rules (autopin demo_server)) = Some 0"
    by (simp add: demo_server_def NewServer_def demo_saved_def Rules_def)
  moreover obtain m e where "DeleteRule plan_full ''a'' (autopin demo_server) = (m, Some e)"
    by (auto simp: DeleteRule_def saveLocked_def demo_server_def NewServer_def demo_saved_def atomicWriteFile_def plan_full_def
        split: prod.splits)
  moreover have "fs_wf (m_files (autopin demo_server))"
    by (simp add: demo_server_def NewServer_def demo_saved_def awf.store_wf [OF _ surjective_pairing])
  ultimately show ?thesis
    using unsaved_delete_answers_404 [of ?r "''a''" demo_server 0 "demo_outside plan_full" m e demo_texts "\<lambda>r w. w"] v
    by (auto simp: demo_request_def demo_outside_def)
qed

text \<open>
  The status. With a positive refresh interval \<open>GET /api/status\<close> answers 200 with the counts of
  the discovered items and of those whose probe says pinned, and with the time \<open>d\<close> until the next
  multiple of the interval since the start, which is positive and at most the interval; with an
  interval of zero the handler panics and the client gets no answer.
\<close>

theorem status_exact:
  assumes "q_method r = ''GET''" "q_path r = ''/api/status''" "0 \<le> srv_refresh s" "startTime s \<le> out_now out"
  shows "if srv_refresh s = 0 then ServeHTTP tx ui out r s = (s, None)
    else (\<exists>d. ServeHTTP tx ui out r s = (s, Some \<lparr>rs_status = 200, rs_header = [(''Content-Type'', ''application/json'')],
        rs_body = compact (JObj
          [(''total_discovered'', json_int (int (length (discovery_items s)))),
           (''pinned_count'', json_int (int (card {i. i < length (discovery_items s)
              \<and> backend_IsPinned (out_item out (discovery_items s ! i)) (srv_backend s) (item_CID (discovery_items s ! i)) = Inr True}))),
           (''next_refresh'', JStr (formatDuration d)), (''mode'', JStr (srv_mode s)),
           (''refresh_interval'', JStr (Duration_String (srv_refresh s))),
           (''autopin_concurrency'', json_int (autoPinConcurrency s)), (''autopin_author_cap'', json_int (autoPinAuthorCap s))])
          @ [CHR 0x0A]\<rparr>)
      \<and> 0 < d \<and> d \<le> srv_refresh s \<and> srv_refresh s dvd out_now out - startTime s + d)"
proof -
  let ?e = "out_now out - startTime s" and ?f = "srv_refresh s"
  note h = route_fixed(3) [OF assms(1,2)]
  have count: "length (filter (shown_pinned out s) (discovery_items s)) = card {i. i < length (discovery_items s)
      \<and> backend_IsPinned (out_item out (discovery_items s ! i)) (srv_backend s) (item_CID (discovery_items s ! i)) = Inr True}"
    unfolding length_filter_conv_card
    by (intro arg_cong [where f = card] Collect_cong) (auto simp: shown_pinned_def split: sum.splits)
  have m: "tmod ?e ?f = ?e mod ?f" using assms(3,4) by (simp add: tmod_def)
  have "?f \<noteq> 0 \<Longrightarrow> 0 < ?f - ?e mod ?f \<and> ?f - ?e mod ?f \<le> ?f" using assms(3) by simp
  moreover have "?f dvd ?e + (?f - ?e mod ?f)"
  proof -
    have "?e + (?f - ?e mod ?f) = ?f * (1 + ?e div ?f)" using div_mult_mod_eq [of ?e ?f] by (simp add: algebra_simps)
    then show ?thesis by (metis dvd_triv_left)
  qed
  ultimately show ?thesis
    using assms(1) by (auto simp: ServeHTTP_def h call_route_def handleStatus_def Let_def m count finish_JSON simp del: compact.simps
        intro!: exI [of _ "?f - ?e mod ?f"])
qed

theorem status_exact_witness:
  "\<exists>d. snd (ServeHTTP demo_texts (\<lambda>r w. w) (demo_outside plan_ok) (demo_request ''GET'' ''/api/status'' []) demo_server) \<noteq> None
    \<and> 0 < d \<and> d \<le> (7 :: int) \<and> 7 dvd 5 + d"
proof -
  have s: "srv_refresh demo_server = 7" "startTime demo_server = 0" "out_now (demo_outside plan_ok) = 5"
    by (simp_all add: demo_server_def NewServer_def demo_outside_def)
  have q: "q_method (demo_request m p b) = m" "q_path (demo_request m p b) = p" for m p b by (simp_all add: demo_request_def)
  show ?thesis
    using status_exact [of "demo_request ''GET'' ''/api/status'' []" demo_server "demo_outside plan_ok" demo_texts "\<lambda>r w. w"]
    unfolding s q by auto
qed

text \<open>The Location of an answer.\<close>

definition location :: "response \<Rightarrow> string option" where
  "location x = header_get (rs_header x) ''Location''"

lemma finish_Redirect:
  "rs_status (finish r (http_Redirect r url code st new_writer)) = code"
  "location (finish r (http_Redirect r url code st new_writer)) = Some (hex_escape_non_ascii url)"
  by (simp_all add: location_def finish_def http_Redirect_def Write_def WriteHeader_def Header_Set_def new_writer_def
      header_get_def Let_def)

lemma hex_escape_ascii: "\<forall>c \<in> set s. byte_val c < 128 \<Longrightarrow> hex_escape_non_ascii s = s"
proof -
  assume "\<forall>c \<in> set s. byte_val c < 128"
  then have "map (\<lambda>c. if byte_val c \<ge> 128 then [CHR ''%'', lower_hex (byte_val c div 16), lower_hex (byte_val c mod 16)] else [c]) s
    = map (\<lambda>c. [c]) s" by auto
  then show ?thesis by (simp only: hex_escape_non_ascii_def) simp
qed

definition plain_host :: "string \<Rightarrow> bool" where
  "plain_host h \<longleftrightarrow> CHR '':'' \<notin> set h \<and> CHR ''['' \<notin> set h \<and> CHR '']'' \<notin> set h"

lemma SplitHostPort_plain:
  assumes "plain_host h" "plain_host p"
  shows "SplitHostPort (h @ '':'' @ p) = Some (h, p)"
proof -
  have "takeWhile (\<lambda>x. x \<noteq> CHR '':'') (rev (h @ '':'' @ p)) = rev p"
    using assms by (simp add: plain_host_def takeWhile_component [of "CHR '':''" "rev p" "CHR '':'' # rev h"] HasPrefix_single)
  then have i: "last_index (CHR '':'') (h @ CHR '':'' # p) = Some (length h)" by (simp add: last_index_def)
  have b: "\<not> HasPrefix (h @ CHR '':'' # p) ''[''" using assms by (cases h) (auto simp: HasPrefix_single plain_host_def)
  from assms have "SplitHostPort (h @ CHR '':'' # p) = Some (h, p)" by (simp add: SplitHostPort_def i b Let_def plain_host_def)
  then show ?thesis by simp
qed

lemma SplitHostPort_no_port: "CHR '':'' \<notin> set h \<Longrightarrow> SplitHostPort h = None"
  by (simp add: SplitHostPort_def last_index_def)

lemma proxy_root:
  assumes "url_path r = ''/ipfs/'' @ c @ rest" "CHR ''/'' \<notin> set c" "rest = [] \<or> HasPrefix rest ''/''"
  shows "fst (Cut (drop (length ''/ipfs/'') (url_path r)) ''/'') = c"
proof -
  have "fst (Cut (c @ rest) ''/'') = c"
    using takeWhile_component [OF assms(2,3)] assms(2,3) by (cases "rest = []") (auto simp: Cut_single HasPrefix_single)
  then show ?thesis by (simp add: assms(1))
qed

lemma proxy_remote:
  assumes "url_path r = ''/ipfs/'' @ c @ rest" "cidRegex c" "rest = [] \<or> HasPrefix rest ''/''" "srv_backend s = Remote p srv"
  shows "handleIPFSProxy tx r s w = http_Redirect r (''https://gateway.pinata.cloud/ipfs/'' @ c @ rest) 307 ''Temporary Redirect'' w"
proof -
  obtain y z where cut: "Cut (drop (length ''/ipfs/'') (url_path r)) ''/'' = (c, y, z)"
    using proxy_root [OF assms(1) cidRegex_no_special(1) [OF assms(2)] assms(3)]
    by (cases "Cut (drop (length ''/ipfs/'') (url_path r)) ''/''") auto
  have v: "c \<noteq> []" "ValidateCID c = None" using assms(2) by auto
  have d: "drop (length ''/ipfs/'') (url_path r) = c @ rest" by (simp add: assms(1))
  note cut = cut [unfolded d]
  show ?thesis unfolding handleIPFSProxy_def Let_def d cut prod.case if_not_P [OF v(1)] v(2) option.case assms(4) backend.case ..
qed

lemma proxy_embedded:
  assumes "url_path r = ''/ipfs/'' @ c @ rest" "cidRegex c" "rest = [] \<or> HasPrefix rest ''/''" "srv_backend s = Embedded n bind"
  shows "handleIPFSProxy tx r s w = http_Redirect r ((case SplitHostPort (q_host r) of
       Some (h, _) \<Rightarrow> (case SplitHostPort bind of Some (_, gwPort) \<Rightarrow> ''http://'' @ h @ '':'' @ gwPort | None \<Rightarrow> ''http://'' @ q_host r)
     | None \<Rightarrow> ''http://'' @ q_host r) @ url_path r) 307 ''Temporary Redirect'' w"
proof -
  obtain y z where cut: "Cut (drop (length ''/ipfs/'') (url_path r)) ''/'' = (c, y, z)"
    using proxy_root [OF assms(1) cidRegex_no_special(1) [OF assms(2)] assms(3)]
    by (cases "Cut (drop (length ''/ipfs/'') (url_path r)) ''/''") auto
  have v: "c \<noteq> []" "ValidateCID c = None" using assms(2) by auto
  show ?thesis unfolding handleIPFSProxy_def Let_def cut prod.case if_not_P [OF v(1)] v(2) option.case assms(4) backend.case
    by (simp split: option.split)
qed

text \<open>
  Where the gateway redirect leads. For \<open>/ipfs/<cid>\<close>, alone or followed by a slash and anything
  in ASCII, the handler answers 307: with Pinata to the same path of Pinata's gateway; with the embedded
  node, when the request names a host with a port and the gateway is bound to an address with a port,
  to the same path at that host and the gateway's port. A root that is not a CID is answered 400.
\<close>

theorem proxy_redirects:
  assumes "url_path r = ''/ipfs/'' @ c @ rest" "rest = [] \<or> HasPrefix rest ''/''" "CHR ''/'' \<notin> set c"
    "\<forall>x \<in> set (c @ rest). byte_val x < 128"
  shows "(\<not> cidRegex c \<longrightarrow> rs_status (finish r (handleIPFSProxy tx r s new_writer)) = 400)
   \<and> (\<forall>p srv. cidRegex c \<and> srv_backend s = Remote p srv \<longrightarrow>
        rs_status (finish r (handleIPFSProxy tx r s new_writer)) = 307
        \<and> location (finish r (handleIPFSProxy tx r s new_writer)) = Some (''https://gateway.pinata.cloud/ipfs/'' @ c @ rest))
   \<and> (\<forall>n h port addr gwPort. cidRegex c \<and> srv_backend s = Embedded n (addr @ '':'' @ gwPort) \<and> q_host r = h @ '':'' @ port
        \<and> plain_host h \<and> plain_host port \<and> plain_host addr \<and> plain_host gwPort
        \<and> (\<forall>x \<in> set (h @ gwPort). byte_val x < 128) \<longrightarrow>
        rs_status (finish r (handleIPFSProxy tx r s new_writer)) = 307
        \<and> location (finish r (handleIPFSProxy tx r s new_writer)) = Some (''http://'' @ h @ '':'' @ gwPort @ ''/ipfs/'' @ c @ rest))"
proof (intro conjI allI impI)
  obtain y z where cut: "Cut (drop (length ''/ipfs/'') (url_path r)) ''/'' = (c, y, z)"
    using proxy_root [OF assms(1,3,2)] by (cases "Cut (drop (length ''/ipfs/'') (url_path r)) ''/''") auto
  show "rs_status (finish r (handleIPFSProxy tx r s new_writer)) = 400" if "\<not> cidRegex c"
  proof -
    have v: "ValidateCID c = Some (InvalidCID c)" using that by simp
    show ?thesis unfolding handleIPFSProxy_def Let_def cut prod.case v option.case by (simp add: finish_Error)
  qed
next
  fix p srv
  assume a: "cidRegex c \<and> srv_backend s = Remote p srv"
  have h: "handleIPFSProxy tx r s new_writer = http_Redirect r (''https://gateway.pinata.cloud/ipfs/'' @ c @ rest) 307 ''Temporary Redirect'' new_writer"
    by (rule proxy_remote [OF assms(1) _ assms(2)]) (use a in blast)+
  have "\<forall>x \<in> set (''https://gateway.pinata.cloud/ipfs/'' @ c @ rest). byte_val x < 128"
    using assms(4) by (simp add: byte_val_def)
  from hex_escape_ascii [OF this]
  show "rs_status (finish r (handleIPFSProxy tx r s new_writer)) = 307"
    "location (finish r (handleIPFSProxy tx r s new_writer)) = Some (''https://gateway.pinata.cloud/ipfs/'' @ c @ rest)"
    unfolding h finish_Redirect by simp_all
next
  fix n h port addr gwPort
  assume a: "cidRegex c \<and> srv_backend s = Embedded n (addr @ '':'' @ gwPort) \<and> q_host r = h @ '':'' @ port
        \<and> plain_host h \<and> plain_host port \<and> plain_host addr \<and> plain_host gwPort \<and> (\<forall>x \<in> set (h @ gwPort). byte_val x < 128)"
  then have sp: "SplitHostPort (q_host r) = Some (h, port)" "SplitHostPort (addr @ '':'' @ gwPort) = Some (addr, gwPort)"
    by (metis SplitHostPort_plain)+
  have h: "handleIPFSProxy tx r s new_writer
      = http_Redirect r (''http://'' @ h @ '':'' @ gwPort @ ''/ipfs/'' @ c @ rest) 307 ''Temporary Redirect'' new_writer"
    using proxy_embedded [OF assms(1) _ assms(2), of s n "addr @ '':'' @ gwPort" tx new_writer] a
    unfolding sp option.case prod.case assms(1) by simp
  have "\<forall>x \<in> set (''http://'' @ h @ '':'' @ gwPort @ ''/ipfs/'' @ c @ rest). byte_val x < 128"
    using assms(4) a by (auto simp: byte_val_def)
  from hex_escape_ascii [OF this]
  show "rs_status (finish r (handleIPFSProxy tx r s new_writer)) = 307"
    "location (finish r (handleIPFSProxy tx r s new_writer)) = Some (''http://'' @ h @ '':'' @ gwPort @ ''/ipfs/'' @ c @ rest)"
    unfolding h finish_Redirect by simp_all
qed

definition at_host :: "string \<Rightarrow> string \<Rightarrow> request" where
  "at_host host path = (demo_request ''GET'' path [])\<lparr>q_host := host\<rparr>"

theorem proxy_redirects_witness:
  "location (finish (at_host ''localhost:8421'' (''/ipfs/'' @ sample_v0)) (handleIPFSProxy demo_texts (at_host ''localhost:8421'' (''/ipfs/'' @ sample_v0)) demo_server new_writer))
    = Some (''http://localhost:8080/ipfs/'' @ sample_v0)"
proof -
  let ?r = "at_host ''localhost:8421'' (''/ipfs/'' @ sample_v0)"
  have r: "url_path ?r = ''/ipfs/'' @ sample_v0 @ []" "CHR ''/'' \<notin> set sample_v0" "\<forall>x \<in> set (sample_v0 @ []). byte_val x < 128"
    "cidRegex sample_v0" by code_simp+
  have p: "plain_host ''localhost''" "plain_host ''8421''" "plain_host ''127.0.0.1''" "plain_host ''8080''"
    "\<forall>x \<in> set (''localhost'' @ ''8080''). byte_val x < 128" by code_simp+
  have s: "srv_backend demo_server = Embedded (open_node empty_fs ''pins.json'') (''127.0.0.1'' @ '':'' @ ''8080'')"
    "q_host ?r = ''localhost'' @ '':'' @ ''8421''"
    by (simp_all add: demo_server_def NewServer_def at_host_def)
  have "location (finish ?r (handleIPFSProxy demo_texts ?r demo_server new_writer))
      = Some (''http://'' @ ''localhost'' @ '':'' @ ''8080'' @ ''/ipfs/'' @ sample_v0 @ [])"
    using proxy_redirects [OF r(1) _ r(2,3), of demo_texts demo_server] r(4) p s by blast
  then show ?thesis by simp
qed

text \<open>
  Where the redirect leads astray. At a host without a port (behind a proxy on port 80, say) the
  client is sent to the address that it asked for; of an IPv6 host the brackets are lost, so that what
  follows its first colon is not a port; and an escaped question mark in the subpath arrives as one that
  starts a query.
\<close>

theorem proxy_goes_astray:
  "location (finish (at_host ''pinner.example'' (''/ipfs/'' @ sample_v0))
       (handleIPFSProxy demo_texts (at_host ''pinner.example'' (''/ipfs/'' @ sample_v0)) demo_server new_writer))
     = Some (''http://pinner.example/ipfs/'' @ sample_v0)
   \<and> location (finish (at_host ''[::1]:8421'' (''/ipfs/'' @ sample_v0))
       (handleIPFSProxy demo_texts (at_host ''[::1]:8421'' (''/ipfs/'' @ sample_v0)) demo_server new_writer))
     = Some (''http://::1:8080/ipfs/'' @ sample_v0)
   \<and> location (finish (at_host ''localhost:8421'' (''/ipfs/'' @ sample_v0 @ ''/a%3Fb''))
       (handleIPFSProxy demo_texts (at_host ''localhost:8421'' (''/ipfs/'' @ sample_v0 @ ''/a%3Fb'')) demo_server new_writer))
     = Some (''http://localhost:8080/ipfs/'' @ sample_v0 @ ''/a?b'')"
  by code_simp

end
