(* ===== verification/Process.thy ===== *)
theory Process
  imports NodeSetup DiscoverySetup Api
begin

text \<open>
  \<open>main.go\<close>: how the parts are put together. The start-up in its order with every way it can end, the
  callback that a discovery refresh runs, the life of the process as a sequence of refreshes and API
  requests, and the shutdown. Refreshes and requests are taken one at a time; what concurrent backend
  calls do is in \<open>PinLifecycle\<close>, concurrent batches are in \<open>Runner\<close>.
\<close>

section \<open>Start-up\<close>

text \<open>The fields of \<open>IPFSNodeOptions\<close> from the configuration.\<close>

definition options_of :: "Config \<Rightarrow> IPFSNodeOptions" where
  "options_of cfg =
     (let meshAppTag = (if MeshEnabled cfg then AppTag cfg else [])
      in \<lparr>n_DataDir = DataDir cfg, n_GatewayBind = GatewayBind cfg @ '':'' @ GatewayPort cfg, n_Libp2pListen = Libp2pListen cfg,
          n_PEvOMainLibp2pAddr = PEvOMainLibp2pAddr cfg, n_BitswapTimeout = BitswapTimeout cfg,
          n_PEvOMainGatewayURL = PEvOMainGatewayURL cfg, n_FallbackGateways = FallbackGateways cfg,
          n_MaxPinBytes = word_of_int (MaxPinBytes cfg), n_MeshAppTag = meshAppTag,
          n_MeshPublicGatewayURL = MeshPublicGatewayURL cfg, n_MeshHeartbeatInterval = MeshHeartbeatInterval cfg,
          n_MeshCacheTTL = MeshCacheTTL cfg, n_MeshAdvertiseDisabled = MeshAdvertiseDisabled cfg,
          n_MeshAllowPrivate = MeshAllowPrivate cfg\<rparr>)"

text \<open>A value of the interface \<open>IPFSBackend\<close> as \<open>main\<close> makes it; \<open>NoBackend\<close> is the \<open>nil\<close> that is left by a
  mode that the \<open>switch\<close> does not know.\<close>

datatype ('p, 'a, 'k) started =
    StartedNode "('p, 'a, 'k) embedded"
  | StartedPinata PinataBackend
  | NoBackend

definition make_backend :: "('p, 'k) setup_answers \<Rightarrow> close_answers \<Rightarrow> Config \<Rightarrow> fs
    \<Rightarrow> fs \<times> (setup_err + ('p, 'a, 'k) started)" where
  "make_backend a c cfg s =
     (if IPFSMode cfg = ''embedded'' then
        (case NewEmbeddedNode a c (options_of cfg) s of
           (s', _, Inl e) \<Rightarrow> (s', Inl e)
         | (s', _, Inr n) \<Rightarrow> (s', Inr (StartedNode n)))
      else if IPFSMode cfg = ''pinata'' then (s, Inr (StartedPinata (NewPinataBackend (PinataAPIKey cfg) (PinataSecretKey cfg))))
      else (s, Inr NoBackend))"

datatype start_err =
    ConfigFailed config_err
  | DataDirFailed io_err
  | DiscoveryFailed db_err
  | RulesFailed mgr_err
  | NodeFailed setup_err

text \<open>What the outside world answers during the start.\<close>

record ('p, 'k) start_answers =
  st_dotenv :: "string option"
  st_env :: env
  st_args :: "string list"
  st_mkdir :: "io_err option"
  st_db_open :: "string \<Rightarrow> string option"
  st_db_ping :: "string \<Rightarrow> string option"
  st_rules_read :: "io_err option"
  st_random :: bytes
  st_rules_write :: io_plan
  st_setup :: "('p, 'k) setup_answers"
  st_closing :: close_answers

text \<open>\<open>main\<close> until the backend exists. An error ends the process with status 1.\<close>

definition start_parts :: "(string \<Rightarrow> string) \<Rightarrow> ('p, 'k) start_answers \<Rightarrow> fs
    \<Rightarrow> fs \<times> (start_err + Config \<times> manager \<times> ('p, 'a, 'k) started)" where
  "start_parts uni st s = (case ParseConfig uni (st_dotenv st) (st_env st) (st_args st) of
     Inl e \<Rightarrow> (s, Inl (ConfigFailed e))
   | Inr cfg \<Rightarrow> (case st_mkdir st of
       Some e \<Rightarrow> (s, Inl (DataDirFailed e))
     | None \<Rightarrow> (case fst (NewDiscovery (st_db_open st) (st_db_ping st) (HAFDatabaseURL cfg) (AppTag cfg) (RefreshInterval cfg)) of
         Inl e \<Rightarrow> (s, Inl (DiscoveryFailed e))
       | Inr d \<Rightarrow> (case NewAutoPinManager (st_rules_read st) (st_random st) (st_rules_write st) s
                       (filepath_Join (DataDir cfg) ''autopin.json'') of
           Inl (e, s1) \<Rightarrow> (s1, Inl (RulesFailed e))
         | Inr m \<Rightarrow> (case make_backend (st_setup st) (st_closing st) cfg (m_files m) of
             (s2, Inl e) \<Rightarrow> (s2, Inl (NodeFailed e))
           | (s2, Inr b) \<Rightarrow> (s2, Inr (cfg, m, b)))))))"

text \<open>The backend as the server and the runner use it, with the state of the Pinata service.\<close>

definition as_backend :: "'srv \<Rightarrow> ('p, 'a, 'k) started \<Rightarrow> 'srv backend option" where
  "as_backend srv b = (case b of
     StartedNode n \<Rightarrow> Some (Embedded (e_node n) (e_gatewayBind n))
   | StartedPinata p \<Rightarrow> Some (Remote p srv)
   | NoBackend \<Rightarrow> None)"

definition management_addr :: "Config \<Rightarrow> string" where
  "management_addr cfg = ''127.0.0.1:'' @ Port cfg"

text \<open>The state that \<open>main\<close> wires together; it has no items yet. \<open>now\<close> is the time of \<open>NewServer\<close>.\<close>

definition wire :: "int \<Rightarrow> Config \<Rightarrow> manager \<Rightarrow> 'srv backend \<Rightarrow> 'srv server" where
  "wire now cfg m b = NewServer [] b m (NewAutoPinRunner (AutoPinConcurrency cfg) (AutoPinAuthorCap cfg)) now
     (RefreshInterval cfg) (AutoPinConcurrency cfg) (AutoPinAuthorCap cfg)"

section \<open>Life\<close>

text \<open>The callback of \<open>SetOnRefresh\<close>, and the counts it logs.\<close>

definition on_refresh :: "(string \<Rightarrow> string) \<Rightarrow> 'srv outside \<Rightarrow> DiscoveredItem list \<Rightarrow> 'srv server
    \<Rightarrow> 'srv server \<times> AutoPinResult option" where
  "on_refresh uni out items s =
     (let matched = MatchingItems uni (autopin s) items in
      if length matched = 0 then (s, None)
      else (case run_batch out matched s of
        (s', res) \<Rightarrow> (s', if Pinned res > 0 \<or> Failed res > 0 then Some res else None)))"

text \<open>One refresh, the initial one or that of a tick: \<open>refresh\<close> replaces the items and calls the callback.\<close>

definition tick :: "(string \<Rightarrow> string) \<Rightarrow> string query_result \<Rightarrow> 'srv outside \<Rightarrow> 'srv server \<Rightarrow> 'srv server" where
  "tick uni q out s = (case refresh q (discovery_items s) of (items, cb, _) \<Rightarrow>
     (let s1 = s\<lparr>discovery_items := items\<rparr>
      in case cb of None \<Rightarrow> s1 | Some b \<Rightarrow> fst (on_refresh uni out b s1)))"

datatype 'srv action =
    Tick "string query_result" "'srv outside"
  | Request request "'srv outside"

definition act :: "texts \<Rightarrow> (request \<Rightarrow> writer \<Rightarrow> writer) \<Rightarrow> 'srv action \<Rightarrow> 'srv server \<Rightarrow> 'srv server" where
  "act tx ui a s = (case a of
     Tick q out \<Rightarrow> tick (tx_lower tx) q out s
   | Request r out \<Rightarrow> fst (ServeHTTP tx ui out r s))"

definition live :: "texts \<Rightarrow> (request \<Rightarrow> writer \<Rightarrow> writer) \<Rightarrow> 'srv action list \<Rightarrow> 'srv server \<Rightarrow> 'srv server" where
  "live tx ui acts s = fold (act tx ui) acts s"

section \<open>Shutdown\<close>

text \<open>What the parts answer while the process stops. \<open>sd_drain\<close> is the error of the drain's context, when the
  deadline passes before the running calls have finished.\<close>

record stop_answers =
  sd_http :: "string option"
  sd_drain :: "string option"
  sd_closing :: close_answers

text \<open>\<open>Drain\<close> with the calls that are running left out (\<open>PinLifecycle\<close> has them): it shuts the gate.\<close>

definition node_Drain :: "string option \<Rightarrow> ('p, 'a, 'k) embedded \<Rightarrow> ('p, 'a, 'k) embedded \<times> string option" where
  "node_Drain ctx_err n = (n\<lparr>e_node := (e_node n)\<lparr>done_closed := True\<rparr>\<rparr>, ctx_err)"

definition started_Drain :: "string option \<Rightarrow> ('p, 'a, 'k) started \<Rightarrow> ('p, 'a, 'k) started \<times> string option" where
  "started_Drain ctx_err b = (case b of
     StartedNode n \<Rightarrow> (case node_Drain ctx_err n of (n', e) \<Rightarrow> (StartedNode n', e))
   | StartedPinata p \<Rightarrow> (StartedPinata p, map_option (\<lambda>_. ''pinata'') (pinata_Drain p))
   | NoBackend \<Rightarrow> (NoBackend, None))"

definition started_Close :: "close_answers \<Rightarrow> ('p, 'a, 'k) started \<Rightarrow> ('p, 'a, 'k) started \<times> string option" where
  "started_Close c b = (case b of
     StartedNode n \<Rightarrow> (case node_Close c n of (n', e) \<Rightarrow> (StartedNode n', e))
   | StartedPinata p \<Rightarrow> (StartedPinata p, map_option (\<lambda>_. ''pinata'') (pinata_Close p))
   | NoBackend \<Rightarrow> (NoBackend, None))"

datatype stop_step = HTTPServerShutdown | RefreshCancelled | DatabaseClosed | BackendDrained | BackendClosed

text \<open>The steps in their order, the errors that are logged, and the backend.\<close>

definition shutdown :: "stop_answers \<Rightarrow> ('p, 'a, 'k) started \<Rightarrow> stop_step list \<times> string list \<times> ('p, 'a, 'k) started" where
  "shutdown sd b =
     (let log = (\<lambda>e. case e of None \<Rightarrow> [] | Some x \<Rightarrow> [x])
      in case started_Drain (sd_drain sd) b of (b1, e1) \<Rightarrow>
         (case started_Close (sd_closing sd) b1 of (b2, e2) \<Rightarrow>
           ([HTTPServerShutdown, RefreshCancelled, DatabaseClosed, BackendDrained, BackendClosed],
            log (sd_http sd) @ log e1 @ log e2, b2)))"

section \<open>Facts: a batch on the embedded node\<close>

abbreviation world_env :: "'srv world \<Rightarrow> fetch_env \<times> map_order \<times> io_plan" where
  "world_env w \<equiv> (w_fetch w, w_order w, w_plan w)"

text \<open>Whether the libraries deliver the graph of a CID, by bitswap or by the fallback chain.\<close>

definition fetchable :: "fetch_env \<Rightarrow> string \<Rightarrow> bool" where
  "fetchable fe c \<longleftrightarrow> decodes fe c \<and> (bitswap_fetch fe c \<or> car_fetch fe c \<and> offline_walk fe c)"

lemma node_Pin_pins:
  assumes "cidRegex c" "\<not> done_closed n" "node_Pin (fe, ord, pl) n c = (n', e)"
  shows "pins n' = pins n \<union> (if fetchable fe c then {c} else {}) \<and> \<not> done_closed n'"
  using assms by (auto simp: node_Pin_def fetchable_def split: option.splits if_splits)

lemma node_attempt:
  assumes "cidRegex c" "\<not> done_closed n" "attempt node_Pin node_IsPinned env n c = (n', oc)"
  shows "pins n' = pins n \<union> (if fetchable (fst env) c then {c} else {}) \<and> \<not> done_closed n'"
proof -
  obtain fe ord pl where env: "env = (fe, ord, pl)" by (cases env)
  obtain n1 e where p: "node_Pin (fe, ord, pl) n c = (n1, e)" by fastforce
  from node.is_pinned_valid [OF assms(1), of env n] assms node_Pin_pins [OF assms(1,2) p] show ?thesis
    by (auto simp: attempt_def env p split: if_splits)
qed

lemma embedded_attempt:
  "attempt backend_Pin backend_IsPinned w (Embedded n bind) c
     = (case attempt node_Pin node_IsPinned (world_env w) n c of (n', oc) \<Rightarrow> (Embedded n' bind, oc))"
  by (auto simp: attempt_def backend_Pin_def backend_IsPinned_def split: sum.split prod.split)

lemma embedded_fold:
  "fold (seq_step backend_Pin backend_IsPinned out) q (Embedded n bind, res)
     = (case fold (seq_step node_Pin node_IsPinned (\<lambda>i. world_env (out i))) q (n, res) of (n', res') \<Rightarrow> (Embedded n' bind, res'))"
proof (induction q arbitrary: n res)
  case (Cons i q)
  obtain n1 oc where "attempt node_Pin node_IsPinned (world_env (out i)) n (item_CID i) = (n1, oc)" by fastforce
  with Cons show ?case by (simp add: seq_step_def embedded_attempt)
qed simp

lemma fold_pins:
  assumes "fold (seq_step node_Pin node_IsPinned env) q (n, res) = (n', res')" "\<not> done_closed n" "\<forall>i \<in> set q. cidRegex (item_CID i)"
  shows "pins n' = pins n \<union> {item_CID i |i. i \<in> set q \<and> fetchable (fst (env i)) (item_CID i)} \<and> \<not> done_closed n'"
  using assms
proof (induction q arbitrary: n res)
  case (Cons i q)
  obtain n1 oc where a: "attempt node_Pin node_IsPinned (env i) n (item_CID i) = (n1, oc)" by fastforce
  with Cons.prems(1) have f: "fold (seq_step node_Pin node_IsPinned env) q (n1, count_outcome oc res) = (n', res')"
    by (simp add: seq_step_def)
  from node_attempt [OF _ Cons.prems(2) a] Cons.prems(3)
  have n1: "pins n1 = pins n \<union> (if fetchable (fst (env i)) (item_CID i) then {item_CID i} else {})" "\<not> done_closed n1" by simp_all
  from Cons.IH [OF f n1(2)] Cons.prems(3) n1 show ?case by auto
qed simp

text \<open>A batch adds CIDs of its items, well-formed ones, and takes none away.\<close>

lemma shed_loop_subset: "set (snd (shed_loop r items ac sh q)) \<subseteq> set q \<union> set items"
proof (induction r items ac sh q rule: shed_loop.induct)
  case (2 r item items ac sh q)
  then show ?case by (cases "int (map_get ac (item_Author item)) \<ge> authorCap r") auto
qed simp

lemma queued_subset: "run_prepare r items = (res, queued) \<Longrightarrow> set queued \<subseteq> set items"
  using shed_loop_subset [of r items "[]" "[]" "[]"] by (auto simp: run_prepare_def shed_split_def split: prod.splits)

lemma batch_bounds:
  assumes "run_batch out items s = (s', res)" "srv_backend s = Embedded n bind"
  shows "\<exists>n'. s' = s\<lparr>srv_backend := Embedded n' bind\<rparr> \<and> pins n \<subseteq> pins n' \<and> pins n' \<subseteq> pins n \<union> item_CID ` set items"
proof -
  obtain res0 queued where p: "run_prepare (autopinRunner s) items = (res0, queued)" by fastforce
  obtain n' res' where f: "fold (seq_step node_Pin node_IsPinned (\<lambda>i. world_env (out_item out i))) queued (n, res0) = (n', res')"
    by fastforce
  with assms p have "s' = s\<lparr>srv_backend := Embedded n' bind\<rparr>" by (simp add: run_batch_def Run_seq_fold embedded_fold)
  moreover have "pins n \<subseteq> pins n'" "pins n' \<subseteq> pins n \<union> item_CID ` set queued"
    using node.batch_progress [OF f] by (simp_all add: progress_def)
  ultimately show ?thesis using image_mono [OF queued_subset [OF p], of item_CID] by blast
qed

section \<open>Facts: one action\<close>

text \<open>What an action can add to the pin set and take from it, and what it lists.\<close>

fun offers :: "'srv action \<Rightarrow> string set" where
  "offers (Tick (Rows rows None) out) = {c. cidRegex c \<and> (\<exists>r. Inr r \<in> set rows \<and> c \<in> fst ` set (candidates (row_of r)))}"
| "offers _ = {}"

fun asks :: "route \<Rightarrow> 'srv action \<Rightarrow> string set" where
  "asks t (Request r out) = {c. \<exists>vs. find_handler routes r = Handle t (c # vs)}"
| "asks t (Tick q out) = {}"

lemma refresh_offers:
  "refresh q cached = (items, cb, err) \<Longrightarrow>
     (cb = Some items \<and> batch_ok items \<and> item_CID ` set items = offers (Tick q out)) \<or> (cb = None \<and> items = cached)"
proof (cases q)
  case (Rows rows e)
  obtain its seen d where f: "fold refresh_row rows ([], {}, 0) = (its, seen, d)"
    by (metis prod.exhaust)
  have "r \<in> set (scanned_rows rows) \<longleftrightarrow> Inr r \<in> set rows" for r
    by (force simp: scanned_rows_def split: sum.splits)
  with fold_refresh [OF f] show "refresh q cached = (items, cb, err) \<Longrightarrow> ?thesis"
    by (cases e) (auto simp: refresh_def Rows f valid_cids_def)
qed (auto simp: refresh_def)

text \<open>A state that only differs in the backend, an embedded one whose pins went from \<open>P\<close> to \<open>Q\<close>.\<close>

definition repinned :: "'srv server \<Rightarrow> string set \<Rightarrow> string set \<Rightarrow> 'srv server \<Rightarrow> bool" where
  "repinned s add del s' \<longleftrightarrow> (\<forall>n bind. srv_backend s = Embedded n bind \<longrightarrow>
     (\<exists>n'. srv_backend s' = Embedded n' bind \<and> pins n - del \<subseteq> pins n' \<and> pins n' \<subseteq> pins n \<union> add))"

lemma repinned_same: "srv_backend s' = srv_backend s \<Longrightarrow> repinned s A D s'"
  by (auto simp: repinned_def)

lemma repinned_mono: "repinned s A D s' \<Longrightarrow> A \<subseteq> A' \<Longrightarrow> D \<subseteq> D' \<Longrightarrow> repinned s A' D' s'"
  unfolding repinned_def by (meson Diff_mono Un_mono dual_order.trans order_refl)

lemma repinned_trans:
  assumes "repinned s A D s1" "repinned s1 B E s2"
  shows "repinned s (A \<union> B) (D \<union> E) s2"
  unfolding repinned_def
proof (intro allI impI)
  fix n bind
  assume "srv_backend s = Embedded n bind"
  with assms(1) obtain n1 where 1: "srv_backend s1 = Embedded n1 bind" "pins n - D \<subseteq> pins n1" "pins n1 \<subseteq> pins n \<union> A"
    unfolding repinned_def by blast
  with assms(2) obtain n2 where "srv_backend s2 = Embedded n2 bind" "pins n1 - E \<subseteq> pins n2" "pins n2 \<subseteq> pins n1 \<union> B"
    unfolding repinned_def by blast
  with 1 show "\<exists>n'. srv_backend s2 = Embedded n' bind \<and> pins n - (D \<union> E) \<subseteq> pins n' \<and> pins n' \<subseteq> pins n \<union> (A \<union> B)" by blast
qed

lemma batch_repins:
  assumes "run_batch out items s = (s', res)"
  shows "repinned s (item_CID ` set items) {} s' \<and> discovery_items s' = discovery_items s"
proof -
  have "discovery_items s' = discovery_items s" using assms by (auto simp: run_batch_def split: prod.splits)
  then show ?thesis using batch_bounds [OF assms] by (fastforce simp: repinned_def)
qed

lemma pin_repins:
  assumes "handlePin tx out c s w = (s', w')"
  shows "repinned s (if cidRegex c then {c} else {}) {} s' \<and> discovery_items s' = discovery_items s"
proof -
  obtain b e where b: "backend_Pin (out_call out) (srv_backend s) c = (b, e)" by fastforce
  show ?thesis
  proof (cases "cidRegex c \<and> c \<noteq> []")
    case True
    then have s': "s' = s\<lparr>srv_backend := b\<rparr>"
      using assms b by (auto simp: handlePin_def split: option.splits)
    have "repinned s {c} {} s'" unfolding repinned_def s'
    proof (intro allI impI)
      fix n bind
      assume "srv_backend s = Embedded n bind"
      with b embedded_pin [of "out_call out" n bind c b e] show "\<exists>n'. srv_backend (s\<lparr>srv_backend := b\<rparr>) = Embedded n' bind
          \<and> pins n - {} \<subseteq> pins n' \<and> pins n' \<subseteq> pins n \<union> {c}" by (cases e) auto
    qed
    with True s' show ?thesis by simp
  next
    case False
    then have "s' = s" using assms by (auto simp: handlePin_def split: option.splits if_splits)
    then show ?thesis by (simp add: repinned_same)
  qed
qed

lemma unpin_repins:
  assumes "handleUnpin tx out c s w = (s', w')"
  shows "repinned s {} {c} s' \<and> discovery_items s' = discovery_items s"
proof -
  obtain b e where b: "backend_Unpin (out_call out) (srv_backend s) c = (b, e)" by fastforce
  have "s' = s \<or> s' = s\<lparr>srv_backend := b\<rparr>"
    using assms b by (auto simp: handleUnpin_def split: option.splits if_splits)
  moreover have "repinned s {} {c} (s\<lparr>srv_backend := b\<rparr>)" unfolding repinned_def
  proof (intro allI impI)
    fix n bind
    assume n: "srv_backend s = Embedded n bind"
    obtain n1 e1 where u: "node_Unpin (world_env (out_call out)) n c = (n1, e1)" by fastforce
    with n b have "b = Embedded n1 bind" by (simp add: backend_Unpin_def)
    with u node.unpin_ok [of "world_env (out_call out)" n c n1] node.unpin_err [of "world_env (out_call out)" n c n1]
    show "\<exists>n'. srv_backend (s\<lparr>srv_backend := b\<rparr>) = Embedded n' bind
        \<and> pins n - {c} \<subseteq> pins n' \<and> pins n' \<subseteq> pins n \<union> {}" by (cases e1) auto
  qed
  ultimately show ?thesis by (auto simp: repinned_same)
qed

lemma evaluate_subset: "item_CID ` set (MatchingItems uni m items) \<subseteq> item_CID ` set items"
  by (auto simp: MatchingItems_def matching_filter)

lemma route_repins:
  assumes "call_route tx ui out r t v s = (s', w)"
  shows "repinned s (item_CID ` set (discovery_items s) \<union> (if t = PinOne \<and> cidRegex v then {v} else {})) (if t = UnpinOne then {v} else {}) s'
     \<and> discovery_items s' = discovery_items s"
proof (cases t)
  case PinOne
  obtain s1 w1 where h: "handlePin tx out v s new_writer = (s1, w1)" by fastforce
  with assms PinOne have "s' = s1" by (simp add: call_route_def)
  with pin_repins [OF h] PinOne show ?thesis by (auto elim: repinned_mono)
next
  case UnpinOne
  obtain s1 w1 where h: "handleUnpin tx out v s new_writer = (s1, w1)" by fastforce
  with assms UnpinOne have "s' = s1" by (simp add: call_route_def)
  with unpin_repins [OF h] UnpinOne show ?thesis by (auto elim: repinned_mono)
next
  case PinAll
  obtain s1 res where h: "run_batch out (discovery_items s) s = (s1, res)" by fastforce
  with assms PinAll have "s' = s1" by (simp add: call_route_def handlePinAll_def)
  with batch_repins [OF h] PinAll show ?thesis by simp
next
  case Evaluate
  obtain s1 res where h: "run_batch out (MatchingItems (tx_lower tx) (autopin s) (discovery_items s)) s = (s1, res)" by fastforce
  with assms Evaluate have "s' = s1" by (simp add: call_route_def handleEvaluateRules_def)
  with batch_repins [OF h] evaluate_subset [of "tx_lower tx" "autopin s" "discovery_items s"] Evaluate show ?thesis
    by (auto elim: repinned_mono)
next
  case AddOne
  with assms show ?thesis
    by (auto simp: call_route_def handleAddRule_def split: option.splits prod.splits sum.splits intro: repinned_same)
next
  case UpdateOne
  with assms show ?thesis
    by (auto simp: call_route_def handleUpdateRule_def split: option.splits prod.splits sum.splits intro: repinned_same)
next
  case DeleteOne
  with assms show ?thesis
    by (auto simp: call_route_def handleDeleteRule_def split: option.splits prod.splits intro: repinned_same)
next
  case EnableAll
  with assms show ?thesis
    by (auto simp: call_route_def handleSetAllRules_def split: option.splits prod.splits intro: repinned_same)
next
  case DisableAll
  with assms show ?thesis
    by (auto simp: call_route_def handleSetAllRules_def split: option.splits prod.splits intro: repinned_same)
qed (use assms in \<open>auto simp: call_route_def intro: repinned_same\<close>)

lemma request_repins:
  assumes "batch_ok (discovery_items s)"
  shows "repinned s (item_CID ` set (discovery_items s) \<union> {c \<in> asks PinOne (Request r out). cidRegex c}) (asks UnpinOne (Request r out))
       (fst (ServeHTTP tx ui out r s))
     \<and> discovery_items (fst (ServeHTTP tx ui out r s)) = discovery_items s"
proof (cases "find_handler routes r")
  case (Handle t vs)
  obtain s' w where c: "call_route tx ui out r t (case vs of [] \<Rightarrow> [] | v # _ \<Rightarrow> v) s = (s', w)" by fastforce
  have s': "fst (ServeHTTP tx ui out r s) = s'" by (simp add: ServeHTTP_def Handle c)
  show ?thesis
  proof (cases vs)
    case Nil
    have "\<not> cidRegex []" by code_simp
    moreover have "s' = s" if "t = UnpinOne" using c that Nil by (simp add: call_route_def handleUnpin_def)
    ultimately show ?thesis using route_repins [OF c] Nil Handle unfolding s'
      by (cases "t = UnpinOne") (auto elim!: repinned_mono simp: repinned_same split: if_splits)
  next
    case (Cons v vs')
    with route_repins [OF c] Handle show ?thesis unfolding s'
      by (auto elim!: repinned_mono split: if_splits)
  qed
qed (simp_all add: ServeHTTP_def repinned_same)

lemma tick_repins:
  assumes "batch_ok (discovery_items s)"
  shows "repinned s (offers (Tick q out)) {} (tick uni q out s) \<and> batch_ok (discovery_items (tick uni q out s))
     \<and> item_CID ` set (discovery_items (tick uni q out s)) \<subseteq> item_CID ` set (discovery_items s) \<union> offers (Tick q out)"
proof -
  obtain items cb err where r: "refresh q (discovery_items s) = (items, cb, err)" by (metis prod.exhaust)
  let ?s1 = "s\<lparr>discovery_items := items\<rparr>"
  from refresh_offers [OF r, of out] show ?thesis
  proof
    assume cb: "cb = Some items \<and> batch_ok items \<and> item_CID ` set items = offers (Tick q out)"
    let ?matched = "MatchingItems uni (autopin s) items"
    obtain s2 res where b: "run_batch out ?matched ?s1 = (s2, res)" by fastforce
    from batch_repins [OF b] evaluate_subset [of uni "autopin s" items] cb
    have 1: "repinned ?s1 (offers (Tick q out)) {} s2" "discovery_items s2 = items" by (auto elim: repinned_mono)
    have "repinned s (offers (Tick q out)) {} s2" using 1(1) by (simp add: repinned_def)
    then have "repinned s (offers (Tick q out)) {} (tick uni q out s) \<and> discovery_items (tick uni q out s) = items"
      using 1(2) by (simp add: tick_def r cb on_refresh_def Let_def b repinned_same)
    with cb show ?thesis by simp
  next
    assume "cb = None \<and> items = discovery_items s"
    with assms show ?thesis by (simp add: tick_def r repinned_same)
  qed
qed

lemma act_repins:
  assumes "batch_ok (discovery_items s)"
  shows "repinned s (item_CID ` set (discovery_items s) \<union> offers a \<union> {c \<in> asks PinOne a. cidRegex c}) (asks UnpinOne a) (act tx ui a s)
     \<and> batch_ok (discovery_items (act tx ui a s))
     \<and> item_CID ` set (discovery_items (act tx ui a s)) \<subseteq> item_CID ` set (discovery_items s) \<union> offers a"
proof (cases a)
  case (Tick q out)
  from tick_repins [OF assms, of q out "tx_lower tx"] show ?thesis
    by (auto simp: act_def Tick elim!: repinned_mono)
next
  case (Request r out)
  from request_repins [OF assms, of r out tx ui] assms show ?thesis
    by (auto simp: act_def Request elim!: repinned_mono)
qed

lemma live_repins:
  assumes "batch_ok (discovery_items s)"
  shows "repinned s (item_CID ` set (discovery_items s) \<union> \<Union>(offers ` set acts) \<union> {c \<in> \<Union>(asks PinOne ` set acts). cidRegex c})
        (\<Union>(asks UnpinOne ` set acts)) (live tx ui acts s)
     \<and> batch_ok (discovery_items (live tx ui acts s))
     \<and> item_CID ` set (discovery_items (live tx ui acts s)) \<subseteq> item_CID ` set (discovery_items s) \<union> \<Union>(offers ` set acts)"
  using assms
proof (induction acts arbitrary: s)
  case Nil
  then show ?case by (simp add: live_def repinned_same)
next
  case (Cons a acts)
  note 1 = act_repins [OF Cons.prems, of a tx ui]
  note 2 = Cons.IH [OF 1 [THEN conjunct2, THEN conjunct1]]
  have l: "live tx ui (a # acts) s = live tx ui acts (act tx ui a s)" by (simp add: live_def)
  from repinned_trans [OF 1 [THEN conjunct1] 2 [THEN conjunct1]]
  have "repinned s (item_CID ` set (discovery_items s) \<union> \<Union>(offers ` set (a # acts)) \<union> {c \<in> \<Union>(asks PinOne ` set (a # acts)). cidRegex c})
        (\<Union>(asks UnpinOne ` set (a # acts))) (live tx ui (a # acts) s)"
    unfolding l by (rule repinned_mono) (use 1 in auto)
  moreover have "item_CID ` set (discovery_items (live tx ui acts (act tx ui a s)))
      \<subseteq> item_CID ` set (discovery_items s) \<union> \<Union>(offers ` set (a # acts))"
    using 1 2 by simp blast
  ultimately show ?case using 2 unfolding l by blast
qed

lemma tick_embedded:
  assumes "refresh q (discovery_items s) = (items, Some items, None)" "srv_backend s = Embedded n bind" "\<not> done_closed n" "batch_ok items"
    "run_prepare (autopinRunner s) (MatchingItems uni (autopin s) items) = (res, queued)"
  shows "\<exists>n'. srv_backend (tick uni q out s) = Embedded n' bind \<and> discovery_items (tick uni q out s) = items
     \<and> pins n' = pins n \<union> {item_CID i |i. i \<in> set queued \<and> fetchable (w_fetch (out_item out i)) (item_CID i)}"
proof -
  let ?matched = "MatchingItems uni (autopin s) items"
  obtain n' res' where f: "fold (seq_step node_Pin node_IsPinned (\<lambda>i. world_env (out_item out i))) queued (n, res) = (n', res')"
    by fastforce
  have "\<forall>i \<in> set queued. cidRegex (item_CID i)"
    using queued_subset [OF assms(5)] assms(4) by (auto simp: batch_ok_def MatchingItems_def matching_filter)
  from fold_pins [OF f assms(3) this]
  have p: "pins n' = pins n \<union> {item_CID i |i. i \<in> set queued \<and> fetchable (w_fetch (out_item out i)) (item_CID i)}" by simp
  show ?thesis
  proof (cases "?matched = []")
    case True
    with assms(5) have "queued = []" using queued_subset [OF assms(5)] by simp
    with True show ?thesis using assms(1,2) by (simp add: tick_def on_refresh_def)
  next
    case False
    have "run_batch out ?matched (s\<lparr>discovery_items := items\<rparr>) = (s\<lparr>discovery_items := items, srv_backend := Embedded n' bind\<rparr>, res')"
      using assms(2,5) f by (simp add: run_batch_def Run_seq_fold embedded_fold)
    with False p show ?thesis using assms(1) by (simp add: tick_def on_refresh_def Let_def)
  qed
qed

lemma start_mesh_of_sel [simp]:
  "e_gatewayBind (start_mesh_of a opts n) = e_gatewayBind n" "e_maxPinBytes (start_mesh_of a opts n) = e_maxPinBytes n"
  "e_bitswapTimeout (start_mesh_of a opts n) = e_bitswapTimeout n" "e_node (start_mesh_of a opts n) = e_node n"
  by (simp_all add: start_mesh_of_def split: sum.split)

lemma startMesh_Inr:
  assumes "startMesh h opts e1 e2 e3 = Inr mm" "0 \<le> o_Interval opts" "0 \<le> o_CacheTTL opts"
  shows "mm_topic mm = mesh_topic (o_AppTag opts) \<and> 0 < mm_interval mm \<and> 0 < mm_ttl mm"
  using assms by (auto simp: startMesh_def defaultMeshInterval_def defaultMeshTTL_def Let_def split: if_splits option.splits)

lemma node_as_configured:
  assumes "NewEmbeddedNode a c (options_of cfg) s = (s', tr, Inr n)" "0 \<le> MaxPinBytes cfg" "in_int64 (MaxPinBytes cfg)"
    "0 \<le> BitswapTimeout cfg" "0 \<le> MeshHeartbeatInterval cfg" "0 \<le> MeshCacheTTL cfg"
  shows "e_gatewayBind n = GatewayBind cfg @ '':'' @ GatewayPort cfg \<and> 0 < sint (e_maxPinBytes n) \<and> 0 < e_bitswapTimeout n
        \<and> (\<forall>mm. e_mesh n = Some mm \<longrightarrow> MeshEnabled cfg \<and> mm_topic mm = mesh_topic (AppTag cfg)
            \<and> 0 < mm_interval mm \<and> 0 < mm_ttl mm)"
proof -
  let ?o = "options_of cfg"
  obtain n0 where n: "n = start_mesh_of a (with_defaults ?o) n0" "e_mesh n0 = None" "e_gatewayBind n0 = n_GatewayBind (with_defaults ?o)"
    "e_bitswapTimeout n0 = n_BitswapTimeout (with_defaults ?o)" "e_maxPinBytes n0 = n_MaxPinBytes (with_defaults ?o)"
    by (rule NewEmbeddedNode_Inr [OF assms(1)]) (rule that)
  have g: "n_GatewayBind (with_defaults ?o) = GatewayBind cfg @ '':'' @ GatewayPort cfg"
    and t: "0 < n_BitswapTimeout (with_defaults ?o)"
    using assms(4) by (auto simp: with_defaults_def options_of_def Let_def defaultBitswapTimeout_def)
  let ?w = "word_of_int (MaxPinBytes cfg) :: 64 word"
  have si: "sint ?w = MaxPinBytes cfg"
    using assms(3) by (simp add: in_int64_def signed_of_int signed_take_bit_int_eq_self)
  have mx: "n_MaxPinBytes (with_defaults ?o) = (if ?w = 0 then defaultMaxPinBytes else ?w)"
    by (simp add: with_defaults_def options_of_def Let_def)
  have p: "0 < sint (n_MaxPinBytes (with_defaults ?o))"
  proof (cases "?w = 0")
    case True
    then show ?thesis unfolding mx by (simp add: defaultMaxPinBytes_def)
  next
    case False
    then have "MaxPinBytes cfg \<noteq> 0" by (metis of_int_0)
    with assms(2) si False show ?thesis unfolding mx by simp
  qed
  have "MeshEnabled cfg \<and> mm_topic mm = mesh_topic (AppTag cfg) \<and> 0 < mm_interval mm \<and> 0 < mm_ttl mm"
    if mm: "e_mesh n = Some mm" for mm
  proof -
    have o: "mesh_options (with_defaults ?o) = mesh_options ?o" "n_MeshAppTag (with_defaults ?o) = n_MeshAppTag ?o"
      by (simp_all add: with_defaults_def mesh_options_def Let_def)
    from mm n(2) have m: "startMesh (a_peer_id a) (mesh_options ?o) (a_pubsub a) (a_join a) (a_subscribe a) = Inr mm" "n_MeshAppTag ?o \<noteq> []"
      unfolding n(1) start_mesh_of_def o by (auto split: sum.splits if_splits)
    then have "MeshEnabled cfg" "n_MeshAppTag ?o = AppTag cfg" by (auto simp: options_of_def split: if_splits)
    with startMesh_Inr [OF m(1)] assms(5,6) show ?thesis
      by (auto simp: mesh_options_def options_of_def Let_def)
  qed
  with n(3,4,5) g t p show ?thesis by (simp add: n(1))
qed

section \<open>Properties\<close>

text \<open>
  C28: a process that starts is configured as asked. The backend is never \<open>nil\<close> and is the one of
  the mode; the pool has the concurrency and the cap of the configuration, unchanged; an embedded node
  has its gateway at the configured address, a positive byte cap and a positive bitswap timeout,
  and a mesh only if it is enabled, on the topic of the tag and with positive durations.
\<close>

theorem started_as_configured:
  assumes "start_parts uni st s = (s', Inr (cfg, m, b))"
  shows "ParseConfig uni (st_dotenv st) (st_env st) (st_args st) = Inr cfg
    \<and> (\<exists>bk. as_backend srv b = Some bk \<and> backendMode bk = IPFSMode cfg
        \<and> concurrency (autopinRunner (wire now cfg m bk)) = AutoPinConcurrency cfg
        \<and> authorCap (autopinRunner (wire now cfg m bk)) = AutoPinAuthorCap cfg)
    \<and> (\<forall>n. b = StartedNode n \<longrightarrow> e_gatewayBind n = GatewayBind cfg @ '':'' @ GatewayPort cfg
        \<and> 0 < sint (e_maxPinBytes n) \<and> 0 < e_bitswapTimeout n
        \<and> (\<forall>mm. e_mesh n = Some mm \<longrightarrow> MeshEnabled cfg \<and> mm_topic mm = mesh_topic (AppTag cfg)
            \<and> 0 < mm_interval mm \<and> 0 < mm_ttl mm))"
proof -
  have cfg: "ParseConfig uni (st_dotenv st) (st_env st) (st_args st) = Inr cfg"
    and b: "make_backend (st_setup st) (st_closing st) cfg (m_files m) = (s', Inr b)"
    using assms by (auto simp: start_parts_def split: sum.splits option.splits prod.splits)
  note wf = ParseConfig_Inr [OF cfg]
  have "IPFSMode cfg = ''embedded'' \<or> IPFSMode cfg = ''pinata''" using wf by blast
  then have "\<exists>bk. as_backend srv b = Some bk \<and> backendMode bk = IPFSMode cfg"
    using b by (auto simp: make_backend_def as_backend_def backendMode_def split: sum.splits prod.splits)
  moreover have "concurrency (autopinRunner (wire now cfg m bk)) = AutoPinConcurrency cfg
        \<and> authorCap (autopinRunner (wire now cfg m bk)) = AutoPinAuthorCap cfg" for bk :: "'d backend"
    using wf by (simp add: wire_def NewServer_def NewAutoPinRunner_def)
  moreover have "e_gatewayBind n = GatewayBind cfg @ '':'' @ GatewayPort cfg
        \<and> 0 < sint (e_maxPinBytes n) \<and> 0 < e_bitswapTimeout n
        \<and> (\<forall>mm. e_mesh n = Some mm \<longrightarrow> MeshEnabled cfg \<and> mm_topic mm = mesh_topic (AppTag cfg)
            \<and> 0 < mm_interval mm \<and> 0 < mm_ttl mm)" if n: "b = StartedNode n" for n
  proof -
    obtain tr where "NewEmbeddedNode (st_setup st) (st_closing st) (options_of cfg) (m_files m) = (s', tr, Inr n)"
      using b n by (auto simp: make_backend_def split: sum.splits prod.splits if_splits)
    from node_as_configured [OF this] wf show ?thesis by blast
  qed
  ultimately show ?thesis using cfg by blast
qed

lemma demo_fresh_None: "read_file empty_fs p = None"
  by (simp add: read_file_def empty_fs_def)

definition demo_config :: "config_err + Config" where
  "demo_config = ParseConfig (\<lambda>s. s) None haf_only [''-data-dir'', ''/d'']"

lemma demo_config_ok:
  "(case demo_config of Inr c \<Rightarrow> DataDir c = ''/d'' \<and> IPFSMode c = ''embedded'' \<and> AppTag c = ''pevo'' | Inl e \<Rightarrow> False)"
  by code_simp

definition demo_start_answers :: "(string, bytes) start_answers" where
  "demo_start_answers = \<lparr>st_dotenv = None, st_env = haf_only, st_args = [''-data-dir'', ''/d''], st_mkdir = None, st_db_open = (\<lambda>_. None), st_db_ping = (\<lambda>_. None),
     st_rules_read = None, st_random = [], st_rules_write = plan_ok, st_setup = demo_answers, st_closing = demo_closing\<rparr>"

lemma demo_process_starts:
  obtains s' cfg m n where "start_parts (\<lambda>s. s) demo_start_answers empty_fs = (s', Inr (cfg, m, StartedNode n :: (string, string, bytes) started))"
    "DataDir cfg = ''/d''" "IPFSMode cfg = ''embedded''"
proof -
  obtain cfg where cfg: "ParseConfig (\<lambda>s. s) None haf_only [''-data-dir'', ''/d''] = Inr cfg" "DataDir cfg = ''/d''" "IPFSMode cfg = ''embedded''"
    using demo_config_ok by (auto simp: demo_config_def split: sum.splits)
  obtain m where m: "NewAutoPinManager None [] plan_ok empty_fs (filepath_Join ''/d'' ''autopin.json'') = Inr m"
    "read_file (m_files m) (key_file ''/d'') = None"
  proof -
    let ?p = "filepath_Join ''/d'' ''autopin.json''"
    let ?m = "\<lparr>m_rules = Some [zero_rule\<lparr>r_ID := newID [], r_Name := ''All PEvO files'', r_Enabled := True\<rparr>], m_filePath = ?p, m_files = empty_fs\<rparr>"
    obtain f where w: "atomicWriteFile plan_ok empty_fs ?p (marshal_rules (m_rules ?m)) = (f, None)"
      using plan_ok_write by (metis prod.exhaust)
    have "key_file ''/d'' \<noteq> ?p \<and> key_file ''/d'' \<noteq> tmp_of ?p" by code_simp
    with awf.store_frame [OF fs_wf_empty w] have "read_file f (key_file ''/d'') = None"
      using demo_fresh_None by simp
    moreover have "read_file empty_fs ?p = None" by (simp add: read_file_def empty_fs_def)
    ultimately show ?thesis using that [of "?m\<lparr>m_files := f\<rparr>"] w
      by (simp add: NewAutoPinManager_def saveLocked_def Let_def)
  qed
  have "n_DataDir (options_of cfg) = ''/d''" using cfg(2) by (simp add: options_of_def Let_def)
  then obtain s' tr n where n: "start_with demo_closing (options_of cfg) (m_files m) = (s', tr, Inr n)"
    using m(2) demo_starts_with [of "m_files m" "options_of cfg" demo_closing] by auto
  then have s: "start_parts (\<lambda>s. s) demo_start_answers empty_fs = (s', Inr (cfg, m, StartedNode n :: (string, string, bytes) started))"
    using cfg m(1) by (simp add: start_parts_def NewDiscovery_def demo_start_answers_def make_backend_def)
  from that [OF s cfg(2,3)] show thesis .
qed

theorem started_as_configured_witness:
  "\<exists>s' cfg m (b :: (string, string, bytes) started). start_parts (\<lambda>s. s) demo_start_answers empty_fs = (s', Inr (cfg, m, b))
    \<and> IPFSMode cfg = ''embedded'' \<and> b \<noteq> NoBackend"
proof -
  obtain s' cfg m n where s: "start_parts (\<lambda>s. s) demo_start_answers empty_fs = (s', Inr (cfg, m, StartedNode n :: (string, string, bytes) started))"
    "IPFSMode cfg = ''embedded''" by (rule demo_process_starts)
  from started_as_configured [OF s(1), of "()" 0] s show ?thesis by (auto simp: as_backend_def split: started.splits)
qed

text \<open>
  C7: what a refresh pins. With the embedded node running, a successful refresh pins, of the new
  items that some rule matches, the first of each author up to the cap, exactly those whose graph the
  libraries deliver; it unpins nothing, and an item whose fetch fails does not keep another one out.
\<close>

theorem refresh_pins_matching:
  assumes "srv_backend s = Embedded n bind" "\<not> done_closed n" "autopinRunner s = NewAutoPinRunner conc cap"
  shows "\<exists>items queued n'. refresh (Rows rows None) (discovery_items s) = (items, Some items, None)
    \<and> srv_backend (tick uni (Rows rows None) out s) = Embedded n' bind \<and> discovery_items (tick uni (Rows rows None) out s) = items
    \<and> pins n' = pins n \<union> {item_CID i |i. i \<in> set queued \<and> fetchable (w_fetch (out_item out i)) (item_CID i)}
    \<and> (\<forall>a. by_author a queued = take (nat (max 1 cap))
          (by_author a (filter (\<lambda>i. \<exists>r \<in> set (elems (m_rules (autopin s))). Matches uni r i) items)))"
proof -
  let ?q = "Rows rows None :: string query_result"
  obtain items where r: "refresh ?q (discovery_items s) = (items, Some items, None)" and ok: "batch_ok items"
    using refresh_cases [of ?q "discovery_items s"] by (auto simp: refresh_def split: prod.splits)
  let ?matched = "MatchingItems uni (autopin s) items"
  obtain res queued where p: "run_prepare (autopinRunner s) ?matched = (res, queued)" by fastforce
  then obtain sh where "shed_split (autopinRunner s) ?matched = (sh, queued)" by (auto simp: run_prepare_def split: prod.splits)
  from shed_split_exact(1) [OF this] assms(3) runner_positive(2) [of conc cap]
  have "by_author a queued = take (nat (max 1 cap)) (by_author a ?matched)" for a
    by (simp add: NewAutoPinRunner_def Let_def max_def split: if_splits)
  moreover have "?matched = filter (\<lambda>i. \<exists>r \<in> set (elems (m_rules (autopin s))). Matches uni r i) items"
    by (simp add: MatchingItems_def matching_filter matches_any_iff cong: filter_cong)
  ultimately show ?thesis using tick_embedded [OF r assms(1,2) ok p, of out] r by auto
qed

text \<open>
  C6: nothing is pinned without a reason. Through any sequence of refreshes and API requests after
  the start, whatever the outside world answers, every CID that the embedded node has pinned and had
  not at the start is well-formed and was listed by a refresh or asked for by a request that the mux
  hands to the pin handler; every pin that is gone was asked for by one for the unpin handler; and the list
  of items holds well-formed CIDs that some refresh offered, each once.
\<close>

theorem pins_have_a_reason:
  "\<exists>s n'. live tx ui acts (wire now cfg m (Embedded n bind)) = s \<and> srv_backend s = Embedded n' bind
    \<and> pins n' - pins n \<subseteq> {c. cidRegex c \<and> (\<exists>a \<in> set acts. c \<in> offers a \<or> c \<in> asks PinOne a)}
    \<and> pins n - pins n' \<subseteq> {c. \<exists>a \<in> set acts. c \<in> asks UnpinOne a}
    \<and> batch_ok (discovery_items s) \<and> item_CID ` set (discovery_items s) \<subseteq> \<Union>(offers ` set acts)"
proof -
  let ?s = "live tx ui acts (wire now cfg m (Embedded n bind))"
  have w: "srv_backend (wire now cfg m (Embedded n bind)) = Embedded n bind" "discovery_items (wire now cfg m (Embedded n bind)) = []"
    by (simp_all add: wire_def NewServer_def)
  have o: "offers a \<subseteq> {c. cidRegex c}" for a :: "'a action" by (cases a rule: offers.cases) auto
  from live_repins [of "wire now cfg m (Embedded n bind)" acts tx ui] obtain n' where
    "srv_backend ?s = Embedded n' bind" "pins n - \<Union>(asks UnpinOne ` set acts) \<subseteq> pins n'"
    "pins n' \<subseteq> pins n \<union> (\<Union>(offers ` set acts) \<union> {c \<in> \<Union>(asks PinOne ` set acts). cidRegex c})"
    "batch_ok (discovery_items ?s)" "item_CID ` set (discovery_items ?s) \<subseteq> \<Union>(offers ` set acts)"
    by (auto simp: w repinned_def)
  then show ?thesis using o by blast
qed

text \<open>One refresh of an empty server, the libraries delivering everything.\<close>

definition demo_wired :: "unit server" where
  "demo_wired = demo_server\<lparr>autopin := demo_saved [zero_rule\<lparr>r_Enabled := True\<rparr>]\<rparr>"

lemma demo_refresh: "map (\<lambda>i. (item_Author i, item_CID i)) (fst (refresh (Rows [Inr demo_columns] None :: string query_result) [])) = [(''alice'', sample_v0), (''alice'', sample_v1)]"
  by code_simp

theorem refresh_pins_matching_witness:
  "\<exists>n'. srv_backend (tick (\<lambda>s. s) (Rows [Inr demo_columns] None) (demo_outside plan_ok) demo_wired) = Embedded n' ''127.0.0.1:8080''
     \<and> pins n' = {sample_v0, sample_v1}"
proof -
  let ?n = "open_node empty_fs ''pins.json''"
  have s: "srv_backend demo_wired = Embedded ?n ''127.0.0.1:8080''" "autopinRunner demo_wired = NewAutoPinRunner 4 20"
    "discovery_items demo_wired = []" "autopin demo_wired = demo_saved [zero_rule\<lparr>r_Enabled := True\<rparr>]"
    by (simp_all add: demo_wired_def demo_server_def NewServer_def)
  have n: "pins ?n = {}" "\<not> done_closed ?n" by (simp_all add: open_node_empty)
  have all: "filter (\<lambda>i. \<exists>r \<in> set (elems (m_rules (autopin demo_wired))). Matches (\<lambda>s. s) r i) items = items" for items
    by (simp add: s demo_saved_def Matches_def zero_rule_def)
  have f: "fetchable (w_fetch (out_item (demo_outside plan_ok) i)) c" for i c
    by (simp add: demo_outside_def demo_world_def fetch_all_def fetchable_def)
  from refresh_pins_matching [OF s(1) n(2) s(2), of "[Inr demo_columns]" "\<lambda>s. s" "demo_outside plan_ok"]
  obtain items queued n' where r: "refresh (Rows [Inr demo_columns] None :: string query_result) [] = (items, Some items, None)"
    and t: "srv_backend (tick (\<lambda>s. s) (Rows [Inr demo_columns] None) (demo_outside plan_ok) demo_wired) = Embedded n' ''127.0.0.1:8080''"
    and p: "pins n' = {item_CID i |i. i \<in> set queued}"
    and q: "\<forall>a. by_author a queued = take 20 (by_author a items)"
    unfolding all by (auto simp: f n s(3))
  have i: "map (\<lambda>i. (item_Author i, item_CID i)) items = [(''alice'', sample_v0), (''alice'', sample_v1)]"
    using demo_refresh r by simp
  then obtain x y where xy: "items = [x, y]" "item_Author x = ''alice''" "item_CID x = sample_v0" "item_Author y = ''alice''" "item_CID y = sample_v1"
    by (auto simp: map_eq_Cons_conv)
  have "set queued = {x, y}"
  proof (rule set_eqI)
    fix z
    have "z \<in> set queued \<longleftrightarrow> z \<in> set (by_author (item_Author z) queued)" by (simp add: by_author_def)
    also have "\<dots> \<longleftrightarrow> z \<in> set (by_author (item_Author z) items)" using q by (simp add: by_author_def xy)
    also have "\<dots> \<longleftrightarrow> z \<in> {x, y}" by (auto simp: by_author_def xy)
    finally show "z \<in> set queued \<longleftrightarrow> z \<in> {x, y}" .
  qed
  moreover have "{item_CID i |i. i \<in> set queued} = item_CID ` set queued" by blast
  ultimately have "pins n' = {sample_v0, sample_v1}" unfolding p using xy by simp
  with t show ?thesis by blast
qed

text \<open>
  C8: a shutdown leaves nothing behind. For a node that was started, however its pins and its mesh
  have changed since: whatever fails on the way, every part of the node that was open has been closed
  and the loops of the mesh have ended; the pins are those of before; \<open>Pin\<close> refuses and a second \<open>Close\<close>
  does nothing. Logged are the errors of the HTTP server and the drain, and of the backend the first
  in the order gateway, bitswap, DHT, host, repository.
\<close>

theorem shutdown_releases_all:
  assumes "NewEmbeddedNode a c0 opts s = (s', tr, Inr n)"
    "e_trace n1 = e_trace n" "e_closed n1 = e_closed n" "e_mesh n1 = None \<longleftrightarrow> e_mesh n = None"
    "shutdown sd (StartedNode n1) = (steps, logged, b)" "c = sd_closing sd"
  shows "\<exists>n2. b = StartedNode n2 \<and> still_open {} (e_trace n2) = {} \<and> (\<forall>m. e_mesh n2 = Some m \<longrightarrow> mm_stopped m)
   \<and> node_Pin env (e_node n2) cid = (e_node n2, Some ErrPinnerShuttingDown) \<and> pins (e_node n2) = pins (e_node n1)
   \<and> node_Close c' n2 = (n2, None)
   \<and> logged = map the (filter (\<lambda>e. e \<noteq> None)
        [sd_http sd, sd_drain sd, first_error [c_server c, c_bitswap c, c_dht c, c_host c, c_datastore c]])"
proof -
  obtain n3 e1 where d: "node_Drain (sd_drain sd) n1 = (n3, e1)" by fastforce
  then have n3: "e_trace n3 = e_trace n" "e_closed n3 = e_closed n" "e_mesh n3 = None \<longleftrightarrow> e_mesh n = None"
    "pins (e_node n3) = pins (e_node n1)" "e1 = sd_drain sd"
    using assms(2-4) by (auto simp: node_Drain_def)
  obtain n2 err where k: "node_Close c n3 = (n2, err)" by fastforce
  note cl = node_Close_releases [OF assms(1) n3(1-3) k, of env cid c']
  have "b = StartedNode n2" "logged = map the (filter (\<lambda>e. e \<noteq> None) [sd_http sd, e1, err])"
    using assms(5,6) d k by (auto simp: shutdown_def started_Drain_def started_Close_def Let_def split: option.splits)
  with cl n3 show ?thesis by auto
qed

theorem shutdown_releases_all_witness:
  "\<exists>s' tr n n2. demo_start demo_closing empty_fs = (s', tr, Inr n)
     \<and> snd (shutdown \<lparr>sd_http = None, sd_drain = Some ''deadline'', sd_closing = demo_closing\<rparr> (StartedNode n)) = ([''deadline'', ''dht''], StartedNode n2)
     \<and> still_open {} (e_trace n2) = {}"
proof -
  obtain s' tr n where s: "demo_start demo_closing empty_fs = (s', tr, Inr n)" by (rule demo_starts [OF demo_fresh])
  let ?sd = "\<lparr>sd_http = None, sd_drain = Some ''deadline'', sd_closing = demo_closing\<rparr>"
  obtain steps logged b where d: "shutdown ?sd (StartedNode n) = (steps, logged, b)" by (metis prod.exhaust)
  from shutdown_releases_all [OF s refl refl refl d refl, of undefined "[]" demo_closing] s d show ?thesis
    by (auto simp: demo_closing_def)
qed

end
