(* ===== verification/Restart.thy ===== *)
theory Restart
  imports Process
begin

text \<open>
  What the next start finds. Every step of the life of the process leaves the pin file and the rule file equal to what
  is in memory, if the system calls it makes succeed; a start is in that state whatever it has read.
\<close>

section \<open>Files and memory agree\<close>

text \<open>The answers of a life in which the files can be written: every save of the pins goes through, with the map
  iterated in any order, and so does every save of the rules.\<close>

definition writes_pins :: "'srv world \<Rightarrow> bool" where
  "writes_pins w \<longleftrightarrow> iterates (w_order w) \<and> w_plan w = plan_ok"

fun files_written :: "'srv action \<Rightarrow> bool" where
  "files_written (Tick q out) = (\<forall>i. writes_pins (out_item out i))"
| "files_written (Request r out) = (writes_pins (out_call out) \<and> (\<forall>i. writes_pins (out_item out i)) \<and> out_plan out = plan_ok)"

definition pins_settled :: "path \<Rightarrow> 'srv backend \<Rightarrow> bool" where
  "pins_settled pp b \<longleftrightarrow> (\<exists>n bind. b = Embedded n bind \<and> in_sync n \<and> pinFile n = pp)"

definition rules_settled :: "path \<Rightarrow> manager \<Rightarrow> bool" where
  "rules_settled fp m \<longleftrightarrow> rules_synced m \<and> m_filePath m = fp"

definition settled :: "path \<Rightarrow> path \<Rightarrow> 'srv server \<Rightarrow> bool" where
  "settled fp pp s \<longleftrightarrow> rules_settled fp (autopin s) \<and> pins_settled pp (srv_backend s)"

lemma settled_sel [simp]:
  "settled fp pp (s\<lparr>srv_backend := b\<rparr>) \<longleftrightarrow> rules_settled fp (autopin s) \<and> pins_settled pp b"
  "settled fp pp (s\<lparr>autopin := m\<rparr>) \<longleftrightarrow> rules_settled fp m \<and> pins_settled pp (srv_backend s)"
  "settled fp pp (s\<lparr>discovery_items := items\<rparr>) \<longleftrightarrow> settled fp pp s"
  by (simp_all add: settled_def)

section \<open>The backend\<close>

lemma node_settled:
  assumes "writes_pins w" "in_sync n" "pinFile n = pp"
  shows "in_sync (fst (node_Pin (world_env w) n c)) \<and> pinFile (fst (node_Pin (world_env w) n c)) = pp"
    and "in_sync (fst (node_Unpin (world_env w) n c)) \<and> pinFile (fst (node_Unpin (world_env w) n c)) = pp"
  using assms node_call_in_sync [of "w_order w" n "(w_fetch w, OpPin c)"] node_call_sel(2) [of "w_order w" "(w_fetch w, OpPin c)" n]
    node_call_in_sync [of "w_order w" n "(w_fetch w, OpUnpin c)"] node_call_sel(2) [of "w_order w" "(w_fetch w, OpUnpin c)" n]
  by (simp_all add: writes_pins_def node_call_def)

lemma backend_settled:
  assumes "writes_pins w" "pins_settled pp b"
  shows "pins_settled pp (fst (backend_Pin w b c))" "pins_settled pp (fst (backend_Unpin w b c))"
    "pins_settled pp (fst (attempt backend_Pin backend_IsPinned w b c))"
proof -
  obtain n bind where b: "b = Embedded n bind" "in_sync n" "pinFile n = pp" using assms(2) by (auto simp: pins_settled_def)
  note ns = node_settled [OF assms(1) b(2,3), of c]
  show p: "pins_settled pp (fst (backend_Pin w b c))" and "pins_settled pp (fst (backend_Unpin w b c))"
    using ns by (auto simp: backend_Pin_def backend_Unpin_def b(1) pins_settled_def split: prod.splits)
  show "pins_settled pp (fst (attempt backend_Pin backend_IsPinned w b c))"
    using p assms(2) by (auto simp: attempt_def split: sum.splits prod.splits)
qed

lemma batch_settled:
  assumes "\<And>i. writes_pins (out_item out i)" "settled fp pp s"
  shows "settled fp pp (fst (run_batch out items s))"
proof -
  have "pins_settled pp (fst (fold (seq_step backend_Pin backend_IsPinned (out_item out)) q (b, res)))" if "pins_settled pp b" for q b res
    using that
  proof (induction q arbitrary: b res)
    case (Cons i q)
    obtain b1 oc where a: "attempt backend_Pin backend_IsPinned (out_item out i) b (item_CID i) = (b1, oc)" by fastforce
    with backend_settled(3) [OF assms(1) Cons.prems, of i "item_CID i"] have "pins_settled pp b1" by simp
    from Cons.IH [OF this] show ?case by (simp add: seq_step_def a)
  qed simp
  with assms(2) show ?thesis
    by (auto simp: run_batch_def Run_seq_fold settled_def split: prod.splits) (metis fst_conv)
qed

section \<open>The rules\<close>

lemma mgr_call_settled:
  assumes "rules_settled fp m" "op_utf8 oper" "mgr_call plan_ok oper m = (m', e)"
  shows "rules_settled fp m'"
proof -
  have s: "e1 = None" if "saveLocked plan_ok m1 = (m2, e1)" for m1 m2 e1
    using that by (auto simp: saveLocked_def dest: plan_ok_write split: prod.splits)
  have "e = None \<or> rolls_back oper \<or> (\<exists>i. e = Some (RuleNotFound i))"
    using assms(3) by (cases oper)
      (auto simp: mgr_call_def rolls_back_def DeleteRule_def SetAllEnabled_def dest: s split: option.splits)
  then have st: "mgr_step m (plan_ok, oper) m'" by (rule mgr_step [OF assms(3,2)])
  show ?thesis using synced.step_inv [OF _ st, of fp] assms(1) unfolding rules_settled_def by blast
qed

lemma rule_handlers_settled:
  assumes "settled fp pp s" "out_plan out = plan_ok"
  shows "settled fp pp (fst (handleAddRule tx out r s w))" "settled fp pp (fst (handleUpdateRule tx out r v s w))"
    "settled fp pp (fst (handleDeleteRule tx out v s w))" "settled fp pp (fst (handleSetAllRules tx out b s w))"
proof -
  have c: "settled fp pp (s\<lparr>autopin := fst (mgr_call plan_ok oper (autopin s))\<rparr>)" if "op_utf8 oper" for oper
    using assms(1) mgr_call_settled [OF _ that, of fp "autopin s"] by (cases "mgr_call plan_ok oper (autopin s)") (simp add: settled_def)
  show "settled fp pp (fst (handleAddRule tx out r s w))"
  proof (cases "decode_body (q_body r)")
    case (Some rule)
    have "op_utf8 (OpAdd (out_random out) rule)" using decode_body_utf8 [OF Some] by (simp add: op_utf8_def)
    from c [OF this] Some assms(2) show ?thesis
      by (auto simp: handleAddRule_def mgr_call_def err_of_def split: prod.splits sum.splits)
  qed (simp add: handleAddRule_def assms(1))
  show "settled fp pp (fst (handleUpdateRule tx out r v s w))"
  proof (cases "decode_body (q_body r)")
    case (Some rule)
    have "op_utf8 (OpUpdate v rule)" using decode_body_utf8 [OF Some] by (simp add: op_utf8_def)
    from c [OF this] Some assms(2) show ?thesis
      by (auto simp: handleUpdateRule_def mgr_call_def err_of_def split: prod.splits sum.splits)
  qed (simp add: handleUpdateRule_def assms(1))
  show "settled fp pp (fst (handleDeleteRule tx out v s w))"
    using c [of "OpDelete v"] assms(2)
    by (auto simp: op_utf8_def handleDeleteRule_def mgr_call_def split: prod.splits option.splits)
  show "settled fp pp (fst (handleSetAllRules tx out b s w))"
    using c [of "OpSetAll b"] assms(2)
    by (auto simp: op_utf8_def handleSetAllRules_def mgr_call_def split: prod.splits option.splits)
qed

section \<open>A step of the process\<close>

lemma pin_handlers_settled:
  assumes "settled fp pp s" "writes_pins (out_call out)"
  shows "settled fp pp (fst (handlePin tx out v s w))" "settled fp pp (fst (handleUnpin tx out v s w))"
proof -
  have b: "pins_settled pp (srv_backend s)" using assms(1) by (simp add: settled_def)
  show "settled fp pp (fst (handlePin tx out v s w))"
    using backend_settled(1) [OF assms(2) b, of v] assms(1)
    by (auto simp: handlePin_def split: option.splits prod.splits) (simp_all add: settled_def)
  show "settled fp pp (fst (handleUnpin tx out v s w))"
    using backend_settled(2) [OF assms(2) b, of v] assms(1)
    by (auto simp: handleUnpin_def split: option.splits prod.splits) (simp_all add: settled_def)
qed

lemma route_settled:
  assumes "settled fp pp s" "files_written (Request r out)"
  shows "settled fp pp (fst (call_route tx ui out r t v s))"
proof -
  from assms(2) have o: "writes_pins (out_call out)" "\<And>i. writes_pins (out_item out i)" "out_plan out = plan_ok" by simp_all
  note p = pin_handlers_settled [OF assms(1) o(1), of tx v new_writer]
    and q = rule_handlers_settled [OF assms(1) o(3)]
    and b = batch_settled [OF o(2) assms(1)]
  show ?thesis
  proof (cases t)
    case PinAll
    with b [of "discovery_items s"] show ?thesis by (auto simp: call_route_def handlePinAll_def split: prod.splits)
  next
    case Evaluate
    with b [of "MatchingItems (tx_lower tx) (autopin s) (discovery_items s)"] show ?thesis
      by (auto simp: call_route_def handleEvaluateRules_def split: prod.splits)
  qed (use p q [where w = new_writer] assms(1) in \<open>auto simp: call_route_def case_prod_unfold\<close>)
qed

lemma act_settled:
  assumes "settled fp pp s" "files_written a"
  shows "settled fp pp (act tx ui a s)"
proof (cases a)
  case (Tick q out)
  obtain items cb err where r: "refresh q (discovery_items s) = (items, cb, err)" by (metis prod.exhaust)
  have "settled fp pp (fst (on_refresh (tx_lower tx) out b (s\<lparr>discovery_items := items\<rparr>)))" for b
    using batch_settled [of out fp pp "s\<lparr>discovery_items := items\<rparr>" "MatchingItems (tx_lower tx) (autopin s) b"] assms Tick
    by (auto simp: on_refresh_def Let_def split: prod.splits)
  with assms(1) show ?thesis by (simp add: act_def Tick tick_def r Let_def split: option.splits)
next
  case (Request r out)
  with route_settled [OF assms(1)] assms show ?thesis
    by (auto simp: act_def ServeHTTP_def split: target.splits prod.splits) (metis fst_conv)
qed

lemma live_settled: "settled fp pp s \<Longrightarrow> \<forall>a \<in> set acts. files_written a \<Longrightarrow> settled fp pp (live tx ui acts s)"
  unfolding live_def by (induction acts arbitrary: s) (simp_all add: act_settled)

section \<open>The start\<close>

lemma peer_key_wf:
  assumes "loadOrCreatePeerKey cr rd pl p s = (s', r)" "fs_wf s"
  shows "fs_wf s'"
  using assms open_trunc_wf
  by (auto simp: loadOrCreatePeerKey_def os_WriteFile_def split: option.splits prod.splits)

lemma start_settled:
  assumes "start_parts uni st f = (f', Inr (cfg, m, StartedNode n))" "fs_wf f"
  shows "settled (filepath_Join (DataDir cfg) ''autopin.json'') (filepath_Join (DataDir cfg) ''pins.json'')
    (wire now cfg m (Embedded (e_node n) (e_gatewayBind n)))"
proof -
  obtain tr where m: "NewAutoPinManager (st_rules_read st) (st_random st) (st_rules_write st) f (filepath_Join (DataDir cfg) ''autopin.json'') = Inr m"
    and n: "NewEmbeddedNode (st_setup st) (st_closing st) (options_of cfg) (m_files m) = (f', tr, Inr n)"
    using assms(1) by (auto simp: start_parts_def make_backend_def split: sum.splits option.splits prod.splits if_splits)
  from NewAutoPinManager_synced [OF m assms(2)] have r: "rules_settled (filepath_Join (DataDir cfg) ''autopin.json'') m"
    by (simp add: rules_settled_def)
  then have w: "fs_wf (m_files m)" by (simp add: rules_settled_def rules_synced_def)
  have d: "n_DataDir (options_of cfg) = DataDir cfg" by (simp add: options_of_def Let_def)
  obtain n0 k ep where n0: "n = start_mesh_of (st_setup st) ep n0" "e_node n0 = open_node f' (filepath_Join (DataDir cfg) ''pins.json'')"
    "newLibp2pHost (st_setup st) (filepath_Join (DataDir cfg) ''ipfs-repo'') (m_files m) = (f', [Opened Libp2pHost, Opened DHTRouting], Inr k)"
    by (rule NewEmbeddedNode_Inr [OF n]) (rule that, simp_all add: d)
  have "fs_wf f'" using n0(3) peer_key_wf [OF _ w] by (auto simp: newLibp2pHost_def split: prod.splits sum.splits option.splits if_splits)
  from open_node_in_sync [OF this] n0 r show ?thesis by (auto simp: settled_def pins_settled_def wire_def NewServer_def)
qed

section \<open>Properties\<close>


definition demo_acts :: "unit action list" where
  "demo_acts =
     (let w = demo_world\<lparr>w_order := sorted_list_of_set\<rparr>;
          out = (demo_outside plan_ok)\<lparr>out_call := w, out_item := (\<lambda>_. w)\<rparr>
      in [Tick (Rows [Inr demo_columns] None) out, Request (demo_request ''POST'' ''/api/autopin/rules'' demo_rule) out])"


end
