(* ===== verification/Spec2Isabelle.thy ===== *)
theory Spec2Isabelle
  imports Cid AtomicFile Json Backend EmbeddedNode PinLifecycle Discovery AutoPin Runner Gateway Fetch Mesh Pinata Config PinTiers Process Restart
begin
text \<open>
  \<^bold>\<open>pevo-pinner\<close>, a Go program that finds the IPFS content of PEvO posts in a HAF database and keeps it
  pinned, modelled in HOL with the theorems that make its parts correct.

  \<^bold>\<open>The program.\<close> \<open>main.go\<close> reads the configuration, opens the database (\<open>discovery.go\<close>), loads the auto-pin
  rules (\<open>autopin.go\<close>) and starts a backend: the embedded node (\<open>ipfsnode*.go\<close>) or Pinata (\<open>pinata.go\<close>). Each
  refresh of the database publishes a list of items and calls back; the items that some rule matches go
  through the runner (\<open>autopin_runner.go\<close>), which cuts each author off at a cap and pins the rest through a
  bounded pool. The management API (\<open>server.go\<close>) shows and changes all of this. The node fetches by
  bitswap or, failing that, from a chain of gateways (\<open>ipfsnode_fetch.go\<close>) that a gossip mesh of other
  pinners extends (\<open>ipfsnode_pubsub.go\<close>); its own gateway serves pinned content only
  (\<open>ipfsnode_gateway.go\<close>). Pins and rules are kept in JSON files that \<open>atomicfile.go\<close> writes.

  \<^bold>\<open>The language and its library.\<close> A Go string is a \<open>char list\<close> of bytes; \<open>int64\<close> and \<open>uint64\<close> are \<open>64 word\<close>
  where they can wrap, and \<open>int\<close> with the bound as a lemma where they cannot; an error result is an option or the
  left of a sum. \<open>Prelude\<close> has the shared vocabulary and the notions of run and invariant (the locale
  \<open>state_invariant\<close>). \<open>GoStrings\<close>, \<open>Strconv\<close>, \<open>GoTime\<close>, \<open>GoPath\<close>, \<open>IpAddr\<close>, \<open>Url\<close>, \<open>Json\<close>, \<open>JsonUtf8\<close>, \<open>JsonStruct\<close> and \<open>Http\<close>
  model what the sources use of \<open>strings\<close>, \<open>strconv\<close>, \<open>time\<close>, \<open>path/filepath\<close>, \<open>net\<close>, \<open>net/url\<close>, \<open>encoding/json\<close>
  and \<open>net/http\<close>, errors and odd cases included; the JSON
  parser recurses on its input and has Go's limit of 10000 on the depth; what it reads is UTF-8 (\<open>JsonUtf8\<close>),
  so that everything that was read can be written and read again.

  \<^bold>\<open>The theories of the program.\<close>
  \<^item> \<open>Cid\<close> and \<open>Backend\<close> (\<open>pinner.go\<close>): \<open>ValidateCID\<close> and the language it accepts; the interface \<open>IPFSBackend\<close> as the
    locales \<open>ipfs_backend\<close> and \<open>pin_set_backend\<close>, interpreted by the node, Pinata and the server's dispatch.
  \<^item> \<open>AtomicFile\<close> (\<open>atomicfile.go\<close>): a file system of names and inodes, with what a crash would leave;
    \<open>atomicWriteFile\<close> as a function and system call by system call, alone, crashed anywhere, or with two
    callers; the locale \<open>state_file\<close> on which the clients rest.
  \<^item> \<open>EmbeddedNode\<close> (\<open>ipfsnode.go\<close>): the pin set and its file, one call at a time: it refines a set and survives
    restarts. \<open>PinLifecycle\<close>: the same calls and \<open>Drain\<close> as small steps that interleave, with the
    \<open>WaitGroup\<close>, the table of cancel functions and the 64-bit call counter.
  \<^item> \<open>NodeSetup\<close> (\<open>ipfsnode.go\<close>, \<open>ipfsnode_libp2p.go\<close>, \<open>ipfsnode_repo.go\<close>): start and stop of the node as a trace of
    what is opened and closed, the persistent peer key and the bootstrap dial.
  \<^item> \<open>Gateway\<close> (\<open>ipfsnode_gateway.go\<close>): the guard in front of the content gateway.
  \<^item> \<open>Fetch\<close> (\<open>ipfsnode_fetch.go\<close>): the fallback chain, the import of a CAR stream with its cap and batches.
  \<^item> \<open>PinTiers\<close> (\<open>ipfsnode.go\<close>): \<open>Pin\<close> with its tiers over the blockstore, which computes the answers that
    \<open>EmbeddedNode\<close> takes as given: what is pinned, and so what is served, is in the store with its whole graph.
  \<^item> \<open>MeshGuard\<close> and \<open>Mesh\<close> (\<open>ipfsnode_pubsub.go\<close>): the vetting of gateway URLs, heartbeats, the cache of known
    peers, eviction.
  \<^item> \<open>Discovery\<close> and \<open>DiscoverySetup\<close> (\<open>discovery.go\<close>): the query text and the data source; the regular
    expression over a post's body, the extraction of a row against a one-pass reference, the refresh.
  \<^item> \<open>AutoPin\<close> (\<open>autopin.go\<close>): the rules, their matching with the calendar it needs, the manager as a map that
    is kept in a file. \<open>Runner\<close> (\<open>autopin_runner.go\<close>): the cap, the summary, one batch alone, and the pool
    as a step relation over any number of \<open>Run\<close> calls.
  \<^item> \<open>Pinata\<close> (\<open>pinata.go\<close>), \<open>Config\<close> (\<open>config.go\<close>), \<open>Server\<close> and \<open>Api\<close> (\<open>server.go\<close>): every operation, every setting,
    every handler behind the mux.
  \<^item> \<open>Process\<close> (\<open>main.go\<close>): the start in its order, the refresh callback, the life of the process as a
    sequence of refreshes and requests, the shutdown. \<open>Restart\<close>: what such a life leaves in the files.
  \<^item> This theory: what the fallback chain can take from the mesh.

  A Go struct is a record with the names of its fields (prefixed where two structs share one), a function keeps
  its name. A method takes what the outside world answers to its calls as further arguments: \<open>io_plan\<close> and
  \<open>resp\<close> for the operating system, \<open>fetch_env\<close> for the IPFS libraries, \<open>world\<close> and \<open>outside\<close> for a request,
  \<open>start_answers\<close>, \<open>setup_answers\<close> and \<open>close_answers\<close> for the start and the end. The order in which Go
  iterates a map is an argument, or left open in the step relations.

  \<^bold>\<open>What is shown.\<close> Of the state: the pin set and the rules refine a set and a map, are in their files after
  every successful save and are read back by the next start; a crash leaves an old or a new file. Of concurrency: the
  bookkeeping of \<open>Pin\<close> is exact, \<open>Drain\<close> is a barrier and can complete, the pool is bounded, exact and
  never stuck. Of what outsiders can do: only well-formed, fetched, asked-for CIDs are pinned, only pinned content
  is served, only vetted gateways are tried, the mesh cache is bounded, the database query cannot be changed by
  the tag. Of the process: it starts as configured, a restart finds its pins and rules, a refresh pins exactly what the rules and the cap allow, and
  it leaves nothing open when it fails to start or stops. Some theorems exhibit a behaviour that is
  not the intended one (\<open>overlapping_saves_lose_pins\<close>, \<open>failed_delete_diverges\<close>, \<open>redaction_gaps\<close> and others).

  \<^bold>\<open>Bounds.\<close> The theorems on interleaved \<open>Pin\<close> calls hold for runs of fewer than \<open>2 ^ 64\<close> steps, the width of the
  call counter. \<open>pages\<close> of \<open>Pinata\<close> may run forever against a service that never ends its list; it is a partial
  function, and it is shown to end on a finite list. Everything else is total.

  \<^bold>\<open>Not modelled.\<close> Third-party code (flatfs, blockstore, bitswap, libp2p, the DHT, go-cid, go-car, \<open>lib/pq\<close>,
  boxo's gateway) is a parameter, with a hypothesis where a theorem relies on what it documents (marshaled keys
  unmarshal to themselves, \<open>QuoteLiteral\<close> writes one literal, blocks with one CID have the same links,
  \<open>FetchGraph\<close> fails if a block of the graph is missing). The parts share one disk but not their
  files: each component's model has its own view of the file system after the start, which \<open>one_disk\<close> of
  \<open>AtomicFile\<close> justifies for saves that do not overlap. Timers are the sequence of
  ticks that a theorem is given; contexts appear where they are cancelled; log lines only where they
  are computed; the bootstrap of the DHT only logs and is left out. The handlers of concurrent requests are taken one after the other in \<open>Server\<close>, \<open>Api\<close> and
  \<open>Process\<close>; races between them on the rules are excluded by the manager's mutex, and those of backend calls are
  in \<open>PinLifecycle\<close> and \<open>Runner\<close>. The management UI is a static page, served by a parameter.
\<close>

section \<open>The fallback chain and the mesh\<close>

text \<open>
  C15: what an untrusted peer can make the node fetch from. Every gateway that \<open>fetchViaCAR\<close> tries is
  one of the configured list, or the result of the guard for the URL in a heartbeat that was received
  and signed by its peer: without the operator's opt-in, an http or https URL whose host was, at that
  moment, neither local nor in a blocked range.
\<close>

theorem fetched_gateways_vetted:
  assumes "startMesh h opts e1 e2 e3 = Inr m" "\<not> o_AllowPrivateGateways opts"
    and "u \<in> set (assembleFallbackChain uni n (Some (map gatewayURL (KnownPeers (mesh_run uni decode_id multiaddr evs m)))))"
    and "u \<notin> set (fallbackGateways n)"
  shows "\<exists>L now p data hb v. Message L now p data \<in> set evs \<and> unmarshal_heartbeat data = Some hb
    \<and> Parse (TrimSpace (hb_GatewayURL hb)) = Some v \<and> (Scheme v = ''http'' \<or> Scheme v = ''https'')
    \<and> \<not> isUnsafeHost L (Hostname v)
    \<and> u = url_String (v\<lparr>Host := ToLower uni (Host v), Path := TrimRight (CHR ''/'') (Path v), Fragment := [], RawQuery := []\<rparr>)"
proof -
  from chain_members [OF assms(3)] assms(4) obtain p e where
    e: "(p, e) \<in> set (mm_peers (mesh_run uni decode_id multiaddr evs m))" "gatewayURL e = u" "u \<noteq> []"
    by (auto simp: KnownPeers_def)
  have m: "mm_peers m = []" "\<not> mm_allowPrivate m"
    using assms(1,2) by (auto simp: startMesh_def Let_def split: if_splits option.splits)
  from peers_come_from [OF m(1) e(1)] e(2,3) m(2) obtain L data hb where
    c: "Message L (lastSeen e) (addrID e) data \<in> set evs" "unmarshal_heartbeat data = Some hb"
      "validateMeshGatewayURL uni L (hb_GatewayURL hb) False = Inr u"
    by (auto simp: comes_from_def)
  from c(3) obtain v where "Parse (TrimSpace (hb_GatewayURL hb)) = Some v" "Scheme v = ''http'' \<or> Scheme v = ''https''"
    "\<not> isUnsafeHost L (Hostname v)"
    "u = url_String (v\<lparr>Host := ToLower uni (Host v), Path := TrimRight (CHR ''/'') (Path v), Fragment := [], RawQuery := []\<rparr>)"
    by (auto elim: validate_Inr)
  with c show ?thesis by blast
qed

theorem fetched_gateways_vetted_witness:
  "\<exists>L hb. unmarshal_heartbeat demo_beat = Some hb \<and> \<not> isUnsafeHost L ''1.1.1.1''"
proof -
  let ?evs = "[Message (\<lambda>_. None) 5 ''you'' demo_beat]" and ?n = "\<lparr>fallbackGateways = [], staticHeadLen = 0\<rparr>"
  have "assembleFallbackChain (\<lambda>s. s) ?n (Some [''https://1.1.1.1'']) = [''https://1.1.1.1'']" by code_simp
  then have "''https://1.1.1.1'' \<in> set (assembleFallbackChain (\<lambda>s. s) ?n
      (Some (map gatewayURL (KnownPeers (mesh_run (\<lambda>s. s) Some Some ?evs demo_mesh)))))"
    by (simp add: demo_known demo_peer_def)
  moreover have "\<not> o_AllowPrivateGateways demo_opts" by (simp add: demo_opts_def)
  ultimately obtain L data hb v where w: "Message L 5 ''you'' data \<in> set ?evs \<or> True" "unmarshal_heartbeat data = Some hb"
    "data = demo_beat" "Parse (TrimSpace (hb_GatewayURL hb)) = Some v" "\<not> isUnsafeHost L (Hostname v)"
    using fetched_gateways_vetted [OF start_demo, of "''https://1.1.1.1''" "\<lambda>s. s" ?n Some Some ?evs]
    by auto
  moreover have "map_option (\<lambda>hb. map_option Hostname (Parse (TrimSpace (hb_GatewayURL hb)))) (unmarshal_heartbeat demo_beat)
    = Some (Some ''1.1.1.1'')" by code_simp
  ultimately show ?thesis by auto
qed

end
